(* ===== verification/Konclave_Prelude.thy ===== *)
theory Konclave_Prelude
  imports Main "HOL-Library.Word"
begin

text \<open>
  Shared vocabulary of the development: the machine integers and byte strings of the
  Rust sources, \<open>Result\<close> as a sum type with the combinators the code uses (\<open>?\<close>,
  \<open>ok_or\<close>, \<open>map_err\<close>, \<open>collect\<close>), checked and saturating arithmetic, SQL
  transactions that roll back on an early return, and the interface every durable
  component of the relay offers: a step function with an invariant that each step keeps.
\<close>

section \<open>Machine types\<close>

type_synonym u8 = "8 word"
type_synonym u32 = "32 word"
type_synonym u64 = "64 word"
type_synonym usize = nat
type_synonym bytes = "u8 list"

text \<open>The bytes of a text, for byte string literals and \<open>as_bytes\<close>.\<close>

definition ascii :: "string \<Rightarrow> bytes" where
  "ascii s = map (\<lambda>c. of_nat (of_char c)) s"

named_theorems row_checks \<open>the CHECK constraints of the relay tables\<close>

section \<open>Results\<close>

text \<open>
  \<open>Result<T, E>\<close> is the sum \<open>'e + 't\<close>: \<open>Inl\<close> is \<open>Err\<close>, \<open>Inr\<close> is \<open>Ok\<close>.
  \<open>and_then\<close> is the \<open>?\<close> operator followed by the rest of the function.
\<close>

fun and_then :: "'e + 'a \<Rightarrow> ('a \<Rightarrow> 'e + 'b) \<Rightarrow> 'e + 'b" where
  "and_then (Inl e) f = Inl e"
| "and_then (Inr a) f = f a"

fun ok_or :: "'e \<Rightarrow> 'a option \<Rightarrow> 'e + 'a" where
  "ok_or e None = Inl e"
| "ok_or e (Some a) = Inr a"

fun map_err :: "('e \<Rightarrow> 'f) \<Rightarrow> 'e + 'a \<Rightarrow> 'f + 'a" where
  "map_err g (Inl e) = Inl (g e)"
| "map_err g (Inr a) = Inr a"

definition ensure :: "bool \<Rightarrow> 'e \<Rightarrow> 'e + unit" where
  "ensure b e = (if b then Inr () else Inl e)"

text \<open>\<open>Option<Result<T, E>>::transpose\<close> after \<open>Option::map\<close>.\<close>

fun transpose_map :: "('a \<Rightarrow> 'e + 'b) \<Rightarrow> 'a option \<Rightarrow> 'e + 'b option" where
  "transpose_map f None = Inr None"
| "transpose_map f (Some a) = and_then (f a) (\<lambda>b. Inr (Some b))"

text \<open>\<open>iter().map(f).collect::<Result<Vec<_>, _>>()\<close>: stops at the first error.\<close>

fun collect :: "('a \<Rightarrow> 'e + 'b) \<Rightarrow> 'a list \<Rightarrow> 'e + 'b list" where
  "collect f [] = Inr []"
| "collect f (x # xs) = and_then (f x) (\<lambda>y. and_then (collect f xs) (\<lambda>ys. Inr (y # ys)))"

text \<open>\<open>Iterator::try_fold\<close>: an accumulator threaded through fallible calls.\<close>

fun try_fold :: "('s \<Rightarrow> 'a \<Rightarrow> 'e + 's) \<Rightarrow> 's \<Rightarrow> 'a list \<Rightarrow> 'e + 's" where
  "try_fold f s [] = Inr s"
| "try_fold f s (x # xs) = and_then (f s x) (\<lambda>s. try_fold f s xs)"

lemma and_then_cong [fundef_cong]:
  "r = r' \<Longrightarrow> (\<And>a. r' = Inr a \<Longrightarrow> f a = g a) \<Longrightarrow> and_then r f = and_then r' g"
  by (cases r') auto

lemma and_then_eq_Inr [simp]:
  "and_then r f = Inr b \<longleftrightarrow> (\<exists>a. r = Inr a \<and> f a = Inr b)"
  by (cases r) auto

lemma and_then_eq_Inl [simp]:
  "and_then r f = Inl e \<longleftrightarrow> r = Inl e \<or> (\<exists>a. r = Inr a \<and> f a = Inl e)"
  by (cases r) auto

lemma Inr_eq_and_then [simp]:
  "Inr b = and_then r f \<longleftrightarrow> (\<exists>a. r = Inr a \<and> f a = Inr b)"
  by (cases r) auto

lemma ok_or_eq_Inr [simp]: "ok_or e x = Inr a \<longleftrightarrow> x = Some a"
  by (cases x) auto

lemma ok_or_eq_Inl [simp]: "ok_or e x = Inl e' \<longleftrightarrow> x = None \<and> e' = e"
  by (cases x) auto

lemma map_err_eq_Inr [simp]: "map_err g r = Inr a \<longleftrightarrow> r = Inr a"
  by (cases r) auto

lemma map_err_eq_Inl [simp]: "map_err g r = Inl f \<longleftrightarrow> (\<exists>e. r = Inl e \<and> f = g e)"
  by (cases r) auto

lemma ensure_eq_Inr [simp]: "ensure b e = Inr u \<longleftrightarrow> b"
  by (simp add: ensure_def)

lemma ensure_eq_Inl [simp]: "ensure b e = Inl e' \<longleftrightarrow> \<not> b \<and> e' = e"
  by (auto simp: ensure_def)

lemma transpose_map_eq_Inr:
  "transpose_map f x = Inr y \<longleftrightarrow>
     (case x of None \<Rightarrow> y = None | Some a \<Rightarrow> (\<exists>b. f a = Inr b \<and> y = Some b))"
  by (cases x) auto

lemma collect_eq_Inr:
  "collect f xs = Inr ys \<longleftrightarrow> list_all2 (\<lambda>x y. f x = Inr y) xs ys"
  by (induction xs arbitrary: ys) (auto simp: list_all2_Cons1)

lemma collect_all_ok:
  "(\<And>x. x \<in> set xs \<Longrightarrow> f x = Inr (g x)) \<Longrightarrow> collect f xs = Inr (map g xs)"
  by (induction xs) auto

lemma collect_length: "collect f xs = Inr ys \<Longrightarrow> length ys = length xs"
  by (auto simp: collect_eq_Inr dest: list_all2_lengthD)

text \<open>\<open>slice.windows(2).any(p)\<close> and its meaning for a transitive order.\<close>

fun windows2_any :: "('a \<Rightarrow> 'a \<Rightarrow> bool) \<Rightarrow> 'a list \<Rightarrow> bool" where
  "windows2_any p (x # y # ys) = (p x y \<or> windows2_any p (y # ys))"
| "windows2_any p _ = False"

lemma windows2_any_sorted_wrt:
  assumes "transp r"
  shows "\<not> windows2_any (\<lambda>x y. \<not> r x y) xs \<longleftrightarrow> sorted_wrt r xs"
proof (induction xs rule: induct_list012)
  case (3 x y zs)
  then show ?case using assms by (auto dest: transpD)
qed auto

section \<open>Checked and saturating arithmetic\<close>

definition checked_add_u64 :: "u64 \<Rightarrow> u64 \<Rightarrow> u64 option" where
  "checked_add_u64 a b = (if unat a + unat b < 2 ^ 64 then Some (a + b) else None)"

definition saturating_add_u64 :: "u64 \<Rightarrow> u64 \<Rightarrow> u64" where
  "saturating_add_u64 a b = (if unat a + unat b < 2 ^ 64 then a + b else 18446744073709551615)"

text \<open>\<open>usize\<close> is 64 bits wide on every target the relay is built for.\<close>

definition checked_add_usize :: "usize \<Rightarrow> usize \<Rightarrow> usize option" where
  "checked_add_usize a b = (if a + b < 2 ^ 64 then Some (a + b) else None)"

lemma unat_u32_less: "unat (x :: u32) < 2 ^ 32"
  using unsigned_less [of x] by simp

lemma unat_u64_less: "unat (x :: u64) < 2 ^ 64"
  using unsigned_less [of x] by simp

lemma checked_add_u64_Some:
  "checked_add_u64 a b = Some c \<longleftrightarrow> unat a + unat b < 2 ^ 64 \<and> unat c = unat a + unat b"
  by (auto simp: checked_add_u64_def unat_word_ariths word_unat_eq_iff)

lemma checked_add_usize_Some [simp]:
  "checked_add_usize a b = Some c \<longleftrightarrow> a + b < 2 ^ 64 \<and> c = a + b"
  by (auto simp: checked_add_usize_def)

lemma unat_saturating_add_u64:
  "unat (saturating_add_u64 a b) = min (unat a + unat b) (2 ^ 64 - 1)"
  by (simp add: saturating_add_u64_def unat_word_ariths)

section \<open>Transactions\<close>

text \<open>
  A transaction body returns \<open>Inl e\<close> when the function returns early (the transaction
  is dropped, so every write is rolled back) and \<open>Inr (r, s')\<close> when it commits the
  state \<open>s'\<close> and returns \<open>r\<close>, which may itself be an error.
\<close>

definition transact :: "('s \<Rightarrow> 'e + (('e + 'a) \<times> 's)) \<Rightarrow> 's \<Rightarrow> ('e + 'a) \<times> 's" where
  "transact body s = (case body s of Inl e \<Rightarrow> (Inl e, s) | Inr (r, s') \<Rightarrow> (r, s'))"

lemma transact_Inl [simp]: "body s = Inl e \<Longrightarrow> transact body s = (Inl e, s)"
  by (simp add: transact_def)

lemma transact_Inr [simp]: "body s = Inr (r, s') \<Longrightarrow> transact body s = (r, s')"
  by (simp add: transact_def)

lemma transact_inv:
  assumes "P s" and "\<And>r s'. body s = Inr (r, s') \<Longrightarrow> P s'"
  shows "P (snd (transact body s))"
  using assms by (auto simp: transact_def split: sum.splits prod.splits)

lemma transact_eq_Inr:
  assumes "transact body s = (Inr a, s')"
  shows "body s = Inr (Inr a, s')"
  using assms by (auto simp: transact_def split: sum.splits prod.splits)

text \<open>
  Outside a transaction: \<open>r?\<close> followed by an operation on the state, and an operation
  on one component of a larger state.
\<close>

definition try_then :: "'e + 'a \<Rightarrow> ('a \<Rightarrow> 's \<Rightarrow> ('e + 'b) \<times> 's) \<Rightarrow> 's \<Rightarrow> ('e + 'b) \<times> 's" where
  "try_then r k s = (case r of Inl e \<Rightarrow> (Inl e, s) | Inr a \<Rightarrow> k a s)"

definition on_part :: "('s \<Rightarrow> 'c) \<Rightarrow> ('c \<Rightarrow> 's \<Rightarrow> 's) \<Rightarrow> ('c \<Rightarrow> 'r \<times> 'c) \<Rightarrow> 's \<Rightarrow> 'r \<times> 's" where
  "on_part get put f s = (case f (get s) of (r, c) \<Rightarrow> (r, put c s))"

lemma try_then_simps [simp]:
  "try_then (Inl e) k s = (Inl e, s)" "try_then (Inr a) k s = k a s"
  by (simp_all add: try_then_def)

lemma on_part_simps [simp]:
  "fst (on_part get put f s) = fst (f (get s))" "snd (on_part get put f s) = put (snd (f (get s))) s"
  by (simp_all add: on_part_def split_beta)

section \<open>Stores: a step function, its invariant and its order\<close>

fun run_ops :: "('op \<Rightarrow> 's \<Rightarrow> 'r \<times> 's) \<Rightarrow> 'op list \<Rightarrow> 's \<Rightarrow> 's" where
  "run_ops step [] s = s"
| "run_ops step (op # ops) s = run_ops step ops (snd (step op s))"

lemma run_ops_append [simp]:
  "run_ops step (xs @ ys) s = run_ops step ys (run_ops step xs s)"
  by (induction xs arbitrary: s) auto

locale durable_store =
  fixes step :: "'op \<Rightarrow> 's \<Rightarrow> 'r \<times> 's"
    and invar :: "'s \<Rightarrow> bool"
  assumes step_invar: "invar s \<Longrightarrow> invar (snd (step op s))"
begin

lemma run_invar: "invar s \<Longrightarrow> invar (run_ops step ops s)"
  by (induction ops arbitrary: s) (auto intro: step_invar)

end

text \<open>A store whose states only move up in a preorder, such as the order of cursors.\<close>

locale monotone_store = durable_store step invar
  for step :: "'op \<Rightarrow> 's \<Rightarrow> 'r \<times> 's" and invar :: "'s \<Rightarrow> bool" +
  fixes le :: "'s \<Rightarrow> 's \<Rightarrow> bool"
  assumes le_refl: "le s s"
    and le_trans: "le s t \<Longrightarrow> le t u \<Longrightarrow> le s u"
    and step_le: "invar s \<Longrightarrow> le s (snd (step op s))"
begin

lemma run_le: "invar s \<Longrightarrow> le s (run_ops step ops s)"
proof (induction ops arbitrary: s)
  case Nil
  then show ?case by (simp add: le_refl)
next
  case (Cons op ops)
  let ?t = "snd (step op s)"
  have "le s ?t" using Cons.prems by (rule step_le)
  moreover have "le ?t (run_ops step ops ?t)"
    using Cons.prems by (intro Cons.IH step_invar)
  ultimately show ?case by (auto intro: le_trans)
qed

end

end
