(* ===== verification/Domain_Core.thy ===== *)
theory Domain_Core
  imports Konclave_Prelude
begin

text \<open>
  \<open>crates/Konclave.DomainCore\<close>: the validation errors, the fixed-size identifiers, the
  protocol version, the relay envelope, replay and acknowledgment contracts of
  \<open>model.rs\<close>, and the constructors that are the only way to obtain them. Each
  constructor comes with the predicate it establishes.
\<close>

section \<open>Errors\<close>

datatype request_service_error =
    IdenticalEndpoints | ConversationMismatch | InvalidOperator | InvalidRequester
  | ForeignMember | SenderNotMember | OperatorCannotRequest | InvalidTarget
  | UnsolicitedText | RequesterCannotReply | MissingRequest | InvalidReply
  | UnsupportedOperation | ReplyAlreadyCompleted

datatype request_delivery_error =
    InvalidReceipt | InvalidExpiry | UnknownOutcome | ConflictingOutcome

datatype konclave_domain_error =
    InvalidLength string nat nat
  | InvalidProtocolMajor
  | ZeroValue string
  | OutOfRange string nat nat nat
  | EmptyText string
  | TextTooLong string nat nat
  | NonCanonicalText string
  | DuplicateIdentifier string
  | MismatchedInvitedDevice
  | MismatchedInvitedConversation
  | RequestServiceInvitationMismatch
  | RequestService request_service_error
  | RequestDelivery request_delivery_error
  | MemberJoinedAfterStateEpoch u64 u64
  | MissingAdministrator
  | MembershipVersionMismatch
  | MembershipConversationMismatch
  | StaleMembershipEpoch
  | InvalidMembershipEpochAdvance
  | UnauthorizedMembershipChange
  | MemberAlreadyExists
  | MemberNotFound
  | InvitationAlreadyConsumed
  | InvalidExpectedParentEpoch string
  | InvalidReplayOrder
  | InvalidPairingEnvelope string
  | ShortCodePairingExpired
  | InvalidShortCodePairingTransition
  | TrustedDeviceAliasConflict
  | TrustedDeviceRootMismatch
  | TrustedDeviceRemoved
  | TrustedDeviceRepeatPairingUnsupported

section \<open>Fixed-size identifiers\<close>

text \<open>
  The macro \<open>define_fixed_bytes!\<close> wraps \<open>[u8; N]\<close>. The model wraps a byte list; the
  length is what \<open>from_slice\<close> checks and what the type of \<open>from_bytes\<close> guarantees.
\<close>

definition from_slice ::
    "nat \<Rightarrow> string \<Rightarrow> (bytes \<Rightarrow> 'id) \<Rightarrow> bytes \<Rightarrow> konclave_domain_error + 'id" where
  "from_slice n field mk value =
     (if length value = n then Inr (mk value)
      else Inl (InvalidLength field n (length value)))"

datatype device_id = DeviceId (device_id_bytes: bytes)
datatype conversation_id = ConversationId (conversation_id_bytes: bytes)
datatype message_id = MessageId (message_id_bytes: bytes)
datatype envelope_id = EnvelopeId (envelope_id_bytes: bytes)
datatype routing_id = RoutingId (routing_id_bytes: bytes)
datatype invitation_id = InvitationId (invitation_id_bytes: bytes)
datatype membership_operation_id = MembershipOperationId (membership_operation_id_bytes: bytes)
datatype credential_binding_hash = CredentialBindingHash (credential_binding_hash_bytes: bytes)
datatype pairing_rendezvous_id = PairingRendezvousId (pairing_rendezvous_id_bytes: bytes)
datatype pairing_rendezvous_nonce = PairingRendezvousNonce (pairing_rendezvous_nonce_bytes: bytes)
datatype short_code_pairing_attempt_id =
  ShortCodePairingAttemptId (attempt_id_bytes: bytes)
datatype short_code_capability_take_id =
  ShortCodeCapabilityTakeId (take_id_bytes: bytes)
datatype short_code_pairing_locator =
  ShortCodePairingLocator (locator_bytes: bytes)

definition RoutingId_from_slice :: "bytes \<Rightarrow> konclave_domain_error + routing_id" where
  "RoutingId_from_slice = from_slice 32 ''routing_id'' RoutingId"

definition EnvelopeId_from_slice :: "bytes \<Rightarrow> konclave_domain_error + envelope_id" where
  "EnvelopeId_from_slice = from_slice 16 ''envelope_id'' EnvelopeId"

definition PairingRendezvousId_from_slice ::
    "bytes \<Rightarrow> konclave_domain_error + pairing_rendezvous_id" where
  "PairingRendezvousId_from_slice =
     from_slice 32 ''pairing_rendezvous_id'' PairingRendezvousId"

definition PairingRendezvousNonce_from_slice ::
    "bytes \<Rightarrow> konclave_domain_error + pairing_rendezvous_nonce" where
  "PairingRendezvousNonce_from_slice =
     from_slice 12 ''pairing_rendezvous_nonce'' PairingRendezvousNonce"

definition ShortCodePairingAttemptId_from_slice ::
    "bytes \<Rightarrow> konclave_domain_error + short_code_pairing_attempt_id" where
  "ShortCodePairingAttemptId_from_slice =
     from_slice 16 ''short_code_pairing_attempt_id'' ShortCodePairingAttemptId"

definition ShortCodeCapabilityTakeId_from_slice ::
    "bytes \<Rightarrow> konclave_domain_error + short_code_capability_take_id" where
  "ShortCodeCapabilityTakeId_from_slice =
     from_slice 16 ''short_code_capability_take_id'' ShortCodeCapabilityTakeId"

definition ShortCodePairingLocator_from_slice ::
    "bytes \<Rightarrow> konclave_domain_error + short_code_pairing_locator" where
  "ShortCodePairingLocator_from_slice =
     from_slice 32 ''short_code_pairing_locator'' ShortCodePairingLocator"

lemma from_slice_eq_Inr [simp]:
  "from_slice n field mk value = Inr i \<longleftrightarrow> length value = n \<and> i = mk value"
  by (auto simp: from_slice_def)

lemma from_slice_ok: "length value = n \<Longrightarrow> from_slice n field mk value = Inr (mk value)"
  by simp

lemmas id_from_slice_defs =
  RoutingId_from_slice_def EnvelopeId_from_slice_def
  PairingRendezvousId_from_slice_def PairingRendezvousNonce_from_slice_def
  ShortCodePairingAttemptId_from_slice_def ShortCodeCapabilityTakeId_from_slice_def
  ShortCodePairingLocator_from_slice_def

section \<open>Protocol version and bounds\<close>

definition APPLICATION_PROTOCOL_MAJOR :: u32 where "APPLICATION_PROTOCOL_MAJOR = 1"
definition APPLICATION_PROTOCOL_MINOR :: u32 where "APPLICATION_PROTOCOL_MINOR = 0"
definition MAX_RELAY_ENVELOPE_BYTES :: usize where "MAX_RELAY_ENVELOPE_BYTES = 1024 * 1024"
definition MAX_RELAY_PAYLOAD_BYTES :: usize where
  "MAX_RELAY_PAYLOAD_BYTES = MAX_RELAY_ENVELOPE_BYTES - 1024"
definition MAX_REPLAY_PAGE_SIZE :: usize where "MAX_REPLAY_PAGE_SIZE = 100"
definition MAX_REPLAY_PAGE_BYTES :: usize where "MAX_REPLAY_PAGE_BYTES = 16 * 1024 * 1024"
definition MAX_RELAY_CONTROL_MESSAGE_BYTES :: usize where
  "MAX_RELAY_CONTROL_MESSAGE_BYTES = 1024"
definition MAX_PROTOBUF_TOP_LEVEL_FIELDS :: usize where "MAX_PROTOBUF_TOP_LEVEL_FIELDS = 4096"
definition MAX_MEMBERS :: usize where "MAX_MEMBERS = 128"
definition MAX_CONSUMED_INVITATIONS :: usize where "MAX_CONSUMED_INVITATIONS = 1024"

lemmas domain_bounds =
  MAX_RELAY_ENVELOPE_BYTES_def MAX_RELAY_PAYLOAD_BYTES_def MAX_REPLAY_PAGE_SIZE_def
  MAX_REPLAY_PAGE_BYTES_def MAX_RELAY_CONTROL_MESSAGE_BYTES_def
  MAX_PROTOBUF_TOP_LEVEL_FIELDS_def MAX_MEMBERS_def MAX_CONSUMED_INVITATIONS_def

record protocol_version =
  major :: u32
  minor :: u32

definition ProtocolVersion_new :: "u32 \<Rightarrow> u32 \<Rightarrow> konclave_domain_error + protocol_version" where
  "ProtocolVersion_new ma mi =
     (if ma = 0 then Inl InvalidProtocolMajor else Inr \<lparr>major = ma, minor = mi\<rparr>)"

definition application_v1 :: protocol_version where
  "application_v1 = \<lparr>major = APPLICATION_PROTOCOL_MAJOR, minor = APPLICATION_PROTOCOL_MINOR\<rparr>"

lemma ProtocolVersion_new_eq_Inr [simp]:
  "ProtocolVersion_new ma mi = Inr v \<longleftrightarrow> ma \<noteq> 0 \<and> v = \<lparr>major = ma, minor = mi\<rparr>"
  by (auto simp: ProtocolVersion_new_def)

lemma ProtocolVersion_new_fields:
  "major v \<noteq> 0 \<Longrightarrow> ProtocolVersion_new (major v) (minor v) = Inr v"
  by simp

section \<open>Shared validation\<close>

definition require_positive :: "u64 \<Rightarrow> string \<Rightarrow> konclave_domain_error + unit" where
  "require_positive value field = (if value = 0 then Inl (ZeroValue field) else Inr ())"

definition require_length_range ::
    "usize \<Rightarrow> usize \<Rightarrow> usize \<Rightarrow> string \<Rightarrow> konclave_domain_error + unit" where
  "require_length_range actual minimum maximum field =
     (if actual < minimum \<or> actual > maximum
      then Inl (OutOfRange field minimum maximum actual) else Inr ())"

text \<open>The loop over a \<open>BTreeSet\<close>: \<open>insert\<close> returns false for a value already seen.\<close>

fun require_unique_from ::
    "'a set \<Rightarrow> 'a list \<Rightarrow> string \<Rightarrow> konclave_domain_error + unit" where
  "require_unique_from seen [] field = Inr ()"
| "require_unique_from seen (v # vs) field =
     (if v \<in> seen then Inl (DuplicateIdentifier field)
      else require_unique_from (insert v seen) vs field)"

definition require_unique :: "'a list \<Rightarrow> string \<Rightarrow> konclave_domain_error + unit" where
  "require_unique values field = require_unique_from {} values field"

lemma require_positive_eq_Inr [simp]: "require_positive v f = Inr u \<longleftrightarrow> v \<noteq> 0"
  by (simp add: require_positive_def)

lemma require_length_range_eq_Inr [simp]:
  "require_length_range n lo hi f = Inr u \<longleftrightarrow> lo \<le> n \<and> n \<le> hi"
  by (auto simp: require_length_range_def)

lemma require_unique_from_eq_Inr:
  "require_unique_from seen vs f = Inr u \<longleftrightarrow> distinct vs \<and> set vs \<inter> seen = {}"
  by (induction vs arbitrary: seen) auto

lemma require_unique_eq_Inr [simp]: "require_unique vs f = Inr u \<longleftrightarrow> distinct vs"
  by (simp add: require_unique_def require_unique_from_eq_Inr)

lemma require_unique_from_eq_Inl:
  "require_unique_from seen vs f = Inl e \<longleftrightarrow>
     \<not> (distinct vs \<and> set vs \<inter> seen = {}) \<and> e = DuplicateIdentifier f"
  by (induction vs arbitrary: seen) auto

lemma require_unique_eq_Inl [simp]:
  "require_unique vs f = Inl e \<longleftrightarrow> \<not> distinct vs \<and> e = DuplicateIdentifier f"
  by (simp add: require_unique_def require_unique_from_eq_Inl)

section \<open>Relay envelopes\<close>

datatype delivery_class =
  KeyPackage | Welcome | GroupProposal | GroupCommit | GroupApplication | Pairing

fun DeliveryClass_as_str :: "delivery_class \<Rightarrow> string" where
  "DeliveryClass_as_str KeyPackage = ''key_package''"
| "DeliveryClass_as_str Welcome = ''welcome''"
| "DeliveryClass_as_str GroupProposal = ''group_proposal''"
| "DeliveryClass_as_str GroupCommit = ''group_commit''"
| "DeliveryClass_as_str GroupApplication = ''group_application''"
| "DeliveryClass_as_str Pairing = ''pairing''"

fun requires_parent_epoch :: "delivery_class \<Rightarrow> bool" where
  "requires_parent_epoch GroupProposal = True"
| "requires_parent_epoch GroupCommit = True"
| "requires_parent_epoch _ = False"

record relay_envelope =
  env_version :: protocol_version
  env_routing_id :: routing_id
  env_envelope_id :: envelope_id
  env_delivery_class :: delivery_class
  env_expected_parent_epoch :: "u64 option"
  env_expires_at_unix_seconds :: u64
  env_payload :: bytes

definition RelayEnvelope_new ::
    "protocol_version \<Rightarrow> routing_id \<Rightarrow> envelope_id \<Rightarrow> delivery_class \<Rightarrow> u64 option \<Rightarrow> u64 \<Rightarrow>
     bytes \<Rightarrow> konclave_domain_error + relay_envelope" where
  "RelayEnvelope_new version routing_id envelope_id delivery_class expected_parent_epoch
       expires_at_unix_seconds payload =
     and_then (require_length_range (length payload) 1 MAX_RELAY_PAYLOAD_BYTES ''relay_payload'')
       (\<lambda>_. and_then (require_positive expires_at_unix_seconds ''expires_at_unix_seconds'')
       (\<lambda>_. if requires_parent_epoch delivery_class \<noteq> (expected_parent_epoch \<noteq> None)
            then Inl (InvalidExpectedParentEpoch (DeliveryClass_as_str delivery_class))
            else Inr \<lparr>env_version = version, env_routing_id = routing_id,
                      env_envelope_id = envelope_id, env_delivery_class = delivery_class,
                      env_expected_parent_epoch = expected_parent_epoch,
                      env_expires_at_unix_seconds = expires_at_unix_seconds,
                      env_payload = payload\<rparr>))"

text \<open>What a validated envelope satisfies, the lengths of its array-typed fields included.\<close>

definition relay_envelope_ok :: "relay_envelope \<Rightarrow> bool" where
  "relay_envelope_ok e \<longleftrightarrow>
     major (env_version e) \<noteq> 0 \<and>
     length (routing_id_bytes (env_routing_id e)) = 32 \<and>
     length (envelope_id_bytes (env_envelope_id e)) = 16 \<and>
     requires_parent_epoch (env_delivery_class e) = (env_expected_parent_epoch e \<noteq> None) \<and>
     env_expires_at_unix_seconds e \<noteq> 0 \<and>
     1 \<le> length (env_payload e) \<and> length (env_payload e) \<le> MAX_RELAY_PAYLOAD_BYTES"

lemma RelayEnvelope_new_ok:
  assumes "RelayEnvelope_new v r i c p x b = Inr e"
    and "major v \<noteq> 0" "length (routing_id_bytes r) = 32" "length (envelope_id_bytes i) = 16"
  shows "relay_envelope_ok e"
  using assms by (auto simp: RelayEnvelope_new_def relay_envelope_ok_def split: if_splits)

lemma RelayEnvelope_new_complete:
  assumes "relay_envelope_ok e"
  shows "RelayEnvelope_new (env_version e) (env_routing_id e) (env_envelope_id e)
           (env_delivery_class e) (env_expected_parent_epoch e)
           (env_expires_at_unix_seconds e) (env_payload e) = Inr e"
  using assms by (simp add: RelayEnvelope_new_def relay_envelope_ok_def)

section \<open>Stored envelopes, replay and acknowledgment\<close>

record stored_relay_envelope =
  stored_envelope :: relay_envelope
  stored_cursor :: u64

definition StoredRelayEnvelope_new ::
    "relay_envelope \<Rightarrow> u64 \<Rightarrow> konclave_domain_error + stored_relay_envelope" where
  "StoredRelayEnvelope_new envelope cursor =
     and_then (require_positive cursor ''cursor'')
       (\<lambda>_. Inr \<lparr>stored_envelope = envelope, stored_cursor = cursor\<rparr>)"

record replay_request =
  rr_routing_id :: routing_id
  rr_after_cursor :: u64
  rr_limit :: u32

definition ReplayRequest_new ::
    "routing_id \<Rightarrow> u64 \<Rightarrow> u32 \<Rightarrow> konclave_domain_error + replay_request" where
  "ReplayRequest_new routing_id after_cursor limit =
     and_then (require_length_range (unat limit) 1 MAX_REPLAY_PAGE_SIZE ''replay_limit'')
       (\<lambda>_. Inr \<lparr>rr_routing_id = routing_id, rr_after_cursor = after_cursor, rr_limit = limit\<rparr>)"

record replay_page =
  page_envelopes :: "stored_relay_envelope list"
  page_next_cursor :: u64
  page_has_more :: bool

definition ReplayPage_new ::
    "stored_relay_envelope list \<Rightarrow> u64 \<Rightarrow> bool \<Rightarrow> konclave_domain_error + replay_page" where
  "ReplayPage_new envelopes next_cursor has_more =
     and_then (require_length_range (length envelopes) 0 MAX_REPLAY_PAGE_SIZE ''replay_envelopes'')
       (\<lambda>_. if windows2_any (\<lambda>a b. stored_cursor a \<ge> stored_cursor b) envelopes \<or>
               (envelopes \<noteq> [] \<and> next_cursor < stored_cursor (last envelopes))
            then Inl InvalidReplayOrder
            else Inr \<lparr>page_envelopes = envelopes, page_next_cursor = next_cursor,
                      page_has_more = has_more\<rparr>)"

record acknowledge_request =
  ack_routing_id :: routing_id
  ack_cursor :: u64

definition AcknowledgeRequest_new ::
    "routing_id \<Rightarrow> u64 \<Rightarrow> konclave_domain_error + acknowledge_request" where
  "AcknowledgeRequest_new routing_id cursor =
     and_then (require_positive cursor ''cursor'')
       (\<lambda>_. Inr \<lparr>ack_routing_id = routing_id, ack_cursor = cursor\<rparr>)"

lemma StoredRelayEnvelope_new_eq_Inr [simp]:
  "StoredRelayEnvelope_new e c = Inr s \<longleftrightarrow>
     c \<noteq> 0 \<and> s = \<lparr>stored_envelope = e, stored_cursor = c\<rparr>"
  by (auto simp: StoredRelayEnvelope_new_def)

lemma ReplayRequest_new_eq_Inr:
  "ReplayRequest_new r c l = Inr q \<longleftrightarrow>
     1 \<le> unat l \<and> unat l \<le> 100 \<and> q = \<lparr>rr_routing_id = r, rr_after_cursor = c, rr_limit = l\<rparr>"
  by (auto simp: ReplayRequest_new_def domain_bounds)

lemma strictly_increasing_windows:
  "\<not> windows2_any (\<lambda>a b. stored_cursor a \<ge> stored_cursor b) xs \<longleftrightarrow>
     sorted_wrt (<) (map stored_cursor xs)"
proof -
  have "transp (\<lambda>a b. stored_cursor a < stored_cursor b)"
    by (auto intro: transpI)
  then show ?thesis
    using windows2_any_sorted_wrt [of "\<lambda>a b. stored_cursor a < stored_cursor b" xs]
    by (simp add: sorted_wrt_map not_less)
qed

lemma ReplayPage_new_eq_Inr:
  "ReplayPage_new es n m = Inr p \<longleftrightarrow>
     length es \<le> 100 \<and> sorted_wrt (<) (map stored_cursor es) \<and>
     (es \<noteq> [] \<longrightarrow> stored_cursor (last es) \<le> n) \<and>
     p = \<lparr>page_envelopes = es, page_next_cursor = n, page_has_more = m\<rparr>"
  unfolding ReplayPage_new_def
  using strictly_increasing_windows [of es]
  by (auto simp: domain_bounds not_less)

end
