(* ===== verification/Domain_Membership.thy ===== *)
theory Domain_Membership
  imports Domain_Core
begin

text \<open>
  Conversation membership (\<open>model.rs\<close>: \<open>Member\<close>, \<open>ConversationState\<close>,
  \<open>MembershipAuthorization\<close>) and the request-service channel contract
  (\<open>request_service.rs\<close>). \<open>apply_membership_authorization\<close> is the only way a state
  moves to the next epoch; the lemmas show what every such move keeps.
\<close>

section \<open>Data\<close>

datatype conversation_role = Administrator | Member

record member =
  mem_device_id :: device_id
  mem_role :: conversation_role
  mem_joined_epoch :: u64

record request_service_channel =
  ch_conversation_id :: conversation_id
  ch_operator_device_id :: device_id
  ch_requester_device_id :: device_id

record conversation_state =
  cs_version :: protocol_version
  cs_conversation_id :: conversation_id
  cs_epoch :: u64
  cs_members :: "member list"
  cs_consumed_invitation_ids :: "invitation_id list"
  cs_request_service :: "request_service_channel option"

record add_member =
  add_device_id :: device_id
  add_role :: conversation_role
  add_invitation_id :: invitation_id
  add_credential_binding_hash :: credential_binding_hash

datatype membership_change =
    Add add_member
  | Remove device_id
  | ChangeRole device_id conversation_role

record membership_authorization =
  ma_version :: protocol_version
  ma_conversation_id :: conversation_id
  ma_parent_epoch :: u64
  ma_operation_id :: membership_operation_id
  ma_change :: membership_change

section \<open>The request-service channel\<close>

definition RequestServiceChannel_new ::
    "conversation_id \<Rightarrow> device_id \<Rightarrow> device_id \<Rightarrow>
     request_service_error + request_service_channel" where
  "RequestServiceChannel_new conversation_id operator_device_id requester_device_id =
     (if operator_device_id = requester_device_id then Inl IdenticalEndpoints
      else Inr \<lparr>ch_conversation_id = conversation_id,
                ch_operator_device_id = operator_device_id,
                ch_requester_device_id = requester_device_id\<rparr>)"

text \<open>\<open>ConversationState::member\<close>: the first member with the device.\<close>

definition find_member :: "member list \<Rightarrow> device_id \<Rightarrow> member option" where
  "find_member members device_id = List.find (\<lambda>m. mem_device_id m = device_id) members"

fun validate_channel_members ::
    "request_service_channel \<Rightarrow> member list \<Rightarrow> request_service_error + unit" where
  "validate_channel_members ch [] = Inr ()"
| "validate_channel_members ch (m # ms) =
     (if mem_device_id m = ch_operator_device_id ch then validate_channel_members ch ms
      else if mem_device_id m \<noteq> ch_requester_device_id ch then Inl ForeignMember
      else if mem_role m \<noteq> Member then Inl InvalidRequester
      else validate_channel_members ch ms)"

definition validate_membership ::
    "request_service_channel \<Rightarrow> conversation_state \<Rightarrow> request_service_error + unit" where
  "validate_membership ch state =
     (if cs_conversation_id state \<noteq> ch_conversation_id ch then Inl ConversationMismatch
      else if map_option mem_role (find_member (cs_members state) (ch_operator_device_id ch))
                \<noteq> Some Administrator then Inl InvalidOperator
      else validate_channel_members ch (cs_members state))"

section \<open>Snapshots\<close>

definition ConversationState_new_with_request_service ::
    "protocol_version \<Rightarrow> conversation_id \<Rightarrow> u64 \<Rightarrow> member list \<Rightarrow> invitation_id list \<Rightarrow>
     request_service_channel option \<Rightarrow> konclave_domain_error + conversation_state" where
  "ConversationState_new_with_request_service version conversation_id epoch members
       consumed_invitation_ids request_service =
     and_then (require_length_range (length members) 1 MAX_MEMBERS ''members'')
     (\<lambda>_. and_then (require_length_range (length consumed_invitation_ids) 0
              MAX_CONSUMED_INVITATIONS ''consumed_invitation_ids'')
     (\<lambda>_. and_then (require_unique (map mem_device_id members) ''member_device_id'')
     (\<lambda>_. and_then (require_unique consumed_invitation_ids ''consumed_invitation_id'')
     (\<lambda>_. case List.find (\<lambda>m. mem_joined_epoch m > epoch) members of
            Some m \<Rightarrow> Inl (MemberJoinedAfterStateEpoch (mem_joined_epoch m) epoch)
          | None \<Rightarrow>
            if \<not> list_ex (\<lambda>m. mem_role m = Administrator) members
            then Inl MissingAdministrator
            else let state = \<lparr>cs_version = version, cs_conversation_id = conversation_id,
                     cs_epoch = epoch, cs_members = members,
                     cs_consumed_invitation_ids = consumed_invitation_ids,
                     cs_request_service = request_service\<rparr>
                 in case request_service of
                      None \<Rightarrow> Inr state
                    | Some channel \<Rightarrow>
                        if version \<noteq> application_v1 then Inl MembershipVersionMismatch
                        else and_then (map_err RequestService (validate_membership channel state))
                               (\<lambda>_. Inr state)))))"

definition ConversationState_new ::
    "protocol_version \<Rightarrow> conversation_id \<Rightarrow> u64 \<Rightarrow> member list \<Rightarrow> invitation_id list \<Rightarrow>
     konclave_domain_error + conversation_state" where
  "ConversationState_new version conversation_id epoch members consumed_invitation_ids =
     ConversationState_new_with_request_service version conversation_id epoch members
       consumed_invitation_ids None"

definition state_member :: "conversation_state \<Rightarrow> device_id \<Rightarrow> member option" where
  "state_member state device_id = find_member (cs_members state) device_id"

section \<open>Applying one authorization\<close>

definition admin_count :: "member list \<Rightarrow> nat" where
  "admin_count members = length (filter (\<lambda>m. mem_role m = Administrator) members)"

text \<open>\<open>Vec::remove\<close> at the first position of the device.\<close>

fun remove_first_member :: "device_id \<Rightarrow> member list \<Rightarrow> member list" where
  "remove_first_member d [] = []"
| "remove_first_member d (m # ms) =
     (if mem_device_id m = d then ms else m # remove_first_member d ms)"

text \<open>\<open>iter_mut().find\<close> and the assignment to the role of the member found.\<close>

fun set_first_role :: "device_id \<Rightarrow> conversation_role \<Rightarrow> member list \<Rightarrow> member list" where
  "set_first_role d r [] = []"
| "set_first_role d r (m # ms) =
     (if mem_device_id m = d then m\<lparr>mem_role := r\<rparr> # ms else m # set_first_role d r ms)"

definition apply_change ::
    "conversation_state \<Rightarrow> u64 \<Rightarrow> membership_change \<Rightarrow>
     konclave_domain_error + (member list \<times> invitation_id list)" where
  "apply_change state new_epoch change =
     (let members = cs_members state; consumed = cs_consumed_invitation_ids state in
      case change of
        Add a \<Rightarrow>
          if state_member state (add_device_id a) \<noteq> None then Inl MemberAlreadyExists
          else if add_invitation_id a \<in> set consumed then Inl InvitationAlreadyConsumed
          else Inr (members @ [\<lparr>mem_device_id = add_device_id a, mem_role = add_role a,
                                 mem_joined_epoch = new_epoch\<rparr>],
                    consumed @ [add_invitation_id a])
      | Remove d \<Rightarrow>
          (case find_member members d of
             None \<Rightarrow> Inl MemberNotFound
           | Some m \<Rightarrow>
               if mem_role m = Administrator \<and> admin_count members = 1
               then Inl MissingAdministrator
               else Inr (remove_first_member d members, consumed))
      | ChangeRole d r \<Rightarrow>
          (case find_member members d of
             None \<Rightarrow> Inl MemberNotFound
           | Some m \<Rightarrow>
               if mem_role m = Administrator \<and> r \<noteq> Administrator \<and> admin_count members = 1
               then Inl MissingAdministrator
               else Inr (set_first_role d r members, consumed)))"

definition apply_membership_authorization ::
    "conversation_state \<Rightarrow> device_id \<Rightarrow> membership_authorization \<Rightarrow> u64 \<Rightarrow>
     konclave_domain_error + conversation_state" where
  "apply_membership_authorization state authenticated_sender authorization new_epoch =
     (if ma_version authorization \<noteq> cs_version state then Inl MembershipVersionMismatch
      else if ma_conversation_id authorization \<noteq> cs_conversation_id state
        then Inl MembershipConversationMismatch
      else if ma_parent_epoch authorization \<noteq> cs_epoch state then Inl StaleMembershipEpoch
      else if checked_add_u64 (cs_epoch state) 1 \<noteq> Some new_epoch
        then Inl InvalidMembershipEpochAdvance
      else if map_option mem_role (state_member state authenticated_sender)
                \<noteq> Some Administrator then Inl UnauthorizedMembershipChange
      else and_then (apply_change state new_epoch (ma_change authorization))
             (\<lambda>(members, consumed).
                ConversationState_new_with_request_service (cs_version state)
                  (cs_conversation_id state) new_epoch members consumed
                  (cs_request_service state)))"

section \<open>The snapshot invariant\<close>

definition channel_ok :: "request_service_channel \<Rightarrow> conversation_state \<Rightarrow> bool" where
  "channel_ok ch s \<longleftrightarrow>
     cs_version s = application_v1 \<and> cs_conversation_id s = ch_conversation_id ch \<and>
     map_option mem_role (find_member (cs_members s) (ch_operator_device_id ch))
       = Some Administrator \<and>
     (\<forall>m \<in> set (cs_members s). mem_device_id m = ch_operator_device_id ch \<or>
        mem_device_id m = ch_requester_device_id ch \<and> mem_role m = Member)"

definition conversation_state_ok :: "conversation_state \<Rightarrow> bool" where
  "conversation_state_ok s \<longleftrightarrow>
     1 \<le> length (cs_members s) \<and> length (cs_members s) \<le> MAX_MEMBERS \<and>
     length (cs_consumed_invitation_ids s) \<le> MAX_CONSUMED_INVITATIONS \<and>
     distinct (map mem_device_id (cs_members s)) \<and>
     distinct (cs_consumed_invitation_ids s) \<and>
     (\<forall>m \<in> set (cs_members s). mem_joined_epoch m \<le> cs_epoch s) \<and>
     (\<exists>m \<in> set (cs_members s). mem_role m = Administrator) \<and>
     (\<forall>ch. cs_request_service s = Some ch \<longrightarrow> channel_ok ch s)"

lemma validate_channel_members_eq_Inr [simp]:
  "validate_channel_members ch ms = Inr u \<longleftrightarrow>
     (\<forall>m \<in> set ms. mem_device_id m = ch_operator_device_id ch \<or>
        mem_device_id m = ch_requester_device_id ch \<and> mem_role m = Member)"
  by (induction ms) auto

lemma find_case:
  "(case List.find P xs of None \<Rightarrow> a | Some x \<Rightarrow> Inl (f x)) = Inr b \<longleftrightarrow>
     (\<forall>x \<in> set xs. \<not> P x) \<and> a = Inr b"
  by (induction xs) auto

lemma ConversationState_new_eq_Inr:
  "ConversationState_new_with_request_service v c e ms ci rs = Inr s \<longleftrightarrow>
     s = \<lparr>cs_version = v, cs_conversation_id = c, cs_epoch = e, cs_members = ms,
          cs_consumed_invitation_ids = ci, cs_request_service = rs\<rparr> \<and>
     conversation_state_ok s"
  unfolding ConversationState_new_with_request_service_def conversation_state_ok_def
  by (auto simp: Let_def find_case list_ex_iff channel_ok_def validate_membership_def
        not_less split: option.splits if_splits)

lemma conversation_state_okD:
  assumes "conversation_state_ok s"
  shows "distinct (map mem_device_id (cs_members s))"
    and "distinct (cs_consumed_invitation_ids s)"
    and "\<exists>m \<in> set (cs_members s). mem_role m = Administrator"
    and "\<forall>m \<in> set (cs_members s). mem_joined_epoch m \<le> cs_epoch s"
  using assms by (auto simp: conversation_state_ok_def)

section \<open>Lookups after a change\<close>

lemma find_member_Some:
  "find_member ms d = Some m \<Longrightarrow> m \<in> set ms \<and> mem_device_id m = d"
  by (auto simp: find_member_def find_Some_iff)

lemma find_member_None: "find_member ms d = None \<longleftrightarrow> d \<notin> mem_device_id ` set ms"
  by (auto simp: find_member_def find_None_iff)

lemma find_member_simps [simp]:
  "find_member [] d = None"
  "find_member (m # ms) d = (if mem_device_id m = d then Some m else find_member ms d)"
  by (auto simp: find_member_def)

lemma find_member_mem:
  "distinct (map mem_device_id ms) \<Longrightarrow> m \<in> set ms \<Longrightarrow> find_member ms (mem_device_id m) = Some m"
  by (induction ms) auto

lemma find_member_append:
  "find_member (ms @ ns) d =
     (case find_member ms d of None \<Rightarrow> find_member ns d | Some m \<Rightarrow> Some m)"
  by (induction ms) auto

lemma find_member_remove:
  assumes "distinct (map mem_device_id ms)"
  shows "find_member (remove_first_member d ms) x = (if x = d then None else find_member ms x)"
  using assms by (induction ms) (auto simp: find_member_None)

lemma find_member_set_role:
  "find_member (set_first_role d r ms) x =
     (if x = d then map_option (mem_role_update (\<lambda>_. r)) (find_member ms d)
      else find_member ms x)"
  by (induction ms) auto

lemma set_remove_first_member: "set (remove_first_member d ms) \<subseteq> set ms"
  by (induction ms) auto

lemma device_ids_remove: "distinct (map mem_device_id ms) \<Longrightarrow>
    distinct (map mem_device_id (remove_first_member d ms))"
  by (induction ms) (auto dest: subsetD [OF set_remove_first_member])

lemma device_ids_set_role [simp]:
  "map mem_device_id (set_first_role d r ms) = map mem_device_id ms"
  by (induction ms) auto

lemma joined_epochs_set_role [simp]:
  "map mem_joined_epoch (set_first_role d r ms) = map mem_joined_epoch ms"
  by (induction ms) auto

lemma length_set_first_role [simp]: "length (set_first_role d r ms) = length ms"
  by (induction ms) auto

lemma length_remove_first_member:
  "find_member ms d = Some m \<Longrightarrow> Suc (length (remove_first_member d ms)) = length ms"
  by (induction ms) (auto split: if_splits)

section \<open>An administrator always remains\<close>

lemma admin_count_pos: "0 < admin_count ms \<longleftrightarrow> (\<exists>m \<in> set ms. mem_role m = Administrator)"
  by (auto simp: admin_count_def length_greater_0_conv filter_empty_conv)

lemma admin_count_simps [simp]:
  "admin_count [] = 0"
  "admin_count (m # ms) = (if mem_role m = Administrator then Suc (admin_count ms) else admin_count ms)"
  by (auto simp: admin_count_def)

lemma admin_count_remove:
  "find_member ms d = Some m \<Longrightarrow>
     admin_count (remove_first_member d ms) =
       admin_count ms - (if mem_role m = Administrator then 1 else 0)"
proof (induction ms)
  case (Cons x xs)
  have "m \<in> set xs" if "mem_device_id x \<noteq> d"
    using Cons.prems that by (auto dest: find_member_Some)
  then have "mem_role m = Administrator \<Longrightarrow> mem_device_id x \<noteq> d \<Longrightarrow> 0 < admin_count xs"
    by (auto simp: admin_count_pos)
  with Cons show ?case by (auto split: if_splits)
qed simp

lemma admin_count_set_role:
  "find_member ms d = Some m \<Longrightarrow>
     admin_count (set_first_role d r ms) + (if mem_role m = Administrator then 1 else 0) =
       admin_count ms + (if r = Administrator then 1 else 0)"
  by (induction ms) (auto split: if_splits)

lemma apply_change_Add:
  "apply_change s e (Add a) = Inr (ms, ci) \<longleftrightarrow>
     state_member s (add_device_id a) = None \<and>
     add_invitation_id a \<notin> set (cs_consumed_invitation_ids s) \<and>
     ms = cs_members s @ [\<lparr>mem_device_id = add_device_id a, mem_role = add_role a,
                           mem_joined_epoch = e\<rparr>] \<and>
     ci = cs_consumed_invitation_ids s @ [add_invitation_id a]"
  by (auto simp: apply_change_def Let_def)

lemma apply_change_Remove:
  "apply_change s e (Remove d) = Inr (ms, ci) \<longleftrightarrow>
     (\<exists>m. find_member (cs_members s) d = Some m \<and>
        \<not> (mem_role m = Administrator \<and> admin_count (cs_members s) = 1)) \<and>
     ms = remove_first_member d (cs_members s) \<and> ci = cs_consumed_invitation_ids s"
  by (auto simp: apply_change_def Let_def split: option.splits)

lemma apply_change_ChangeRole:
  "apply_change s e (ChangeRole d r) = Inr (ms, ci) \<longleftrightarrow>
     (\<exists>m. find_member (cs_members s) d = Some m \<and>
        \<not> (mem_role m = Administrator \<and> r \<noteq> Administrator \<and> admin_count (cs_members s) = 1)) \<and>
     ms = set_first_role d r (cs_members s) \<and> ci = cs_consumed_invitation_ids s"
  by (auto simp: apply_change_def Let_def split: option.splits)

lemmas apply_change_simps = apply_change_Add apply_change_Remove apply_change_ChangeRole

lemma apply_change_keeps_admin:
  assumes "apply_change s e ch = Inr (ms, ci)" and "0 < admin_count (cs_members s)"
  shows "0 < admin_count ms"
proof (cases ch)
  case (Add a)
  with assms show ?thesis
    by (auto simp: apply_change_def Let_def admin_count_pos split: if_splits)
next
  case (Remove d)
  with assms obtain m where m: "find_member (cs_members s) d = Some m"
    and "\<not> (mem_role m = Administrator \<and> admin_count (cs_members s) = 1)"
    and "ms = remove_first_member d (cs_members s)"
    by (auto simp: apply_change_def Let_def split: option.splits if_splits)
  with assms(2) show ?thesis by (auto simp: admin_count_remove [OF m])
next
  case (ChangeRole d r)
  with assms obtain m where m: "find_member (cs_members s) d = Some m"
    and "\<not> (mem_role m = Administrator \<and> r \<noteq> Administrator \<and> admin_count (cs_members s) = 1)"
    and "ms = set_first_role d r (cs_members s)"
    by (auto simp: apply_change_def Let_def split: option.splits if_splits)
  with assms(2) admin_count_set_role [OF m, of r] show ?thesis
    by (auto split: if_splits)
qed

lemma apply_change_device_ids:
  assumes "apply_change s e ch = Inr (ms, ci)" and "conversation_state_ok s"
  shows "distinct (map mem_device_id ms)" and "distinct ci"
    and "\<forall>m \<in> set ms. mem_joined_epoch m \<le> e \<or> m \<in> set (cs_members s) \<or>
           (\<exists>n \<in> set (cs_members s). mem_joined_epoch m = mem_joined_epoch n)"
    and "\<exists>new. ci = cs_consumed_invitation_ids s @ new"
proof -
  note d = conversation_state_okD(1,2) [OF assms(2)]
  have role: "\<exists>n \<in> set xs. mem_joined_epoch m = mem_joined_epoch n"
    if "m \<in> set (set_first_role x r xs)" for m x r xs
    using that by (induction xs) (auto split: if_splits)
  show "distinct (map mem_device_id ms)" "distinct ci"
    "\<forall>m \<in> set ms. mem_joined_epoch m \<le> e \<or> m \<in> set (cs_members s) \<or>
       (\<exists>n \<in> set (cs_members s). mem_joined_epoch m = mem_joined_epoch n)"
    "\<exists>new. ci = cs_consumed_invitation_ids s @ new"
    using assms(1) d role
    by (auto simp: apply_change_def Let_def state_member_def find_member_None device_ids_remove
          split: membership_change.splits option.splits if_splits
          dest: subsetD [OF set_remove_first_member])
qed

section \<open>Runs of authorized changes\<close>

inductive membership_step :: "conversation_state \<Rightarrow> conversation_state \<Rightarrow> bool" where
  authorized: "apply_membership_authorization s sender authorization e = Inr t \<Longrightarrow>
     membership_step s t"

inductive_cases membership_stepE: "membership_step s t"

lemma apply_membership_eq_Inr:
  "apply_membership_authorization s d a e = Inr t \<longleftrightarrow>
     ma_version a = cs_version s \<and> ma_conversation_id a = cs_conversation_id s \<and>
     ma_parent_epoch a = cs_epoch s \<and>
     unat (cs_epoch s) + 1 < 2 ^ 64 \<and> unat e = unat (cs_epoch s) + 1 \<and>
     map_option mem_role (state_member s d) = Some Administrator \<and>
     (\<exists>ms ci. apply_change s e (ma_change a) = Inr (ms, ci) \<and>
        t = \<lparr>cs_version = cs_version s, cs_conversation_id = cs_conversation_id s,
             cs_epoch = e, cs_members = ms, cs_consumed_invitation_ids = ci,
             cs_request_service = cs_request_service s\<rparr> \<and>
        conversation_state_ok t)"
  unfolding apply_membership_authorization_def
  by (auto simp: checked_add_u64_Some ConversationState_new_eq_Inr split: prod.splits)

lemma apply_membershipE:
  assumes "apply_membership_authorization s d a e = Inr t"
  obtains ms ci where "apply_change s e (ma_change a) = Inr (ms, ci)"
    and "cs_members t = ms" and "cs_consumed_invitation_ids t = ci" and "cs_epoch t = e"
    and "cs_version t = cs_version s" and "cs_conversation_id t = cs_conversation_id s"
    and "cs_request_service t = cs_request_service s" and "conversation_state_ok t"
    and "unat e = unat (cs_epoch s) + 1"
    and "map_option mem_role (state_member s d) = Some Administrator"
proof -
  from assms obtain ms ci where
    "apply_change s e (ma_change a) = Inr (ms, ci)"
    "t = \<lparr>cs_version = cs_version s, cs_conversation_id = cs_conversation_id s,
         cs_epoch = e, cs_members = ms, cs_consumed_invitation_ids = ci,
         cs_request_service = cs_request_service s\<rparr>"
    "conversation_state_ok t" "unat e = unat (cs_epoch s) + 1"
    "map_option mem_role (state_member s d) = Some Administrator"
    unfolding apply_membership_eq_Inr by blast
  then show thesis by (intro that [of ms ci]) simp_all
qed

lemma membership_step_keeps:
  assumes "membership_step s t" and "conversation_state_ok s"
  shows "conversation_state_ok t"
    and "cs_version t = cs_version s" and "cs_conversation_id t = cs_conversation_id s"
    and "cs_request_service t = cs_request_service s"
    and "unat (cs_epoch t) = unat (cs_epoch s) + 1"
    and "set (cs_consumed_invitation_ids s) \<subseteq> set (cs_consumed_invitation_ids t)"
proof -
  from assms(1) obtain sender a e where
    "apply_membership_authorization s sender a e = Inr t" by (rule membership_stepE)
  then show
    "conversation_state_ok t" "cs_version t = cs_version s"
    "cs_conversation_id t = cs_conversation_id s" "cs_request_service t = cs_request_service s"
    "unat (cs_epoch t) = unat (cs_epoch s) + 1"
    "set (cs_consumed_invitation_ids s) \<subseteq> set (cs_consumed_invitation_ids t)"
    using apply_change_device_ids(4) [OF _ assms(2)]
    by (auto elim!: apply_membershipE dest!: apply_change_device_ids(4) [OF _ assms(2)])
qed

lemma membership_run_keeps:
  assumes "membership_step\<^sup>*\<^sup>* s t" and "conversation_state_ok s"
  shows "conversation_state_ok t \<and> cs_request_service t = cs_request_service s \<and>
    set (cs_consumed_invitation_ids s) \<subseteq> set (cs_consumed_invitation_ids t)"
  using assms
  by (induction rule: rtranclp_induct) (auto dest: membership_step_keeps)

lemma new_state_refusal:
  assumes "ConversationState_new_with_request_service v c e ms ci rs = Inl err"
    and "distinct (map mem_device_id ms)" "distinct ci" "0 < admin_count ms"
    and "\<forall>m \<in> set ms. mem_joined_epoch m \<le> e"
  shows "err = OutOfRange ''members'' 1 128 (length ms) \<and> 128 < length ms \<or>
    err = OutOfRange ''consumed_invitation_ids'' 0 1024 (length ci) \<and> 1024 < length ci \<or>
    (\<exists>ch. rs = Some ch \<and> (err = MembershipVersionMismatch \<or> (\<exists>x. err = RequestService x)))"
proof -
  have "ms \<noteq> []" using assms(4) by auto
  moreover have "List.find (\<lambda>m. e < mem_joined_epoch m) ms = None"
    using assms(5) by (auto simp: find_None_iff not_less)
  ultimately show ?thesis
    using assms(1-4)
    unfolding ConversationState_new_with_request_service_def
    by (auto simp: Let_def require_length_range_def domain_bounds admin_count_pos list_ex_iff
          Suc_le_eq split: option.splits if_splits)
qed

lemma apply_change_lengths:
  assumes "apply_change s e ch = Inr (ms, ci)"
  shows "length ms \<le> Suc (length (cs_members s))"
    and "length ci \<le> Suc (length (cs_consumed_invitation_ids s))"
proof -
  have "length ms \<le> Suc (length (cs_members s)) \<and>
      length ci \<le> Suc (length (cs_consumed_invitation_ids s))"
    using assms length_remove_first_member [of "cs_members s"]
    by (cases ch) (fastforce simp: apply_change_simps)+
  then show "length ms \<le> Suc (length (cs_members s))"
    "length ci \<le> Suc (length (cs_consumed_invitation_ids s))" by auto
qed

text \<open>
  C7: An accepted membership authorization comes from a current administrator, moves the
  epoch up by exactly one, keeps the version, the conversation and the channel contract,
  only appends to the consumed invitations, and yields a valid snapshot: at most 128
  distinct devices, at least one administrator, no join epoch in the future.
\<close>

theorem membership_apply_sound:
  assumes "conversation_state_ok s"
    and "apply_membership_authorization s sender authorization new_epoch = Inr t"
  shows "conversation_state_ok t \<and>
    map_option mem_role (state_member s sender) = Some Administrator \<and>
    unat (cs_epoch t) = unat (cs_epoch s) + 1 \<and> cs_epoch t = new_epoch \<and>
    cs_version t = cs_version s \<and> cs_conversation_id t = cs_conversation_id s \<and>
    cs_request_service t = cs_request_service s \<and>
    (\<exists>new. cs_consumed_invitation_ids t = cs_consumed_invitation_ids s @ new)"
  using assms(2)
  by (rule apply_membershipE) (use apply_change_device_ids(4) [OF _ assms(1)] in auto)

text \<open>
  C35: The effect of an accepted authorization on every device: an added device has the
  granted role and joined at the new epoch, a removed device is gone, a changed device
  keeps its join epoch and gets the new role, and no other device is touched.
\<close>

theorem membership_apply_effect:
  assumes "conversation_state_ok s"
    and "apply_membership_authorization s sender authorization new_epoch = Inr t"
  shows "state_member t d =
    (case ma_change authorization of
       Add a \<Rightarrow> if d = add_device_id a
         then Some \<lparr>mem_device_id = d, mem_role = add_role a, mem_joined_epoch = new_epoch\<rparr>
         else state_member s d
     | Remove x \<Rightarrow> if d = x then None else state_member s d
     | ChangeRole x r \<Rightarrow> if d = x
         then map_option (mem_role_update (\<lambda>_. r)) (state_member s d)
         else state_member s d)"
proof -
  from assms(2) obtain ms ci where
    step: "apply_change s new_epoch (ma_change authorization) = Inr (ms, ci)" and
    t: "cs_members t = ms"
    by (rule apply_membershipE)
  note dist = conversation_state_okD(1) [OF assms(1)]
  show ?thesis
  proof (cases "ma_change authorization")
    case (Add a)
    with step have "cs_members t = cs_members s @
        [\<lparr>mem_device_id = add_device_id a, mem_role = add_role a, mem_joined_epoch = new_epoch\<rparr>]"
      "state_member s (add_device_id a) = None"
      by (auto simp: t apply_change_Add)
    with Add show ?thesis
      by (auto simp: state_member_def find_member_append split: option.splits)
  next
    case (Remove x)
    with step have "cs_members t = remove_first_member x (cs_members s)"
      by (simp add: t apply_change_Remove)
    with Remove show ?thesis by (simp add: state_member_def find_member_remove [OF dist])
  next
    case (ChangeRole x r)
    with step have "cs_members t = set_first_role x r (cs_members s)"
      by (simp add: t apply_change_ChangeRole)
    with ChangeRole show ?thesis by (simp add: state_member_def find_member_set_role)
  qed
qed

text \<open>
  The only authorizations that pass every check of \<open>apply_membership_authorization\<close>
  and are still refused by the snapshot validation are the ones that would exceed 128
  members or 1024 consumed invitations, or break the request-service channel; the
  duplicate, future-epoch and missing-administrator checks never fire there.
\<close>

lemma membership_refusals_after_guards:
  assumes "conversation_state_ok s"
    and "apply_change s new_epoch (ma_change authorization) = Inr (ms, ci)"
    and "unat new_epoch = unat (cs_epoch s) + 1"
    and "apply_membership_authorization s sender authorization new_epoch = Inl err"
    and "ma_version authorization = cs_version s"
    and "ma_conversation_id authorization = cs_conversation_id s"
    and "ma_parent_epoch authorization = cs_epoch s"
    and "map_option mem_role (state_member s sender) = Some Administrator"
  shows "err = OutOfRange ''members'' 1 128 (length ms) \<and> length ms = 129 \<or>
    err = OutOfRange ''consumed_invitation_ids'' 0 1024 (length ci) \<and> length ci = 1025 \<or>
    (\<exists>ch. cs_request_service s = Some ch \<and>
       (err = MembershipVersionMismatch \<or> (\<exists>x. err = RequestService x)))"
proof -
  have e: "checked_add_u64 (cs_epoch s) 1 = Some new_epoch"
    using assms(3) unat_u64_less [of new_epoch] by (simp add: checked_add_u64_Some)
  have refused: "ConversationState_new_with_request_service (cs_version s)
      (cs_conversation_id s) new_epoch ms ci (cs_request_service s) = Inl err"
    using assms(4) unfolding apply_membership_authorization_def
    by (simp add: assms(2,5-8) e)
  have le: "cs_epoch s \<le> new_epoch" using assms(3) by (simp add: word_le_nat_alt)
  have "\<forall>m \<in> set ms. mem_joined_epoch m \<le> new_epoch"
    using apply_change_device_ids(3) [OF assms(2,1)] conversation_state_okD(4) [OF assms(1)] le
    by (metis order.trans)
  moreover have "0 < admin_count ms"
    using apply_change_keeps_admin [OF assms(2)] conversation_state_okD(3) [OF assms(1)]
    by (simp add: admin_count_pos)
  moreover have "length (cs_members s) \<le> 128" "length (cs_consumed_invitation_ids s) \<le> 1024"
    using assms(1) by (auto simp: conversation_state_ok_def domain_bounds)
  ultimately show ?thesis
    using new_state_refusal [OF refused apply_change_device_ids(1,2) [OF assms(2,1)]]
      apply_change_lengths [OF assms(2)]
    by auto
qed

text \<open>
  C36: An invitation is consumed at most once in the whole history of a conversation: after
  an accepted addition, no later state reachable through authorized changes accepts
  another addition with the same invitation.
\<close>

theorem invitation_single_use:
  assumes "conversation_state_ok s"
    and "apply_membership_authorization s sender authorization e = Inr t"
    and "ma_change authorization = Add a"
    and "membership_step\<^sup>*\<^sup>* t u"
    and "ma_change later = Add b" and "add_invitation_id b = add_invitation_id a"
  shows "apply_membership_authorization u sender' later e' \<noteq> Inr v"
proof
  assume later: "apply_membership_authorization u sender' later e' = Inr v"
  have "add_invitation_id a \<in> set (cs_consumed_invitation_ids t) \<and> conversation_state_ok t"
    using assms(2) by (rule apply_membershipE) (auto simp: assms(3) apply_change_Add)
  then have "add_invitation_id b \<in> set (cs_consumed_invitation_ids u)"
    using membership_run_keeps [OF assms(4)] assms(6) by auto
  moreover from later have "add_invitation_id b \<notin> set (cs_consumed_invitation_ids u)"
    by (rule apply_membershipE) (auto simp: assms(5) apply_change_Add)
  ultimately show False by simp
qed

text \<open>
  A request-service conversation never gains a third member and never a second
  administrator: in every state reachable through authorized changes, the operator is
  an administrator and every other member is the requester with the ordinary role.
\<close>

lemma request_service_topology:
  assumes "conversation_state_ok s" and "cs_request_service s = Some ch"
    and "membership_step\<^sup>*\<^sup>* s t" and "m \<in> set (cs_members t)"
  shows "mem_device_id m = ch_operator_device_id ch \<and> mem_role m = Administrator \<or>
    mem_device_id m = ch_requester_device_id ch \<and> mem_role m = Member"
proof -
  have ok: "conversation_state_ok t" and "cs_request_service t = Some ch"
    using membership_run_keeps [OF assms(3,1)] assms(2) by auto
  then have ch: "channel_ok ch t" by (auto simp: conversation_state_ok_def)
  then have op: "map_option mem_role (find_member (cs_members t) (ch_operator_device_id ch))
      = Some Administrator"
    by (simp add: channel_ok_def)
  have "mem_role m = Administrator" if "mem_device_id m = ch_operator_device_id ch"
    using op find_member_mem [OF conversation_state_okD(1) [OF ok] assms(4)] that by simp
  with ch assms(4) show ?thesis by (auto simp: channel_ok_def)
qed

section \<open>A concrete conversation\<close>

definition sample_device :: "u8 \<Rightarrow> device_id" where
  "sample_device b = DeviceId (replicate 32 b)"

definition sample_channel :: request_service_channel where
  "sample_channel = \<lparr>ch_conversation_id = ConversationId (replicate 32 9),
     ch_operator_device_id = sample_device 1, ch_requester_device_id = sample_device 2\<rparr>"

definition sample_state :: "request_service_channel option \<Rightarrow> conversation_state" where
  "sample_state rs = \<lparr>cs_version = application_v1,
     cs_conversation_id = ConversationId (replicate 32 9), cs_epoch = 0,
     cs_members = [\<lparr>mem_device_id = sample_device 1, mem_role = Administrator,
                     mem_joined_epoch = 0\<rparr>],
     cs_consumed_invitation_ids = [], cs_request_service = rs\<rparr>"

definition sample_add :: "u8 \<Rightarrow> add_member" where
  "sample_add b = \<lparr>add_device_id = sample_device b, add_role = Member,
     add_invitation_id = InvitationId (replicate 16 7),
     add_credential_binding_hash = CredentialBindingHash (replicate 32 5)\<rparr>"

definition sample_authorization :: "u64 \<Rightarrow> membership_change \<Rightarrow> membership_authorization" where
  "sample_authorization e ch = \<lparr>ma_version = application_v1,
     ma_conversation_id = ConversationId (replicate 32 9), ma_parent_epoch = e,
     ma_operation_id = MembershipOperationId (replicate 16 3), ma_change = ch\<rparr>"

definition sample_joined :: "request_service_channel option \<Rightarrow> conversation_state" where
  "sample_joined rs = (sample_state rs)\<lparr>cs_epoch := 1,
     cs_members := [\<lparr>mem_device_id = sample_device 1, mem_role = Administrator,
                      mem_joined_epoch = 0\<rparr>,
                    \<lparr>mem_device_id = sample_device 2, mem_role = Member,
                      mem_joined_epoch = 1\<rparr>],
     cs_consumed_invitation_ids := [InvitationId (replicate 16 7)]\<rparr>"

lemmas sample_defs = sample_device_def sample_channel_def sample_state_def sample_add_def
  sample_authorization_def sample_joined_def

lemma sample_state_ok: "conversation_state_ok (sample_state None)"
  "conversation_state_ok (sample_state (Some sample_channel))"
  by (simp_all add: conversation_state_ok_def channel_ok_def sample_defs domain_bounds)

lemma sample_apply:
  assumes "rs = None \<or> rs = Some sample_channel"
  shows "apply_membership_authorization (sample_state rs) (sample_device 1)
    (sample_authorization 0 (Add (sample_add 2))) 1 = Inr (sample_joined rs)"
  using assms
  by (auto simp: apply_membership_eq_Inr apply_change_Add state_member_def sample_defs
        conversation_state_ok_def channel_ok_def domain_bounds)

theorem membership_apply_sound_witness:
  "conversation_state_ok (sample_joined None) \<and> unat (cs_epoch (sample_joined None)) = 1"
  using membership_apply_sound [OF sample_state_ok(1) sample_apply [OF disjI1 [OF refl]]]
  by (simp add: sample_defs)

theorem membership_apply_effect_witness:
  "state_member (sample_joined None) (sample_device 2) =
     Some \<lparr>mem_device_id = sample_device 2, mem_role = Member, mem_joined_epoch = 1\<rparr>"
  using membership_apply_effect
    [OF sample_state_ok(1) sample_apply [OF disjI1 [OF refl]], of "sample_device 2"]
  by (simp add: sample_authorization_def sample_add_def)

theorem invitation_single_use_witness:
  "\<nexists>v. apply_membership_authorization (sample_joined None) (sample_device 1)
     (sample_authorization 1 (Add (sample_add 3))) 2 = Inr v"
  unfolding not_ex
  by (intro allI, rule invitation_single_use
      [OF sample_state_ok(1) sample_apply [OF disjI1 [OF refl]] _ rtranclp.rtrancl_refl,
       where a = "sample_add 2" and b = "sample_add 3"])
    (simp_all add: sample_authorization_def sample_add_def)

lemma sample_foreign_refused:
  "apply_membership_authorization (sample_state (Some sample_channel)) (sample_device 1)
     (sample_authorization 0 (Add (sample_add 3))) 1 = Inl (RequestService ForeignMember)"
  by (simp add: apply_membership_authorization_def apply_change_def state_member_def sample_defs
        ConversationState_new_with_request_service_def require_length_range_def domain_bounds
        require_unique_def validate_membership_def checked_add_u64_def)

end
