(* ===== verification/Ordered_Slices.thy ===== *)
theory Ordered_Slices
  imports Konclave_Prelude "HOL-Library.Multiset" "HOL-Library.Char_ord" "HOL-Library.List_Lexorder" "HOL-Library.Option_ord"
    "HOL-Library.Product_Lexorder"
begin

text \<open>
  What the domain code uses of ordered slices: \<open>Ord::cmp\<close> on strings (byte-wise, the
  order of a character list), options (\<open>None\<close> first) and pairs, the stable \<open>sort_by\<close>,
  and the binary search of the standard library with the loop it runs.
\<close>

section \<open>Comparison\<close>

datatype ordering = Less | Equal | Greater

definition cmp :: "'a :: linorder \<Rightarrow> 'a \<Rightarrow> ordering" where
  "cmp a b = (if a < b then Less else if a = b then Equal else Greater)"

fun then_with :: "ordering \<Rightarrow> ordering \<Rightarrow> ordering" where
  "then_with Equal other = other"
| "then_with decided _ = decided"

lemma cmp_iff [simp]:
  "cmp a b = Equal \<longleftrightarrow> a = b" "cmp a b = Greater \<longleftrightarrow> b < a" "cmp a b = Less \<longleftrightarrow> a < b"
  by (auto simp: cmp_def)

lemma then_with_pair: "then_with (cmp a c) (cmp b d) = cmp (a, b) (c, d)"
  by (auto simp: cmp_def less_prod_def)

section \<open>Binary search\<close>

function binary_search_loop :: "('a \<Rightarrow> ordering) \<Rightarrow> 'a list \<Rightarrow> usize \<Rightarrow> usize \<Rightarrow> usize" where
  "binary_search_loop f xs base remaining =
     (if remaining > 1 then
        let half = remaining div 2; mid = base + half in
        binary_search_loop f xs (if f (xs ! mid) = Greater then base else mid) (remaining - half)
      else base)"
  by pat_completeness auto
termination
  by (relation "measure (\<lambda>(_, _, _, n). n)") auto

declare binary_search_loop.simps [simp del]

definition binary_search_by :: "('a \<Rightarrow> ordering) \<Rightarrow> 'a list \<Rightarrow> usize option" where
  "binary_search_by f xs =
     (if xs = [] then None
      else let base = binary_search_loop f xs 0 (length xs) in
        if f (xs ! base) = Equal then Some base else None)"

lemma binary_search_loop_finds:
  assumes "sorted (map key xs)" and "1 \<le> remaining" "base + remaining \<le> length xs"
  shows "base \<le> binary_search_loop (\<lambda>x. cmp (key x) k) xs base remaining \<and>
    binary_search_loop (\<lambda>x. cmp (key x) k) xs base remaining < base + remaining \<and>
    ((\<exists>i. base \<le> i \<and> i < base + remaining \<and> key (xs ! i) = k) \<longrightarrow>
      key (xs ! binary_search_loop (\<lambda>x. cmp (key x) k) xs base remaining) = k)"
  using assms(2,3)
proof (induction remaining arbitrary: base rule: less_induct)
  case (less remaining)
  show ?case
  proof (cases "remaining > 1")
    case False
    then have "remaining = 1" using less.prems by simp
    then show ?thesis by (auto simp: binary_search_loop.simps le_less_Suc_eq)
  next
    case True
    let ?half = "remaining div 2" and ?mid = "base + remaining div 2"
    let ?next = "if cmp (key (xs ! ?mid)) k = Greater then base else ?mid"
    have mono: "key (xs ! i) \<le> key (xs ! j)" if "i \<le> j" "j < length xs" for i j
      using assms(1) that sorted_nth_mono [of "map key xs" i j] by simp
    have half: "1 \<le> ?half" "?half < remaining" "?half \<le> remaining - ?half" using True by auto
    have IH: "?next \<le> binary_search_loop (\<lambda>x. cmp (key x) k) xs ?next (remaining - ?half) \<and>
        binary_search_loop (\<lambda>x. cmp (key x) k) xs ?next (remaining - ?half) < ?next + (remaining - ?half) \<and>
        ((\<exists>i. ?next \<le> i \<and> i < ?next + (remaining - ?half) \<and> key (xs ! i) = k) \<longrightarrow>
          key (xs ! binary_search_loop (\<lambda>x. cmp (key x) k) xs ?next (remaining - ?half)) = k)"
      using half less.prems by (intro less.IH) auto
    have found: "\<exists>i. ?next \<le> i \<and> i < ?next + (remaining - ?half) \<and> key (xs ! i) = k"
      if "base \<le> i" "i < base + remaining" "key (xs ! i) = k" for i
    proof (cases "k < key (xs ! ?mid)")
      case True
      then have "i < ?mid" using mono [of ?mid i] that less.prems(2) by (meson leD leI order.strict_trans2)
      then show ?thesis using True that half by (intro exI [of _ i]) auto
    next
      case False
      show ?thesis
      proof (cases "i < ?mid")
        case True
        then have "key (xs ! ?mid) = k"
          using mono [of i ?mid] that less.prems(2) half False by auto
        then show ?thesis using False half by (intro exI [of _ ?mid]) auto
      next
        case not_before: False
        then show ?thesis using False that half by (intro exI [of _ i]) auto
      qed
    qed
    let ?r = "binary_search_loop (\<lambda>x. cmp (key x) k) xs ?next (remaining - ?half)"
    have step: "binary_search_loop (\<lambda>x. cmp (key x) k) xs base remaining = ?r"
      using True by (subst binary_search_loop.simps) (simp only: Let_def if_True)
    have le: "base \<le> ?next" "?next + (remaining - ?half) \<le> base + remaining" using half by auto
    have "base \<le> ?r" using le(1) conjunct1 [OF IH] by (rule order.trans)
    moreover have "?r < base + remaining"
      using conjunct1 [OF conjunct2 [OF IH]] le(2) by (rule order.strict_trans2)
    ultimately show ?thesis
      unfolding step using found conjunct2 [OF conjunct2 [OF IH]] by blast
  qed
qed

text \<open>On a sorted slice the search finds a key exactly when it is there.\<close>

lemma binary_search_by_iff:
  assumes "sorted (map key xs)"
  shows "binary_search_by (\<lambda>x. cmp (key x) k) xs \<noteq> None \<longleftrightarrow> k \<in> key ` set xs"
proof (cases "xs = []")
  case False
  let ?b = "binary_search_loop (\<lambda>x. cmp (key x) k) xs 0 (length xs)"
  have b: "?b < length xs" "(\<exists>i<length xs. key (xs ! i) = k) \<longrightarrow> key (xs ! ?b) = k"
    using binary_search_loop_finds [OF assms, of "length xs" 0 k] False by (auto simp: Suc_le_eq)
  have "k \<in> key ` set xs \<longleftrightarrow> key (xs ! ?b) = k"
  proof
    assume "k \<in> key ` set xs"
    then show "key (xs ! ?b) = k" using b(2) by (auto simp: in_set_conv_nth)
  next
    assume "key (xs ! ?b) = k"
    then show "k \<in> key ` set xs" using nth_mem [OF b(1)] by (metis image_eqI)
  qed
  then show ?thesis using False by (simp add: binary_search_by_def Let_def)
qed (simp add: binary_search_by_def)

section \<open>Canonical order\<close>

lemma windows2_any_sorted_distinct:
  assumes "sorted (map f xs)"
  shows "windows2_any (\<lambda>a b. f a = f b) xs \<longleftrightarrow> \<not> distinct (map f xs)"
  using assms
proof (induction xs rule: induct_list012)
  case (3 x y zs)
  then show ?case by (auto dest: order_antisym)
qed auto

lemma sort_key_canonical:
  assumes "mset xs = mset ys" and "distinct (map f (sort_key f xs))"
  shows "sort_key f ys = sort_key f xs"
proof (rule map_sorted_distinct_set_unique)
  have set_eq: "set xs = set ys" using assms(1) by (rule mset_eq_setD)
  have "distinct (map f ys)"
    using assms by (metis distinct_map mset_map mset_sort mset_eq_imp_distinct_iff)
  then show "distinct (map f (sort_key f ys))"
    by (metis mset_map mset_sort mset_eq_imp_distinct_iff)
  show "set (sort_key f ys) = set (sort_key f xs)" using set_eq by simp
  show "inj_on f (set (sort_key f ys) \<union> set (sort_key f xs))"
    using assms(2) set_eq by (simp add: distinct_map)
qed (use assms in simp_all)

end
