(* ===== verification/Collaboration_Policy.thy ===== *)
theory Collaboration_Policy
  imports Domain_Core Ordered_Slices
begin

text \<open>
  \<open>crates/Konclave.DomainCore/src/collaboration_policy.rs\<close>: proposals and bundles of
  collaboration policies with the canonical form their constructors establish, and the
  evaluator that intersects an accepted bundle with local authority, proven harness
  controls, local restrictions and the usage limits. Text is its UTF-8 bytes.
\<close>

section \<open>Bounds and errors\<close>

definition MAX_COLLABORATION_POLICY_BUNDLE_BYTES :: usize where
  "MAX_COLLABORATION_POLICY_BUNDLE_BYTES = 64 * 1024"
definition MAX_COLLABORATION_POLICY_NAME_BYTES :: usize where
  "MAX_COLLABORATION_POLICY_NAME_BYTES = 128"
definition MAX_COLLABORATION_POLICY_GUIDANCE_BYTES :: usize where
  "MAX_COLLABORATION_POLICY_GUIDANCE_BYTES = 32 * 1024"
definition MAX_COLLABORATION_POLICY_STATEMENTS :: usize where
  "MAX_COLLABORATION_POLICY_STATEMENTS = 256"
definition MAX_COLLABORATION_POLICY_STATEMENT_ID_BYTES :: usize where
  "MAX_COLLABORATION_POLICY_STATEMENT_ID_BYTES = 128"
definition MAX_COLLABORATION_POLICY_ACTION_BYTES :: usize where
  "MAX_COLLABORATION_POLICY_ACTION_BYTES = 256"
definition MAX_COLLABORATION_POLICY_RESOURCE_BYTES :: usize where
  "MAX_COLLABORATION_POLICY_RESOURCE_BYTES = 256"
definition MAX_COLLABORATION_POLICY_HARNESS_CLAIMS :: usize where
  "MAX_COLLABORATION_POLICY_HARNESS_CLAIMS = 64"
definition MAX_COLLABORATION_POLICY_HARNESS_CLAIM_BYTES :: usize where
  "MAX_COLLABORATION_POLICY_HARNESS_CLAIM_BYTES = 256"

lemmas policy_bounds =
  MAX_COLLABORATION_POLICY_BUNDLE_BYTES_def MAX_COLLABORATION_POLICY_NAME_BYTES_def
  MAX_COLLABORATION_POLICY_GUIDANCE_BYTES_def MAX_COLLABORATION_POLICY_STATEMENTS_def
  MAX_COLLABORATION_POLICY_STATEMENT_ID_BYTES_def MAX_COLLABORATION_POLICY_ACTION_BYTES_def
  MAX_COLLABORATION_POLICY_RESOURCE_BYTES_def MAX_COLLABORATION_POLICY_HARNESS_CLAIMS_def
  MAX_COLLABORATION_POLICY_HARNESS_CLAIM_BYTES_def

definition require_optional_positive :: "u64 option \<Rightarrow> string \<Rightarrow> konclave_domain_error + unit" where
  "require_optional_positive value field = (if value = Some 0 then Inl (ZeroValue field) else Inr ())"

definition require_collection_bound :: "usize \<Rightarrow> usize \<Rightarrow> string \<Rightarrow> konclave_domain_error + unit" where
  "require_collection_bound actual maximum field =
     (if actual > maximum then Inl (OutOfRange field 0 maximum actual) else Inr ())"

definition bounded_text :: "string \<Rightarrow> string \<Rightarrow> usize \<Rightarrow> konclave_domain_error + string" where
  "bounded_text value field maximum =
     (if value = '''' then Inl (EmptyText field)
      else if length value > maximum then Inl (TextTooLong field maximum (length value))
      else Inr value)"

section \<open>Canonical identifiers\<close>

definition is_ascii :: "string \<Rightarrow> bool" where
  "is_ascii value = list_all (\<lambda>c. (of_char c :: nat) < 128) value"

definition is_ascii_lowercase :: "char \<Rightarrow> bool" where
  "is_ascii_lowercase c = (CHR ''a'' \<le> c \<and> c \<le> CHR ''z'')"

definition is_ascii_uppercase :: "char \<Rightarrow> bool" where
  "is_ascii_uppercase c = (CHR ''A'' \<le> c \<and> c \<le> CHR ''Z'')"

definition is_ascii_digit :: "char \<Rightarrow> bool" where
  "is_ascii_digit c = (CHR ''0'' \<le> c \<and> c \<le> CHR ''9'')"

definition is_ascii_alphanumeric :: "char \<Rightarrow> bool" where
  "is_ascii_alphanumeric c = (is_ascii_lowercase c \<or> is_ascii_uppercase c \<or> is_ascii_digit c)"

text \<open>\<open>str::split\<close> on a set of characters: always at least one segment.\<close>

fun split_at :: "(char \<Rightarrow> bool) \<Rightarrow> string \<Rightarrow> string list" where
  "split_at p [] = [[]]"
| "split_at p (c # cs) =
     (if p c then [] # split_at p cs
      else case split_at p cs of [] \<Rightarrow> [[c]] | s # ss \<Rightarrow> (c # s) # ss)"

definition canonical_identifier_segment :: "string \<Rightarrow> bool" where
  "canonical_identifier_segment segment =
     (segment \<noteq> [] \<and> is_ascii_alphanumeric (hd segment) \<and> is_ascii_alphanumeric (last segment) \<and>
      list_all (\<lambda>b. is_ascii_lowercase b \<or> is_ascii_digit b \<or> b = CHR ''-'' \<or> b = CHR ''_'') segment)"

definition canonical_identifier :: "string \<Rightarrow> string \<Rightarrow> usize \<Rightarrow> konclave_domain_error + string" where
  "canonical_identifier value field maximum =
     and_then (bounded_text value field maximum) (\<lambda>value.
     if \<not> is_ascii value \<or>
        list_ex (\<lambda>segment. \<not> canonical_identifier_segment segment)
          (split_at (\<lambda>c. c = CHR ''.'' \<or> c = CHR ''/'') value)
     then Inl (NonCanonicalText field) else Inr value)"

definition canonical_namespaced_identifier ::
    "string \<Rightarrow> string \<Rightarrow> usize \<Rightarrow> konclave_domain_error + string" where
  "canonical_namespaced_identifier value field maximum =
     and_then (canonical_identifier value field maximum) (\<lambda>value.
     if CHR ''.'' \<notin> set value \<and> CHR ''/'' \<notin> set value then Inl (NonCanonicalText field) else Inr value)"

definition validate_collaboration_policy_name :: "string \<Rightarrow> konclave_domain_error + unit" where
  "validate_collaboration_policy_name value =
     and_then (canonical_identifier value ''collaboration_policy_name'' MAX_COLLABORATION_POLICY_NAME_BYTES)
       (\<lambda>_. Inr ())"

section \<open>Proposals, responses and revocations\<close>

datatype collaboration_policy_proposal_id =
  CollaborationPolicyProposalId (proposal_id_bytes: bytes)
datatype collaboration_policy_digest = CollaborationPolicyDigest (policy_digest_bytes: bytes)

record collaboration_policy_proposal =
  cpp_proposal_id :: collaboration_policy_proposal_id
  cpp_policy_digest :: collaboration_policy_digest
  cpp_canonical_bundle :: bytes
  cpp_replaces_policy_digest :: "collaboration_policy_digest option"

definition CollaborationPolicyProposal_new ::
    "collaboration_policy_proposal_id \<Rightarrow> collaboration_policy_digest \<Rightarrow> bytes \<Rightarrow>
     collaboration_policy_digest option \<Rightarrow> konclave_domain_error + collaboration_policy_proposal" where
  "CollaborationPolicyProposal_new proposal_id policy_digest canonical_bundle replaces_policy_digest =
     (if canonical_bundle = [] \<or> length canonical_bundle > MAX_COLLABORATION_POLICY_BUNDLE_BYTES
      then Inl (OutOfRange ''collaboration_policy_bundle'' 1 MAX_COLLABORATION_POLICY_BUNDLE_BYTES
                  (length canonical_bundle))
      else Inr \<lparr>cpp_proposal_id = proposal_id, cpp_policy_digest = policy_digest,
                cpp_canonical_bundle = canonical_bundle,
                cpp_replaces_policy_digest = replaces_policy_digest\<rparr>)"

datatype collaboration_policy_response_outcome = Accepted | Rejected

record collaboration_policy_response =
  cpr_proposal_id :: collaboration_policy_proposal_id
  cpr_policy_digest :: collaboration_policy_digest
  cpr_outcome :: collaboration_policy_response_outcome

record collaboration_policy_revocation =
  cpv_policy_digest :: collaboration_policy_digest

section \<open>Statements, limits and bundles\<close>

datatype collaboration_policy_effect = EffectAllow | EffectDeny | EffectRequireLocalApproval

record collaboration_policy_statement =
  st_statement_id :: string
  st_effect :: collaboration_policy_effect
  st_action :: string
  st_resource :: "string option"

abbreviation "policy_action value \<equiv>
  canonical_namespaced_identifier value ''collaboration_policy_action'' MAX_COLLABORATION_POLICY_ACTION_BYTES"

abbreviation "policy_resource value \<equiv>
  transpose_map (\<lambda>v. canonical_namespaced_identifier v ''collaboration_policy_resource''
    MAX_COLLABORATION_POLICY_RESOURCE_BYTES) value"

abbreviation "policy_claims values \<equiv>
  collect (\<lambda>v. canonical_namespaced_identifier v ''collaboration_policy_harness_claim''
    MAX_COLLABORATION_POLICY_HARNESS_CLAIM_BYTES) values"

definition CollaborationPolicyStatement_new ::
    "string \<Rightarrow> collaboration_policy_effect \<Rightarrow> string \<Rightarrow> string option \<Rightarrow>
     konclave_domain_error + collaboration_policy_statement" where
  "CollaborationPolicyStatement_new statement_id effect action resource =
     and_then (canonical_identifier statement_id ''collaboration_policy_statement_id''
       MAX_COLLABORATION_POLICY_STATEMENT_ID_BYTES) (\<lambda>statement_id.
     and_then (policy_action action) (\<lambda>action.
     and_then (policy_resource resource) (\<lambda>resource.
     Inr \<lparr>st_statement_id = statement_id, st_effect = effect, st_action = action, st_resource = resource\<rparr>)))"

record collaboration_policy_limits =
  lm_duration_milliseconds :: "u64 option"
  lm_turns :: "u64 option"
  lm_tokens :: "u64 option"
  lm_concurrent_requests :: "u32 option"

definition CollaborationPolicyLimits_new ::
    "u64 option \<Rightarrow> u64 option \<Rightarrow> u64 option \<Rightarrow> u32 option \<Rightarrow>
     konclave_domain_error + collaboration_policy_limits" where
  "CollaborationPolicyLimits_new duration_milliseconds turns tokens concurrent_requests =
     and_then (require_optional_positive duration_milliseconds ''collaboration_policy_duration'') (\<lambda>_.
     and_then (require_optional_positive turns ''collaboration_policy_turns'') (\<lambda>_.
     and_then (require_optional_positive tokens ''collaboration_policy_tokens'') (\<lambda>_.
     and_then (require_optional_positive (map_option ucast concurrent_requests)
       ''collaboration_policy_concurrent_requests'') (\<lambda>_.
     Inr \<lparr>lm_duration_milliseconds = duration_milliseconds, lm_turns = turns, lm_tokens = tokens,
          lm_concurrent_requests = concurrent_requests\<rparr>))))"

record collaboration_policy_bundle =
  bd_version :: protocol_version
  bd_name :: string
  bd_guidance :: "string option"
  bd_statements :: "collaboration_policy_statement list"
  bd_required_harness_claims :: "string list"
  bd_limits :: collaboration_policy_limits

definition CollaborationPolicyBundle_new ::
    "protocol_version \<Rightarrow> string \<Rightarrow> string option \<Rightarrow> collaboration_policy_statement list \<Rightarrow>
     string list \<Rightarrow> collaboration_policy_limits \<Rightarrow>
     konclave_domain_error + collaboration_policy_bundle" where
  "CollaborationPolicyBundle_new version name guidance statements required_harness_claims limits =
     and_then (validate_collaboration_policy_name name) (\<lambda>_.
     and_then (transpose_map (\<lambda>v. bounded_text v ''collaboration_policy_guidance''
       MAX_COLLABORATION_POLICY_GUIDANCE_BYTES) guidance) (\<lambda>guidance.
     and_then (require_collection_bound (length statements) MAX_COLLABORATION_POLICY_STATEMENTS
       ''collaboration_policy_statements'') (\<lambda>_.
     let statements = sort_key st_statement_id statements in
     if windows2_any (\<lambda>a b. st_statement_id a = st_statement_id b) statements
     then Inl (DuplicateIdentifier ''collaboration_policy_statement_id'')
     else
     and_then (require_collection_bound (length required_harness_claims)
       MAX_COLLABORATION_POLICY_HARNESS_CLAIMS ''collaboration_policy_harness_claims'') (\<lambda>_.
     and_then (policy_claims required_harness_claims) (\<lambda>claims.
     let claims = sort claims in
     if windows2_any (=) claims then Inl (DuplicateIdentifier ''collaboration_policy_harness_claim'')
     else Inr \<lparr>bd_version = version, bd_name = name, bd_guidance = guidance,
               bd_statements = statements, bd_required_harness_claims = claims, bd_limits = limits\<rparr>)))))"

section \<open>Evaluation\<close>

record collaboration_policy_target =
  tg_action :: string
  tg_resource :: "string option"

definition CollaborationPolicyTarget_new ::
    "string \<Rightarrow> string option \<Rightarrow> konclave_domain_error + collaboration_policy_target" where
  "CollaborationPolicyTarget_new action resource =
     and_then (policy_action action) (\<lambda>action.
     and_then (policy_resource resource) (\<lambda>resource.
     Inr \<lparr>tg_action = action, tg_resource = resource\<rparr>))"

record collaboration_policy_cost =
  co_turns :: u64
  co_tokens :: u64
  co_concurrent_requests :: u32

record collaboration_policy_usage =
  us_elapsed_milliseconds :: u64
  us_turns :: u64
  us_tokens :: u64
  us_concurrent_requests :: u32

record collaboration_policy_evaluation_request =
  er_target :: collaboration_policy_target
  er_cost :: collaboration_policy_cost
  er_fresh_local_approval_proven :: bool

record collaboration_policy_evaluation_context =
  cx_local_user_authority :: "collaboration_policy_target list"
  cx_proven_harness_claims :: "string list"
  cx_proven_harness_controls :: "collaboration_policy_target list"
  cx_local_denials :: "collaboration_policy_target list"
  cx_local_approval_requirements :: "collaboration_policy_target list"

text \<open>The comparison of \<open>canonicalize_targets\<close> is the order of this pair.\<close>

definition target_key :: "collaboration_policy_target \<Rightarrow> string \<times> string option" where
  "target_key t = (tg_action t, tg_resource t)"

definition canonicalize_targets ::
    "collaboration_policy_target list \<Rightarrow> string \<Rightarrow> konclave_domain_error + collaboration_policy_target list" where
  "canonicalize_targets targets field =
     and_then (require_collection_bound (length targets) MAX_COLLABORATION_POLICY_STATEMENTS field) (\<lambda>_.
     let targets = sort_key target_key targets in
     if windows2_any (=) targets then Inl (DuplicateIdentifier field) else Inr targets)"

definition CollaborationPolicyEvaluationContext_new ::
    "collaboration_policy_target list \<Rightarrow> string list \<Rightarrow> collaboration_policy_target list \<Rightarrow>
     collaboration_policy_target list \<Rightarrow> collaboration_policy_target list \<Rightarrow>
     konclave_domain_error + collaboration_policy_evaluation_context" where
  "CollaborationPolicyEvaluationContext_new local_user_authority proven_harness_claims
       proven_harness_controls local_denials local_approval_requirements =
     and_then (canonicalize_targets local_user_authority ''collaboration_policy_local_authority'') (\<lambda>local_user_authority.
     and_then (canonicalize_targets proven_harness_controls ''collaboration_policy_harness_controls'') (\<lambda>proven_harness_controls.
     and_then (canonicalize_targets local_denials ''collaboration_policy_local_denials'') (\<lambda>local_denials.
     and_then (canonicalize_targets local_approval_requirements
       ''collaboration_policy_local_approval_requirements'') (\<lambda>local_approval_requirements.
     and_then (require_collection_bound (length proven_harness_claims)
       MAX_COLLABORATION_POLICY_HARNESS_CLAIMS ''collaboration_policy_proven_harness_claims'') (\<lambda>_.
     and_then (policy_claims proven_harness_claims) (\<lambda>claims.
     let claims = sort claims in
     if windows2_any (=) claims then Inl (DuplicateIdentifier ''collaboration_policy_harness_claim'')
     else Inr \<lparr>cx_local_user_authority = local_user_authority, cx_proven_harness_claims = claims,
               cx_proven_harness_controls = proven_harness_controls, cx_local_denials = local_denials,
               cx_local_approval_requirements = local_approval_requirements\<rparr>))))))"

datatype collaboration_policy_denial_reason =
    NoMatchingStatement | PolicyDenied | LocalAuthorityMissing | HarnessClaimMissing
  | HarnessControlMissing | LocalRestrictionDenied | DurationLimitExceeded
  | TurnLimitExceeded | TokenLimitExceeded | ConcurrencyLimitExceeded

fun denial_code :: "collaboration_policy_denial_reason \<Rightarrow> string" where
  "denial_code NoMatchingStatement = ''no_matching_statement''"
| "denial_code PolicyDenied = ''policy_denied''"
| "denial_code LocalAuthorityMissing = ''local_authority_missing''"
| "denial_code HarnessClaimMissing = ''harness_claim_missing''"
| "denial_code HarnessControlMissing = ''harness_control_missing''"
| "denial_code LocalRestrictionDenied = ''local_restriction_denied''"
| "denial_code DurationLimitExceeded = ''duration_limit_exceeded''"
| "denial_code TurnLimitExceeded = ''turn_limit_exceeded''"
| "denial_code TokenLimitExceeded = ''token_limit_exceeded''"
| "denial_code ConcurrencyLimitExceeded = ''concurrency_limit_exceeded''"

datatype collaboration_policy_decision =
  Allow | RequireLocalApproval | Deny collaboration_policy_denial_reason

definition target_in :: "collaboration_policy_target list \<Rightarrow> collaboration_policy_target \<Rightarrow> bool" where
  "target_in targets target =
     (binary_search_by (\<lambda>candidate. then_with (cmp (tg_action candidate) (tg_action target))
        (cmp (tg_resource candidate) (tg_resource target))) targets \<noteq> None)"

fun stricter_effect ::
    "collaboration_policy_effect option \<Rightarrow> collaboration_policy_effect \<Rightarrow> collaboration_policy_effect" where
  "stricter_effect (Some EffectDeny) _ = EffectDeny"
| "stricter_effect _ EffectDeny = EffectDeny"
| "stricter_effect (Some EffectRequireLocalApproval) _ = EffectRequireLocalApproval"
| "stricter_effect _ EffectRequireLocalApproval = EffectRequireLocalApproval"
| "stricter_effect _ _ = EffectAllow"

definition checked_add_u32 :: "u32 \<Rightarrow> u32 \<Rightarrow> u32 option" where
  "checked_add_u32 a b = (if unat a + unat b < 2 ^ 32 then Some (a + b) else None)"

definition exceeds_u64 :: "u64 \<Rightarrow> u64 \<Rightarrow> u64 option \<Rightarrow> bool" where
  "exceeds_u64 current requested limit =
     (case limit of None \<Rightarrow> False
      | Some limit \<Rightarrow> (case checked_add_u64 current requested of None \<Rightarrow> True | Some spent \<Rightarrow> spent > limit))"

definition exceeds_u32 :: "u32 \<Rightarrow> u32 \<Rightarrow> u32 option \<Rightarrow> bool" where
  "exceeds_u32 current requested limit =
     (case limit of None \<Rightarrow> False
      | Some limit \<Rightarrow> (case checked_add_u32 current requested of None \<Rightarrow> True | Some spent \<Rightarrow> spent > limit))"

definition exceeded_limit ::
    "collaboration_policy_limits \<Rightarrow> collaboration_policy_usage \<Rightarrow> collaboration_policy_cost \<Rightarrow>
     collaboration_policy_denial_reason option" where
  "exceeded_limit limits usage cost =
     (if (case lm_duration_milliseconds limits of None \<Rightarrow> False
          | Some limit \<Rightarrow> us_elapsed_milliseconds usage \<ge> limit)
      then Some DurationLimitExceeded
      else if exceeds_u64 (us_turns usage) (co_turns cost) (lm_turns limits)
      then Some TurnLimitExceeded
      else if exceeds_u64 (us_tokens usage) (co_tokens cost) (lm_tokens limits)
      then Some TokenLimitExceeded
      else if exceeds_u32 (us_concurrent_requests usage) (co_concurrent_requests cost) (lm_concurrent_requests limits)
      then Some ConcurrencyLimitExceeded
      else None)"

definition statement_matches :: "collaboration_policy_target \<Rightarrow> collaboration_policy_statement \<Rightarrow> bool" where
  "statement_matches target statement =
     (st_action statement = tg_action target \<and> st_resource statement = tg_resource target)"

definition matching_effect ::
    "collaboration_policy_bundle \<Rightarrow> collaboration_policy_target \<Rightarrow> collaboration_policy_effect option" where
  "matching_effect bundle target =
     fold (\<lambda>statement effect. Some (stricter_effect effect (st_effect statement)))
       (filter (statement_matches target) (bd_statements bundle)) None"

definition evaluate_collaboration_policy ::
    "collaboration_policy_bundle \<Rightarrow> collaboration_policy_evaluation_context \<Rightarrow>
     collaboration_policy_evaluation_request \<Rightarrow> collaboration_policy_usage \<Rightarrow>
     collaboration_policy_decision" where
  "evaluate_collaboration_policy bundle context request usage =
     (let target = er_target request in
      case matching_effect bundle target of
        None \<Rightarrow> Deny NoMatchingStatement
      | Some effect \<Rightarrow>
          if effect = EffectDeny then Deny PolicyDenied
          else if target_in (cx_local_denials context) target then Deny LocalRestrictionDenied
          else if \<not> target_in (cx_local_user_authority context) target then Deny LocalAuthorityMissing
          else if list_ex (\<lambda>claim. binary_search_by (\<lambda>c. cmp c claim) (cx_proven_harness_claims context) = None)
                    (bd_required_harness_claims bundle)
          then Deny HarnessClaimMissing
          else if \<not> target_in (cx_proven_harness_controls context) target then Deny HarnessControlMissing
          else case exceeded_limit (bd_limits bundle) usage (er_cost request) of
            Some reason \<Rightarrow> Deny reason
          | None \<Rightarrow>
              if \<not> er_fresh_local_approval_proven request \<and>
                 (effect = EffectRequireLocalApproval \<or>
                  target_in (cx_local_approval_requirements context) target)
              then RequireLocalApproval else Allow)"

section \<open>What the constructors establish\<close>

lemma require_collection_bound_eq_Inr [simp]: "require_collection_bound n m f = Inr u \<longleftrightarrow> n \<le> m"
  by (auto simp: require_collection_bound_def)

lemma bounded_text_eq_Inr [simp]: "bounded_text v f m = Inr w \<longleftrightarrow> w = v \<and> v \<noteq> [] \<and> length v \<le> m"
  by (auto simp: bounded_text_def)

lemma canonical_identifier_same: "canonical_identifier v f m = Inr w \<Longrightarrow> w = v"
  by (auto simp: canonical_identifier_def split: if_splits)

lemma canonical_namespaced_identifier_same: "canonical_namespaced_identifier v f m = Inr w \<Longrightarrow> w = v"
  by (auto simp: canonical_namespaced_identifier_def split: if_splits dest: canonical_identifier_same)

lemma policy_claims_same: "policy_claims cs = Inr ds \<Longrightarrow> ds = cs"
  unfolding collect_eq_Inr
  by (induction rule: list_all2_induct) (auto dest: canonical_namespaced_identifier_same)

lemma target_key_eq [simp]: "target_key a = target_key b \<longleftrightarrow> a = b"
  by (cases a; cases b) (simp add: target_key_def)

lemma windows2_any_keys: "windows2_any (=) ts \<longleftrightarrow> windows2_any (\<lambda>a b. target_key a = target_key b) ts"
  by simp

lemma inj_target_key: "inj_on target_key A"
  by (simp add: inj_on_def)

lemma canonicalize_targets_eq_Inr:
  "canonicalize_targets ts f = Inr us \<longleftrightarrow>
     length ts \<le> 256 \<and> distinct ts \<and> us = sort_key target_key ts"
proof -
  have "windows2_any (=) (sort_key target_key ts) \<longleftrightarrow> \<not> distinct (map target_key (sort_key target_key ts))"
    unfolding windows2_any_keys by (rule windows2_any_sorted_distinct) simp
  also have "\<dots> \<longleftrightarrow> \<not> distinct ts"
    by (simp add: distinct_map inj_target_key)
  finally show ?thesis
    by (auto simp: canonicalize_targets_def Let_def policy_bounds)
qed

lemma target_in_iff:
  assumes "sorted (map target_key ts)"
  shows "target_in ts t \<longleftrightarrow> t \<in> set ts"
proof -
  have "target_in ts t \<longleftrightarrow> target_key t \<in> target_key ` set ts"
    unfolding target_in_def then_with_pair target_key_def [symmetric]
    using assms by (rule binary_search_by_iff)
  then show ?thesis by auto
qed

lemma sorted_search_iff: "sorted xs \<Longrightarrow> binary_search_by (\<lambda>c. cmp c x) xs = None \<longleftrightarrow> x \<notin> set xs"
  using binary_search_by_iff [of "\<lambda>c. c" xs x] by auto

lemma context_new_eq:
  assumes "CollaborationPolicyEvaluationContext_new auth claims controls denials approvals = Inr context"
  shows "target_in (cx_local_user_authority context) t \<longleftrightarrow> t \<in> set auth"
    and "target_in (cx_proven_harness_controls context) t \<longleftrightarrow> t \<in> set controls"
    and "target_in (cx_local_denials context) t \<longleftrightarrow> t \<in> set denials"
    and "target_in (cx_local_approval_requirements context) t \<longleftrightarrow> t \<in> set approvals"
    and "binary_search_by (\<lambda>c. cmp c claim) (cx_proven_harness_claims context) = None \<longleftrightarrow> claim \<notin> set claims"
  using assms
  by (auto simp: CollaborationPolicyEvaluationContext_new_def canonicalize_targets_eq_Inr Let_def target_in_iff
      sorted_search_iff dest!: policy_claims_same split: if_splits)

lemma fold_stricter:
  "fold (\<lambda>s e. Some (stricter_effect e (st_effect s))) xs (Some e) =
     Some (if e = EffectDeny \<or> (\<exists>s\<in>set xs. st_effect s = EffectDeny) then EffectDeny
           else if e = EffectRequireLocalApproval \<or> (\<exists>s\<in>set xs. st_effect s = EffectRequireLocalApproval)
           then EffectRequireLocalApproval else EffectAllow)"
proof (induction xs arbitrary: e)
  case Nil
  then show ?case by (cases e) auto
next
  case (Cons s xs)
  then show ?case by (cases e; cases "st_effect s") auto
qed

lemma matching_effect_eq:
  "matching_effect bundle t =
     (let S = {s \<in> set (bd_statements bundle). statement_matches t s} in
      if S = {} then None
      else Some (if \<exists>s\<in>S. st_effect s = EffectDeny then EffectDeny
                 else if \<exists>s\<in>S. st_effect s = EffectRequireLocalApproval then EffectRequireLocalApproval
                 else EffectAllow))"
proof -
  let ?xs = "filter (statement_matches t) (bd_statements bundle)"
  have S: "{s \<in> set (bd_statements bundle). statement_matches t s} = set ?xs" by auto
  show ?thesis
  proof (cases ?xs)
    case Nil
    then show ?thesis unfolding matching_effect_def Nil Let_def S by simp
  next
    case (Cons s xs)
    have "stricter_effect None (st_effect s) = st_effect s" by (cases "st_effect s") auto
    then show ?thesis
      unfolding matching_effect_def Let_def S Cons
      using fold_stricter [of xs "st_effect s"] by simp
  qed
qed

section \<open>The decision\<close>

lemma exceeds_u64_iff: "exceeds_u64 a b l \<longleftrightarrow> (\<exists>m. l = Some m \<and> unat m < unat a + unat b)"
  by (auto simp: exceeds_u64_def checked_add_u64_def word_less_nat_alt unat_word_ariths
      intro: order.strict_trans2 [OF unat_u64_less] split: option.splits)

lemma exceeds_u32_iff: "exceeds_u32 a b l \<longleftrightarrow> (\<exists>m. l = Some m \<and> unat m < unat a + unat b)"
  by (auto simp: exceeds_u32_def checked_add_u32_def word_less_nat_alt unat_word_ariths
      intro: order.strict_trans2 [OF unat_u32_less] split: option.splits)

text \<open>Within every finite limit, with the sums taken in the integers.\<close>

definition within_budget ::
    "collaboration_policy_limits \<Rightarrow> collaboration_policy_usage \<Rightarrow> collaboration_policy_cost \<Rightarrow> bool" where
  "within_budget limits usage cost \<longleftrightarrow>
     (\<forall>l. lm_duration_milliseconds limits = Some l \<longrightarrow> unat (us_elapsed_milliseconds usage) < unat l) \<and>
     (\<forall>l. lm_turns limits = Some l \<longrightarrow> unat (us_turns usage) + unat (co_turns cost) \<le> unat l) \<and>
     (\<forall>l. lm_tokens limits = Some l \<longrightarrow> unat (us_tokens usage) + unat (co_tokens cost) \<le> unat l) \<and>
     (\<forall>l. lm_concurrent_requests limits = Some l \<longrightarrow>
        unat (us_concurrent_requests usage) + unat (co_concurrent_requests cost) \<le> unat l)"

lemma exceeded_limit_iff: "exceeded_limit limits usage cost = None \<longleftrightarrow> within_budget limits usage cost"
  by (auto simp: exceeded_limit_def within_budget_def exceeds_u64_iff exceeds_u32_iff word_le_nat_alt not_le not_less
      split: option.splits)

text \<open>What must hold for an action not to be denied, over the values the context was made from.\<close>

definition policy_permits ::
    "collaboration_policy_bundle \<Rightarrow> collaboration_policy_target list \<Rightarrow> string list \<Rightarrow>
     collaboration_policy_target list \<Rightarrow> collaboration_policy_target list \<Rightarrow>
     collaboration_policy_evaluation_request \<Rightarrow> collaboration_policy_usage \<Rightarrow> bool" where
  "policy_permits bundle auth claims controls denials request usage \<longleftrightarrow>
     (let t = er_target request in
      (\<exists>s \<in> set (bd_statements bundle). statement_matches t s) \<and>
      (\<forall>s \<in> set (bd_statements bundle). statement_matches t s \<longrightarrow> st_effect s \<noteq> EffectDeny) \<and> t \<in> set auth \<and> t \<in> set controls \<and> t \<notin> set denials \<and>
      set (bd_required_harness_claims bundle) \<subseteq> set claims \<and>
      within_budget (bd_limits bundle) usage (er_cost request))"

definition policy_needs_approval ::
    "collaboration_policy_bundle \<Rightarrow> collaboration_policy_target list \<Rightarrow>
     collaboration_policy_evaluation_request \<Rightarrow> bool" where
  "policy_needs_approval bundle approvals request \<longleftrightarrow>
     (\<exists>s \<in> set (bd_statements bundle). statement_matches (er_target request) s \<and>
        st_effect s = EffectRequireLocalApproval) \<or> er_target request \<in> set approvals"

lemma evaluate_exact:
  assumes ctx: "CollaborationPolicyEvaluationContext_new auth claims controls denials approvals = Inr context"
  shows "evaluate_collaboration_policy bundle context request usage = Allow \<longleftrightarrow>
      policy_permits bundle auth claims controls denials request usage \<and>
      (er_fresh_local_approval_proven request \<or> \<not> policy_needs_approval bundle approvals request)"
    and "evaluate_collaboration_policy bundle context request usage = RequireLocalApproval \<longleftrightarrow>
      policy_permits bundle auth claims controls denials request usage \<and>
      \<not> er_fresh_local_approval_proven request \<and> policy_needs_approval bundle approvals request"
proof -
  let ?t = "er_target request"
  let ?S = "{s \<in> set (bd_statements bundle). statement_matches ?t s}"
  have claims: "list_ex (\<lambda>claim. binary_search_by (\<lambda>c. cmp c claim) (cx_proven_harness_claims context) = None)
      (bd_required_harness_claims bundle) \<longleftrightarrow> \<not> set (bd_required_harness_claims bundle) \<subseteq> set claims"
    by (auto simp: list_ex_iff context_new_eq(5) [OF ctx])
  note facts = claims context_new_eq(1-4) [OF ctx]
  show "evaluate_collaboration_policy bundle context request usage = Allow \<longleftrightarrow>
      policy_permits bundle auth claims controls denials request usage \<and>
      (er_fresh_local_approval_proven request \<or> \<not> policy_needs_approval bundle approvals request)"
    unfolding evaluate_collaboration_policy_def matching_effect_eq policy_permits_def policy_needs_approval_def
      Let_def facts
    using exceeded_limit_iff [of "bd_limits bundle" usage "er_cost request"]
    by (auto split: option.split)
  show "evaluate_collaboration_policy bundle context request usage = RequireLocalApproval \<longleftrightarrow>
      policy_permits bundle auth claims controls denials request usage \<and>
      \<not> er_fresh_local_approval_proven request \<and> policy_needs_approval bundle approvals request"
    unfolding evaluate_collaboration_policy_def matching_effect_eq policy_permits_def policy_needs_approval_def
      Let_def facts
    using exceeded_limit_iff [of "bd_limits bundle" usage "er_cost request"]
    by (auto split: option.split)
qed

text \<open>
  C17: The evaluator decides by exactly the published intersection. Over the values the
  local context was made from, in whatever order they were given, an action is let through
  only if some statement of the accepted bundle names exactly this action and resource,
  none that does denies it, the local user holds it, the harness controls it and proves
  every required claim, no local denial names it, and every finite limit still covers the
  use plus the cost without overflow; it then still waits for a fresh approval exactly when
  a matching statement or a local requirement asks for one.
\<close>
theorem policy_decision_exact:
  assumes "CollaborationPolicyEvaluationContext_new auth claims controls denials approvals = Inr context"
  shows "(evaluate_collaboration_policy bundle context request usage = Allow \<longleftrightarrow>
      policy_permits bundle auth claims controls denials request usage \<and>
      (er_fresh_local_approval_proven request \<or> \<not> policy_needs_approval bundle approvals request)) \<and>
    (evaluate_collaboration_policy bundle context request usage = RequireLocalApproval \<longleftrightarrow>
      policy_permits bundle auth claims controls denials request usage \<and>
      \<not> er_fresh_local_approval_proven request \<and> policy_needs_approval bundle approvals request)"
  using evaluate_exact [OF assms] by blast

fun decision_rank :: "collaboration_policy_decision \<Rightarrow> nat" where
  "decision_rank (Deny _) = 0"
| "decision_rank RequireLocalApproval = 1"
| "decision_rank Allow = 2"

lemma decision_rank_le:
  "(d = Allow \<Longrightarrow> e = Allow) \<Longrightarrow> (d = RequireLocalApproval \<Longrightarrow> e = Allow \<or> e = RequireLocalApproval) \<Longrightarrow>
   decision_rank d \<le> decision_rank e"
  by (cases d; cases e) auto

text \<open>
  C18: Local controls can only tighten an accepted bundle. Taking away local authority,
  harness controls or proven claims, or adding local denials or approval requirements,
  never turns a denial into anything else, nor a required approval into a permission.
\<close>
theorem local_controls_only_tighten:
  assumes "CollaborationPolicyEvaluationContext_new auth claims controls denials approvals = Inr context"
    and "CollaborationPolicyEvaluationContext_new auth' claims' controls' denials' approvals' = Inr context'"
    and "set auth' \<subseteq> set auth" "set claims' \<subseteq> set claims" "set controls' \<subseteq> set controls"
    and "set denials \<subseteq> set denials'" "set approvals \<subseteq> set approvals'"
  shows "decision_rank (evaluate_collaboration_policy bundle context' request usage) \<le>
    decision_rank (evaluate_collaboration_policy bundle context request usage)"
proof (rule decision_rank_le)
  note exact = evaluate_exact [OF assms(1), of "bundle" request usage]
    and exact' = evaluate_exact [OF assms(2), of "bundle" request usage]
  have permits: "policy_permits bundle auth claims controls denials request usage"
    if "policy_permits bundle auth' claims' controls' denials' request usage"
    using that assms(3-6) unfolding policy_permits_def Let_def by blast
  have needs: "policy_needs_approval bundle approvals' request" if "policy_needs_approval bundle approvals request"
    using that assms(7) unfolding policy_needs_approval_def by blast
  show "evaluate_collaboration_policy bundle context request usage = Allow"
    if "evaluate_collaboration_policy bundle context' request usage = Allow"
    using that permits needs unfolding exact exact' by blast
  show "evaluate_collaboration_policy bundle context request usage = Allow \<or>
      evaluate_collaboration_policy bundle context request usage = RequireLocalApproval"
    if "evaluate_collaboration_policy bundle context' request usage = RequireLocalApproval"
    using that permits unfolding exact exact' by blast
qed

section \<open>Canonical bundles\<close>

lemma windows2_any_sort: "windows2_any (=) (sort xs) \<longleftrightarrow> \<not> distinct xs" for xs :: "'a :: linorder list"
  using windows2_any_sorted_distinct [of "\<lambda>x. x" "sort xs"] by simp

lemma bundle_new_eq_Inr:
  "CollaborationPolicyBundle_new version name guidance statements claims limits = Inr bundle \<longleftrightarrow>
     validate_collaboration_policy_name name = Inr () \<and>
     (\<forall>g. guidance = Some g \<longrightarrow> g \<noteq> [] \<and> length g \<le> MAX_COLLABORATION_POLICY_GUIDANCE_BYTES) \<and>
     length statements \<le> 256 \<and> distinct (map st_statement_id statements) \<and>
     length claims \<le> 64 \<and> policy_claims claims = Inr claims \<and> distinct claims \<and>
     bundle = \<lparr>bd_version = version, bd_name = name, bd_guidance = guidance,
       bd_statements = sort_key st_statement_id statements, bd_required_harness_claims = sort claims,
       bd_limits = limits\<rparr>" (is "?l \<longleftrightarrow> ?r")
proof -
  have ids: "windows2_any (\<lambda>a b. st_statement_id a = st_statement_id b) (sort_key st_statement_id statements) \<longleftrightarrow>
      \<not> distinct (map st_statement_id statements)"
    using windows2_any_sorted_distinct [of st_statement_id "sort_key st_statement_id statements"]
    by (simp add: distinct_map)
  have guidance: "transpose_map (\<lambda>v. bounded_text v f m) guidance = Inr g \<longleftrightarrow>
      g = guidance \<and> (\<forall>v. guidance = Some v \<longrightarrow> v \<noteq> [] \<and> length v \<le> m)" for f m g
    by (cases guidance) auto
  show ?thesis
    by (auto simp: CollaborationPolicyBundle_new_def guidance Let_def ids windows2_any_sort
        MAX_COLLABORATION_POLICY_STATEMENTS_def MAX_COLLABORATION_POLICY_HARNESS_CLAIMS_def
        dest: policy_claims_same split: if_splits)
qed

lemma policy_claims_mset:
  assumes "policy_claims cs = Inr cs" and "mset ds = mset cs"
  shows "policy_claims ds = Inr ds"
proof -
  let ?f = "\<lambda>v. canonical_namespaced_identifier v ''collaboration_policy_harness_claim''
      MAX_COLLABORATION_POLICY_HARNESS_CLAIM_BYTES"
  have "?f c = Inr c" if "c \<in> set cs" for c
    using assms(1) that by (auto simp: collect_eq_Inr list_all2_same)
  then have "?f c = Inr c" if "c \<in> set ds" for c
    using that mset_eq_setD [OF assms(2)] by blast
  then show ?thesis using collect_all_ok [of ds ?f "\<lambda>c. c"] by simp
qed

text \<open>
  A bundle has one canonical form. The statements and claims may be listed in any
  order: the constructed bundle is the same value, with the statements in strictly
  increasing identifier order, the claims in strictly increasing order, nothing lost and
  the collection bounds kept, so its encoding and digest do not depend on the source.
\<close>
lemma bundle_canonical:
  assumes "CollaborationPolicyBundle_new version name guidance statements claims limits = Inr bundle"
    and "mset statements' = mset statements" and "mset claims' = mset claims"
  shows "CollaborationPolicyBundle_new version name guidance statements' claims' limits = Inr bundle \<and>
    sorted_wrt (<) (map st_statement_id (bd_statements bundle)) \<and>
    sorted_wrt (<) (bd_required_harness_claims bundle) \<and>
    mset (bd_statements bundle) = mset statements \<and> mset (bd_required_harness_claims bundle) = mset claims \<and>
    length (bd_statements bundle) \<le> 256 \<and> length (bd_required_harness_claims bundle) \<le> 64"
proof -
  note facts = assms(1) [unfolded bundle_new_eq_Inr]
  have distinct: "distinct (map st_statement_id (sort_key st_statement_id statements))"
    using facts by (simp add: distinct_map)
  have sorts: "sort_key st_statement_id statements' = sort_key st_statement_id statements" "sort claims' = sort claims"
    using sort_key_canonical [OF assms(2) [symmetric] distinct]
      sort_key_canonical [OF assms(3) [symmetric], of "\<lambda>x. x"] facts by simp_all
  have "distinct (map st_statement_id statements')" "distinct claims'" "length statements' = length statements"
    "length claims' = length claims"
    using facts assms(2,3) by (metis mset_map mset_eq_imp_distinct_iff mset_eq_length)+
  then have "CollaborationPolicyBundle_new version name guidance statements' claims' limits = Inr bundle"
    using facts policy_claims_mset [OF _ assms(3)] unfolding bundle_new_eq_Inr by (simp add: sorts)
  moreover have "sorted_wrt (<) (map st_statement_id (bd_statements bundle))"
    "sorted_wrt (<) (bd_required_harness_claims bundle)"
    using facts distinct by (simp_all add: strict_sorted_iff)
  ultimately show ?thesis using facts by simp
qed

section \<open>The properties at a concrete bundle\<close>

definition sample_target :: "string \<Rightarrow> collaboration_policy_target" where
  "sample_target action = \<lparr>tg_action = action, tg_resource = None\<rparr>"

definition sample_statements :: "collaboration_policy_statement list" where
  "sample_statements =
     [\<lparr>st_statement_id = ''write'', st_effect = EffectRequireLocalApproval, st_action = ''repo.write'', st_resource = None\<rparr>,
      \<lparr>st_statement_id = ''read'', st_effect = EffectAllow, st_action = ''repo.read'', st_resource = None\<rparr>]"

definition sample_limits :: collaboration_policy_limits where
  "sample_limits = \<lparr>lm_duration_milliseconds = None, lm_turns = Some 3, lm_tokens = None, lm_concurrent_requests = None\<rparr>"

definition sample_bundle :: collaboration_policy_bundle where
  "sample_bundle = \<lparr>bd_version = application_v1, bd_name = ''pair'', bd_guidance = None,
     bd_statements = sort_key st_statement_id sample_statements, bd_required_harness_claims = [''host.sandbox''],
     bd_limits = sample_limits\<rparr>"

definition sample_action :: "string \<Rightarrow> collaboration_policy_evaluation_request" where
  "sample_action action = \<lparr>er_target = sample_target action,
     er_cost = \<lparr>co_turns = 1, co_tokens = 0, co_concurrent_requests = 0\<rparr>, er_fresh_local_approval_proven = False\<rparr>"

definition sample_usage :: "u64 \<Rightarrow> collaboration_policy_usage" where
  "sample_usage turns = \<lparr>us_elapsed_milliseconds = 0, us_turns = turns, us_tokens = 0, us_concurrent_requests = 0\<rparr>"

abbreviation "sample_targets \<equiv> [sample_target ''repo.write'', sample_target ''repo.read'']"

lemma sample_context_new:
  "\<exists>context. CollaborationPolicyEvaluationContext_new sample_targets [''host.sandbox''] sample_targets [] [] = Inr context"
  "\<exists>context. CollaborationPolicyEvaluationContext_new sample_targets [''host.sandbox''] sample_targets
     [sample_target ''repo.write''] [] = Inr context"
proof -
  have claims: "policy_claims [''host.sandbox''] = Inr [''host.sandbox'']" by code_simp
  have "sample_target ''repo.write'' \<noteq> sample_target ''repo.read''" by (simp add: sample_target_def)
  then show "\<exists>context. CollaborationPolicyEvaluationContext_new sample_targets [''host.sandbox''] sample_targets [] [] = Inr context"
    "\<exists>context. CollaborationPolicyEvaluationContext_new sample_targets [''host.sandbox''] sample_targets
       [sample_target ''repo.write''] [] = Inr context"
    unfolding CollaborationPolicyEvaluationContext_new_def claims
    by (auto simp: canonicalize_targets_eq_Inr Let_def windows2_any_sort MAX_COLLABORATION_POLICY_HARNESS_CLAIMS_def)
qed

lemmas sample_policy_defs = policy_permits_def policy_needs_approval_def Let_def sample_bundle_def sample_statements_def
  statement_matches_def sample_action_def sample_target_def sample_usage_def within_budget_def sample_limits_def

theorem policy_decision_exact_witness:
  "\<exists>context. CollaborationPolicyEvaluationContext_new sample_targets [''host.sandbox''] sample_targets [] [] = Inr context \<and>
     evaluate_collaboration_policy sample_bundle context (sample_action ''repo.read'') (sample_usage 2) = Allow \<and>
     evaluate_collaboration_policy sample_bundle context (sample_action ''repo.write'') (sample_usage 2) = RequireLocalApproval \<and>
     evaluate_collaboration_policy sample_bundle context (sample_action ''repo.read'') (sample_usage 3) \<noteq> Allow"
proof -
  obtain cx where ctx:
    "CollaborationPolicyEvaluationContext_new sample_targets [''host.sandbox''] sample_targets [] [] = Inr cx"
    using sample_context_new(1) by blast
  note exact = policy_decision_exact [OF ctx, of sample_bundle]
  have "evaluate_collaboration_policy sample_bundle cx (sample_action ''repo.read'') (sample_usage 2) = Allow"
    using exact [of "sample_action ''repo.read''" "sample_usage 2"] by (simp add: sample_policy_defs)
  moreover have "evaluate_collaboration_policy sample_bundle cx (sample_action ''repo.write'') (sample_usage 2) = RequireLocalApproval"
    using exact [of "sample_action ''repo.write''" "sample_usage 2"] by (simp add: sample_policy_defs)
  moreover have "evaluate_collaboration_policy sample_bundle cx (sample_action ''repo.read'') (sample_usage 3) \<noteq> Allow"
    using exact [of "sample_action ''repo.read''" "sample_usage 3"] by (simp add: sample_policy_defs)
  ultimately show ?thesis using ctx by blast
qed

theorem local_controls_only_tighten_witness:
  "\<exists>context context'.
     CollaborationPolicyEvaluationContext_new sample_targets [''host.sandbox''] sample_targets [] [] = Inr context \<and>
     CollaborationPolicyEvaluationContext_new sample_targets [''host.sandbox''] sample_targets
       [sample_target ''repo.write''] [] = Inr context' \<and>
     decision_rank (evaluate_collaboration_policy sample_bundle context' (sample_action ''repo.write'') (sample_usage 0)) \<le>
       decision_rank (evaluate_collaboration_policy sample_bundle context (sample_action ''repo.write'') (sample_usage 0))"
  using sample_context_new local_controls_only_tighten [of sample_targets "[''host.sandbox'']" sample_targets "[]" "[]" _
      sample_targets "[''host.sandbox'']" sample_targets "[sample_target ''repo.write'']" "[]"]
  by fastforce

lemma sample_bundle_new:
  "CollaborationPolicyBundle_new application_v1 ''pair'' None sample_statements [''host.sandbox''] sample_limits = Inr sample_bundle"
proof -
  have "validate_collaboration_policy_name ''pair'' = Inr ()" by code_simp
  moreover have "policy_claims [''host.sandbox''] = Inr [''host.sandbox'']" by code_simp
  ultimately show ?thesis
    by (simp add: bundle_new_eq_Inr sample_bundle_def sample_statements_def)
qed

end
