(* ===== verification/Domain_Application.thy ===== *)
theory Domain_Application
  imports Domain_Membership Collaboration_Policy
begin

text \<open>
  Application messages of \<open>crates/Konclave.DomainCore\<close>: content and message
  constructors (\<open>model.rs\<close>), delivery receipts and their folding
  (\<open>request_delivery.rs\<close>), the operations a private request-service channel admits
  (\<open>request_service.rs\<close>) and the correlation of an answer with a local request
  (\<open>response_continuation.rs\<close>).
\<close>

section \<open>Delivery outcomes\<close>

definition MAX_REQUEST_ADMISSION_UNIX_MILLISECONDS :: u64 where
  "MAX_REQUEST_ADMISSION_UNIX_MILLISECONDS = 9007199254740991"

datatype request_admission_expiry = RequestAdmissionExpiry (expiry_unix_milliseconds: u64)

definition RequestAdmissionExpiry_new :: "u64 \<Rightarrow> request_delivery_error + request_admission_expiry" where
  "RequestAdmissionExpiry_new unix_milliseconds =
     (if unix_milliseconds = 0 \<or> unix_milliseconds > MAX_REQUEST_ADMISSION_UNIX_MILLISECONDS
      then Inl InvalidExpiry else Inr (RequestAdmissionExpiry unix_milliseconds))"

definition expiry_is_expired :: "request_admission_expiry \<Rightarrow> u64 \<Rightarrow> bool" where
  "expiry_is_expired e now_unix_milliseconds = (now_unix_milliseconds \<ge> expiry_unix_milliseconds e)"

datatype request_delivery_outcome =
  Admitted | Responded | ExpiredBeforeAdmission | EndedWithoutResponse

fun outcome_wire_value :: "request_delivery_outcome \<Rightarrow> u32" where
  "outcome_wire_value Admitted = 1"
| "outcome_wire_value Responded = 2"
| "outcome_wire_value ExpiredBeforeAdmission = 3"
| "outcome_wire_value EndedWithoutResponse = 4"

definition outcome_from_wire :: "u32 \<Rightarrow> request_delivery_error + request_delivery_outcome" where
  "outcome_from_wire value =
     (if value = 1 then Inr Admitted else if value = 2 then Inr Responded
      else if value = 3 then Inr ExpiredBeforeAdmission else if value = 4 then Inr EndedWithoutResponse
      else Inl UnknownOutcome)"

definition observe_request_delivery ::
    "request_delivery_outcome option \<Rightarrow> request_delivery_outcome \<Rightarrow>
     request_delivery_error + request_delivery_outcome" where
  "observe_request_delivery current observed =
     (case current of
        None \<Rightarrow> Inr observed
      | Some existing \<Rightarrow>
          if existing = observed then Inr existing
          else if existing = Admitted \<and> observed = ExpiredBeforeAdmission then Inl ConflictingOutcome
          else if existing = Admitted then Inr observed
          else if observed = Admitted then Inr existing
          else Inl ConflictingOutcome)"

section \<open>Content\<close>

definition MAX_APPLICATION_MESSAGE_BYTES :: usize where "MAX_APPLICATION_MESSAGE_BYTES = 256 * 1024"
definition MAX_TEXT_BODY_BYTES :: usize where
  "MAX_TEXT_BODY_BYTES = MAX_APPLICATION_MESSAGE_BYTES - 1024"
definition MAX_REPEAT_PAIRING_CAPABILITY_BYTES :: usize where
  "MAX_REPEAT_PAIRING_CAPABILITY_BYTES = 16 * 1024"

definition validate_application_text :: "string \<Rightarrow> string \<Rightarrow> konclave_domain_error + string" where
  "validate_application_text body field =
     (if body = [] then Inl (EmptyText field)
      else if length body > MAX_TEXT_BODY_BYTES
      then Inl (TextTooLong field MAX_TEXT_BODY_BYTES (length body))
      else Inr body)"

record request_delivery_options =
  do_expiry :: "request_admission_expiry option"

record directed_request =
  dr_target_device_id :: device_id
  dr_body :: string
  dr_delivery :: "request_delivery_options option"

definition DirectedRequest_new :: "device_id \<Rightarrow> string \<Rightarrow> konclave_domain_error + directed_request" where
  "DirectedRequest_new target_device_id body =
     and_then (validate_application_text body ''directed_request_body'') (\<lambda>body.
     Inr \<lparr>dr_target_device_id = target_device_id, dr_body = body, dr_delivery = None\<rparr>)"

definition with_delivery :: "directed_request \<Rightarrow> request_delivery_options \<Rightarrow> directed_request" where
  "with_delivery request options = request\<lparr>dr_delivery := Some options\<rparr>"

datatype repeat_pairing_operation_id =
  RepeatPairingOperationId (repeat_pairing_operation_id_bytes: bytes)

record repeat_pairing_request =
  rpq_operation_id :: repeat_pairing_operation_id
  rpq_target_device_id :: device_id
  rpq_new_conversation_id :: conversation_id
  rpq_expires_at_unix_seconds :: u64

definition RepeatPairingRequest_new ::
    "repeat_pairing_operation_id \<Rightarrow> device_id \<Rightarrow> conversation_id \<Rightarrow> u64 \<Rightarrow>
     konclave_domain_error + repeat_pairing_request" where
  "RepeatPairingRequest_new operation_id target_device_id new_conversation_id expires_at_unix_seconds =
     and_then (require_positive expires_at_unix_seconds ''repeat_pairing_expires_at_unix_seconds'') (\<lambda>_.
     Inr \<lparr>rpq_operation_id = operation_id, rpq_target_device_id = target_device_id,
          rpq_new_conversation_id = new_conversation_id,
          rpq_expires_at_unix_seconds = expires_at_unix_seconds\<rparr>)"

record repeat_pairing_response =
  rps_operation_id :: repeat_pairing_operation_id
  rps_requester_device_id :: device_id
  rps_new_conversation_id :: conversation_id
  rps_capability :: string

definition RepeatPairingResponse_new ::
    "repeat_pairing_operation_id \<Rightarrow> device_id \<Rightarrow> conversation_id \<Rightarrow> string \<Rightarrow>
     konclave_domain_error + repeat_pairing_response" where
  "RepeatPairingResponse_new operation_id requester_device_id new_conversation_id capability =
     and_then (require_length_range (length capability) 1 MAX_REPEAT_PAIRING_CAPABILITY_BYTES
       ''repeat_pairing_capability'') (\<lambda>_.
     Inr \<lparr>rps_operation_id = operation_id, rps_requester_device_id = requester_device_id,
          rps_new_conversation_id = new_conversation_id, rps_capability = capability\<rparr>)"

datatype application_content =
    is_Text: Text string
  | is_DirectedRequest: DirectedRequest directed_request
  | is_RequestDeliveryOutcome: RequestDeliveryOutcome request_delivery_outcome
  | RepeatPairingRequest repeat_pairing_request
  | RepeatPairingResponse repeat_pairing_response
  | CollaborationPolicyProposal collaboration_policy_proposal
  | CollaborationPolicyResponse collaboration_policy_response
  | CollaborationPolicyRevocation collaboration_policy_revocation

fun is_internal :: "application_content \<Rightarrow> bool" where
  "is_internal (RepeatPairingRequest _) = True"
| "is_internal (RepeatPairingResponse _) = True"
| "is_internal _ = False"

definition ApplicationContent_text :: "string \<Rightarrow> konclave_domain_error + application_content" where
  "ApplicationContent_text body =
     and_then (validate_application_text body ''text_body'') (\<lambda>body. Inr (Text body))"

definition ApplicationContent_directed_request ::
    "device_id \<Rightarrow> string \<Rightarrow> konclave_domain_error + application_content" where
  "ApplicationContent_directed_request target_device_id body =
     and_then (DirectedRequest_new target_device_id body) (\<lambda>request. Inr (DirectedRequest request))"

record application_message =
  am_version :: protocol_version
  am_message_id :: message_id
  am_sender_counter :: u64
  am_sent_at_unix_milliseconds :: u64
  am_reply_to :: "message_id option"
  am_content :: application_content

definition ApplicationMessage_new ::
    "protocol_version \<Rightarrow> message_id \<Rightarrow> u64 \<Rightarrow> u64 \<Rightarrow> message_id option \<Rightarrow> application_content \<Rightarrow>
     konclave_domain_error + application_message" where
  "ApplicationMessage_new version message_id sender_counter sent_at_unix_milliseconds reply_to content =
     (if is_RequestDeliveryOutcome content \<and>
         (reply_to = None \<or> reply_to = Some message_id \<or> content = RequestDeliveryOutcome Responded)
      then Inl (RequestDelivery InvalidReceipt)
      else
        and_then (require_positive sender_counter ''sender_counter'') (\<lambda>_.
        Inr \<lparr>am_version = version, am_message_id = message_id, am_sender_counter = sender_counter,
             am_sent_at_unix_milliseconds = sent_at_unix_milliseconds, am_reply_to = reply_to,
             am_content = content\<rparr>))"

section \<open>Receipts\<close>

definition validate_request_delivery_receipt ::
    "application_message \<Rightarrow> device_id \<Rightarrow> application_message \<Rightarrow> request_delivery_error + unit" where
  "validate_request_delivery_receipt original authenticated_receipt_sender receipt =
     (case am_content original of
        DirectedRequest request \<Rightarrow>
          (case am_content receipt of
             RequestDeliveryOutcome outcome \<Rightarrow>
               and_then (ok_or InvalidReceipt (dr_delivery request)) (\<lambda>options.
               if dr_target_device_id request \<noteq> authenticated_receipt_sender \<or>
                  am_reply_to receipt \<noteq> Some (am_message_id original) \<or>
                  am_message_id receipt = am_message_id original \<or>
                  outcome = Responded \<or>
                  outcome = ExpiredBeforeAdmission \<and> do_expiry options = None
               then Inl InvalidReceipt
               else
                 (case do_expiry options of
                    Some expiry \<Rightarrow>
                      if (outcome = Admitted \<or> outcome = ExpiredBeforeAdmission) \<and>
                         expiry_is_expired expiry (am_sent_at_unix_milliseconds receipt) \<noteq>
                           (outcome = ExpiredBeforeAdmission)
                      then Inl InvalidReceipt else Inr ()
                  | None \<Rightarrow> Inr ()))
           | _ \<Rightarrow> Inl InvalidReceipt)
      | _ \<Rightarrow> Inl InvalidReceipt)"

section \<open>The request-service channel\<close>

datatype request_service_reply_decision = New | Retry

definition classify_request_service_reply ::
    "message_id option \<Rightarrow> message_id \<Rightarrow> request_service_error + request_service_reply_decision" where
  "classify_request_service_reply previous_reply candidate_reply =
     (case previous_reply of
        None \<Rightarrow> Inr New
      | Some previous \<Rightarrow> if previous = candidate_reply then Inr Retry else Inl ReplyAlreadyCompleted)"

record request_service_request =
  rsr_conversation_id :: conversation_id
  rsr_authenticated_sender :: device_id
  rsr_message :: application_message

definition validate_reply ::
    "request_service_channel \<Rightarrow> conversation_state \<Rightarrow> device_id \<Rightarrow> application_content \<Rightarrow>
     message_id option \<Rightarrow> request_service_request option \<Rightarrow> request_service_error + unit" where
  "validate_reply ch state authenticated_sender content reply_to original =
     (if reply_to = None then Inl UnsolicitedText
      else if authenticated_sender \<noteq> ch_operator_device_id ch then Inl RequesterCannotReply
      else if state_member state (ch_requester_device_id ch) = None then Inl SenderNotMember
      else
        and_then (ok_or MissingRequest original) (\<lambda>original.
        if rsr_conversation_id original \<noteq> ch_conversation_id ch \<or>
           rsr_authenticated_sender original \<noteq> ch_requester_device_id ch \<or>
           Some (am_message_id (rsr_message original)) \<noteq> reply_to
        then Inl InvalidReply
        else
          (case am_content (rsr_message original) of
             DirectedRequest request \<Rightarrow>
               if dr_target_device_id request \<noteq> ch_operator_device_id ch then Inl InvalidReply
               else if is_RequestDeliveryOutcome content \<and> dr_delivery request = None
               then Inl InvalidReply
               else Inr ()
           | _ \<Rightarrow> Inl InvalidReply)))"

definition validate_application ::
    "request_service_channel \<Rightarrow> conversation_state \<Rightarrow> device_id \<Rightarrow> application_content \<Rightarrow>
     message_id option \<Rightarrow> request_service_request option \<Rightarrow> request_service_error + unit" where
  "validate_application ch state authenticated_sender content reply_to original =
     and_then (validate_membership ch state) (\<lambda>_.
     if state_member state authenticated_sender = None then Inl SenderNotMember
     else
       (case content of
          DirectedRequest request \<Rightarrow>
            if authenticated_sender \<noteq> ch_requester_device_id ch then Inl OperatorCannotRequest
            else if dr_target_device_id request \<noteq> ch_operator_device_id ch then Inl InvalidTarget
            else Inr ()
        | Text _ \<Rightarrow> validate_reply ch state authenticated_sender content reply_to original
        | RequestDeliveryOutcome _ \<Rightarrow> validate_reply ch state authenticated_sender content reply_to original
        | CollaborationPolicyProposal _ \<Rightarrow> Inr ()
        | CollaborationPolicyResponse _ \<Rightarrow> Inr ()
        | CollaborationPolicyRevocation _ \<Rightarrow> Inr ()
        | RepeatPairingRequest _ \<Rightarrow> Inl UnsupportedOperation
        | RepeatPairingResponse _ \<Rightarrow> Inl UnsupportedOperation))"

section \<open>Response continuation\<close>

datatype response_continuation_direction = Outbound | Inbound

record response_continuation_message =
  rc_conversation :: conversation_id
  rc_sender :: device_id
  rc_direction :: response_continuation_direction
  rc_complete :: bool
  rc_message :: application_message

record response_continuation_binding =
  rb_request_message_id :: message_id
  rb_response_message_id :: message_id

datatype response_continuation_error =
    InvalidRequestOrigin | RequestNotLocal | RequestNotDirected | LocalTarget
  | InvalidResponseOrigin | ContinuationConversationMismatch | ResponseNotText | SenderMismatch
  | ReplyMismatch

definition validate_response_continuation ::
    "device_id \<Rightarrow> response_continuation_message \<Rightarrow> response_continuation_message \<Rightarrow>
     response_continuation_error + response_continuation_binding" where
  "validate_response_continuation local_device request response =
     (if rc_direction request \<noteq> Outbound \<or> \<not> rc_complete request then Inl InvalidRequestOrigin
      else if rc_sender request \<noteq> local_device then Inl RequestNotLocal
      else
        (case am_content (rc_message request) of
           DirectedRequest directed \<Rightarrow>
             if dr_target_device_id directed = local_device then Inl LocalTarget
             else if rc_direction response \<noteq> Inbound \<or> \<not> rc_complete response then Inl InvalidResponseOrigin
             else if rc_conversation request \<noteq> rc_conversation response then Inl ContinuationConversationMismatch
             else if \<not> is_Text (am_content (rc_message response)) then Inl ResponseNotText
             else if rc_sender response \<noteq> dr_target_device_id directed then Inl SenderMismatch
             else if am_reply_to (rc_message response) \<noteq> Some (am_message_id (rc_message request)) \<or>
                     am_message_id (rc_message response) = am_message_id (rc_message request)
             then Inl ReplyMismatch
             else Inr \<lparr>rb_request_message_id = am_message_id (rc_message request),
                       rb_response_message_id = am_message_id (rc_message response)\<rparr>
         | _ \<Rightarrow> Inl RequestNotDirected))"

section \<open>Folding observations\<close>

fun observe_all ::
    "request_delivery_outcome option \<Rightarrow> request_delivery_outcome list \<Rightarrow>
     request_delivery_error + request_delivery_outcome option" where
  "observe_all current [] = Inr current"
| "observe_all current (observed # rest) =
     and_then (observe_request_delivery current observed) (\<lambda>next_state. observe_all (Some next_state) rest)"

lemma observe_some:
  "observe_request_delivery (Some e) x = Inr r \<longleftrightarrow>
     (x = e \<and> r = e) \<or> (e = Admitted \<and> x \<noteq> Admitted \<and> x \<noteq> ExpiredBeforeAdmission \<and> r = x) \<or>
     (e \<noteq> Admitted \<and> x = Admitted \<and> r = e)"
  by (cases e; cases x) (auto simp: observe_request_delivery_def)

lemma observe_all_some:
  "observe_all (Some e) xs = Inr (Some r) \<longleftrightarrow>
     (r = e \<or> r \<in> set xs) \<and> (e = r \<or> e = Admitted) \<and> (\<forall>t \<in> set xs. t = r \<or> t = Admitted) \<and>
     (r = ExpiredBeforeAdmission \<longrightarrow> e = r)"
proof (induction xs arbitrary: e)
  case (Cons x xs)
  show ?case
    by (cases e; cases x) (auto simp: Cons observe_request_delivery_def)
qed auto

text \<open>
  C21: Folding the delivery receipts of one request yields a result exactly when they do not
  contradict each other: at most one terminal outcome occurs, admissions may surround it,
  and that outcome is the result, so a terminal result is never reopened or changed. The
  one place where the arrival order matters is expiry: it must be the first observation,
  because after an observed admission it is refused while the opposite order is accepted.
\<close>
theorem delivery_observations_fold:
  "observe_all None xs = Inr (Some r) \<longleftrightarrow>
     r \<in> set xs \<and> (\<forall>t \<in> set xs. t = r \<or> t = Admitted) \<and>
     (r = ExpiredBeforeAdmission \<longrightarrow> hd xs = ExpiredBeforeAdmission)"
proof (cases xs)
  case (Cons x ys)
  have step: "observe_all None xs = observe_all (Some x) ys"
    unfolding Cons by (simp add: observe_request_delivery_def)
  show ?thesis unfolding step observe_all_some unfolding Cons by auto
qed simp

theorem delivery_observations_fold_witness:
  "observe_all None [Admitted, EndedWithoutResponse, Admitted] = Inr (Some EndedWithoutResponse) \<and>
   observe_all None [ExpiredBeforeAdmission, Admitted] = Inr (Some ExpiredBeforeAdmission) \<and>
   observe_all None [Admitted, ExpiredBeforeAdmission] \<noteq> Inr (Some ExpiredBeforeAdmission)"
  using delivery_observations_fold [of "[Admitted, EndedWithoutResponse, Admitted]" EndedWithoutResponse]
    delivery_observations_fold [of "[ExpiredBeforeAdmission, Admitted]" ExpiredBeforeAdmission]
    delivery_observations_fold [of "[Admitted, ExpiredBeforeAdmission]" ExpiredBeforeAdmission]
  by (simp del: observe_all.simps)

section \<open>What a request-service channel admits\<close>

lemma validate_channel_members_only:
  "validate_channel_members ch ms = Inr () \<longleftrightarrow>
     (\<forall>m \<in> set ms. mem_device_id m = ch_operator_device_id ch \<or>
        mem_device_id m = ch_requester_device_id ch \<and> mem_role m = Member)"
  by (induction ms) auto

lemma state_member_in:
  "state_member state d = Some m \<Longrightarrow> m \<in> set (cs_members state) \<and> mem_device_id m = d"
  by (auto simp: state_member_def find_member_def find_Some_iff in_set_conv_nth)

lemma validate_reply_eq_Inr:
  "validate_reply ch state sender content reply_to original = Inr () \<longleftrightarrow>
     sender = ch_operator_device_id ch \<and> state_member state (ch_requester_device_id ch) \<noteq> None \<and>
     (\<exists>request directed. original = Some request \<and> rsr_conversation_id request = ch_conversation_id ch \<and>
        rsr_authenticated_sender request = ch_requester_device_id ch \<and>
        reply_to = Some (am_message_id (rsr_message request)) \<and>
        am_content (rsr_message request) = DirectedRequest directed \<and>
        dr_target_device_id directed = ch_operator_device_id ch \<and>
        (is_RequestDeliveryOutcome content \<longrightarrow> dr_delivery directed \<noteq> None))"
proof (cases original)
  case None
  then show ?thesis by (simp add: validate_reply_def)
next
  case (Some request)
  then show ?thesis
    by (cases "am_content (rsr_message request)") (auto simp: validate_reply_def)
qed

text \<open>
  C19: A request-service channel carries requests one way and answers the other. Whatever
  message is accepted, the conversation has no member beside the two endpoints and the
  sender is one of them; a request is accepted only from the requester to the operator; a
  text or a receipt only from the operator, only as the answer to a request that the still
  enrolled requester really sent to it on this channel, and a receipt only if that request
  asked for receipts; pairing control is never accepted.
\<close>
theorem request_service_directions:
  assumes "validate_application ch state sender content reply_to original = Inr ()"
  shows "(\<forall>m \<in> set (cs_members state). mem_device_id m \<in> {ch_operator_device_id ch, ch_requester_device_id ch}) \<and>
    sender \<in> {ch_operator_device_id ch, ch_requester_device_id ch} \<and> \<not> is_internal content \<and>
    (\<forall>request. content = DirectedRequest request \<longrightarrow>
       sender = ch_requester_device_id ch \<and> dr_target_device_id request = ch_operator_device_id ch) \<and>
    (is_Text content \<or> is_RequestDeliveryOutcome content \<longrightarrow>
       sender = ch_operator_device_id ch \<and> state_member state (ch_requester_device_id ch) \<noteq> None \<and>
       (\<exists>request directed. original = Some request \<and> rsr_conversation_id request = ch_conversation_id ch \<and>
          rsr_authenticated_sender request = ch_requester_device_id ch \<and>
          reply_to = Some (am_message_id (rsr_message request)) \<and>
          am_content (rsr_message request) = DirectedRequest directed \<and>
          dr_target_device_id directed = ch_operator_device_id ch \<and>
          (is_RequestDeliveryOutcome content \<longrightarrow> dr_delivery directed \<noteq> None)))"
proof -
  from assms have members: "validate_channel_members ch (cs_members state) = Inr ()"
    and present: "state_member state sender \<noteq> None"
    by (auto simp: validate_application_def validate_membership_def split: if_splits)
  have "\<forall>m \<in> set (cs_members state). mem_device_id m \<in> {ch_operator_device_id ch, ch_requester_device_id ch}"
    using members by (auto simp: validate_channel_members_only)
  moreover have "sender \<in> {ch_operator_device_id ch, ch_requester_device_id ch}"
    using present state_member_in calculation by blast
  moreover have "\<not> is_internal content \<and> (\<forall>request. content = DirectedRequest request \<longrightarrow>
       sender = ch_requester_device_id ch \<and> dr_target_device_id request = ch_operator_device_id ch)"
    using assms by (auto simp: validate_application_def split: if_splits application_content.splits)
  moreover have "validate_reply ch state sender content reply_to original = Inr ()"
    if "is_Text content \<or> is_RequestDeliveryOutcome content"
    using assms that by (auto simp: validate_application_def split: if_splits application_content.splits)
  ultimately show ?thesis unfolding validate_reply_eq_Inr by blast
qed

text \<open>
  C20: From what the channel admits the requester can continue, unless the local records say
  otherwise. When a text is accepted on the channel as the answer to a request, the
  requester's correlation check accepts it and binds exactly that request and that answer,
  except for reasons the channel does not look at: the request is not a completed outbound
  record, the answer is not a completed inbound record, the two are recorded in different
  conversations, or the answer reuses the message identifier of the request. Each of these
  is refused with its own error, in this order; sender, target, content and reply reference
  never cause a refusal any more.
\<close>
theorem channel_answer_continues:
  assumes "RequestServiceChannel_new conversation_id operator_device_id requester_device_id = Inr ch"
    and "validate_application ch state (rc_sender response) (am_content (rc_message response))
           (am_reply_to (rc_message response))
           (Some \<lparr>rsr_conversation_id = rc_conversation request, rsr_authenticated_sender = rc_sender request,
                  rsr_message = rc_message request\<rparr>) = Inr ()"
    and "is_Text (am_content (rc_message response))"
  shows "validate_response_continuation requester_device_id request response =
    (if rc_direction request \<noteq> Outbound \<or> \<not> rc_complete request then Inl InvalidRequestOrigin
     else if rc_direction response \<noteq> Inbound \<or> \<not> rc_complete response then Inl InvalidResponseOrigin
     else if rc_conversation request \<noteq> rc_conversation response then Inl ContinuationConversationMismatch
     else if am_message_id (rc_message response) = am_message_id (rc_message request) then Inl ReplyMismatch
     else Inr \<lparr>rb_request_message_id = am_message_id (rc_message request),
               rb_response_message_id = am_message_id (rc_message response)\<rparr>)"
proof -
  have ch: "ch_operator_device_id ch \<noteq> requester_device_id" "ch_requester_device_id ch = requester_device_id"
    using assms(1) by (auto simp: RequestServiceChannel_new_def split: if_splits)
  have "validate_reply ch state (rc_sender response) (am_content (rc_message response)) (am_reply_to (rc_message response))
      (Some \<lparr>rsr_conversation_id = rc_conversation request, rsr_authenticated_sender = rc_sender request,
             rsr_message = rc_message request\<rparr>) = Inr ()"
    using assms(2,3) by (auto simp: validate_application_def split: if_splits application_content.splits)
  then show ?thesis
    using assms(3) ch unfolding validate_reply_eq_Inr
    by (auto simp: validate_response_continuation_def)
qed

section \<open>The properties at a concrete channel\<close>

definition service_operator :: device_id where "service_operator = DeviceId [1]"
definition service_requester :: device_id where "service_requester = DeviceId [2]"

definition service_channel :: request_service_channel where
  "service_channel = \<lparr>ch_conversation_id = ConversationId [7], ch_operator_device_id = service_operator,
     ch_requester_device_id = service_requester\<rparr>"

definition service_state :: conversation_state where
  "service_state = \<lparr>cs_version = application_v1, cs_conversation_id = ConversationId [7], cs_epoch = 1,
     cs_members = [\<lparr>mem_device_id = service_operator, mem_role = Administrator, mem_joined_epoch = 0\<rparr>,
                   \<lparr>mem_device_id = service_requester, mem_role = Member, mem_joined_epoch = 1\<rparr>],
     cs_consumed_invitation_ids = [], cs_request_service = Some service_channel\<rparr>"

definition service_request :: application_message where
  "service_request = \<lparr>am_version = application_v1, am_message_id = MessageId [3], am_sender_counter = 1,
     am_sent_at_unix_milliseconds = 5, am_reply_to = None,
     am_content = DirectedRequest \<lparr>dr_target_device_id = service_operator, dr_body = ''build'', dr_delivery = None\<rparr>\<rparr>"

definition service_answer :: application_message where
  "service_answer = \<lparr>am_version = application_v1, am_message_id = MessageId [4], am_sender_counter = 1,
     am_sent_at_unix_milliseconds = 9, am_reply_to = Some (MessageId [3]), am_content = Text ''done''\<rparr>"

definition service_original :: request_service_request where
  "service_original = \<lparr>rsr_conversation_id = ConversationId [7], rsr_authenticated_sender = service_requester,
     rsr_message = service_request\<rparr>"

lemmas service_defs = service_operator_def service_requester_def service_channel_def service_state_def
  service_request_def service_answer_def service_original_def

lemma service_answer_accepted:
  "validate_application service_channel service_state service_operator (am_content service_answer)
     (am_reply_to service_answer) (Some service_original) = Inr ()"
  by (simp add: validate_application_def validate_membership_def validate_reply_def state_member_def find_member_def
      service_defs)

theorem request_service_directions_witness:
  "validate_application service_channel service_state service_operator (am_content service_answer)
     (am_reply_to service_answer) (Some service_original) = Inr () \<and>
   am_reply_to service_answer = Some (am_message_id service_request)"
  using request_service_directions [OF service_answer_accepted] service_answer_accepted
  by (simp add: service_defs)

theorem channel_answer_continues_witness:
  "let request = \<lparr>rc_conversation = ConversationId [7], rc_sender = service_requester, rc_direction = Outbound,
         rc_complete = True, rc_message = service_request\<rparr>;
       response = \<lparr>rc_conversation = ConversationId [7], rc_sender = service_operator, rc_direction = Inbound,
         rc_complete = True, rc_message = service_answer\<rparr> in
     validate_response_continuation service_requester request response =
       Inr \<lparr>rb_request_message_id = MessageId [3], rb_response_message_id = MessageId [4]\<rparr> \<and>
     validate_response_continuation service_requester request
       (response\<lparr>rc_message := service_answer\<lparr>am_message_id := MessageId [3]\<rparr>\<rparr>) = Inl ReplyMismatch"
proof -
  have channel: "RequestServiceChannel_new (ConversationId [7]) service_operator service_requester = Inr service_channel"
    by (simp add: RequestServiceChannel_new_def service_defs)
  note continues = channel_answer_continues [OF channel, of service_state _
      "\<lparr>rc_conversation = ConversationId [7], rc_sender = service_requester, rc_direction = Outbound,
        rc_complete = True, rc_message = service_request\<rparr>"]
  let ?response = "\<lparr>rc_conversation = ConversationId [7], rc_sender = service_operator, rc_direction = Inbound,
        rc_complete = True, rc_message = service_answer\<rparr>"
  show ?thesis
    using service_answer_accepted [unfolded service_original_def] continues [of ?response]
      continues [of "?response\<lparr>rc_message := service_answer\<lparr>am_message_id := MessageId [3]\<rparr>\<rparr>"]
    by (simp add: service_answer_def service_request_def Let_def)
qed

end
