(* ===== verification/Trusted_Devices.thy ===== *)
theory Trusted_Devices
  imports Collaboration_Policy
begin

text \<open>
  \<open>crates/Konclave.DomainCore/src/trusted_devices.rs\<close>: local aliases for device roots,
  the classification of a stored binding against the memberships that are current now, the
  decision about one alias command, and the resolution of an alias to the conversation a
  repeat pairing starts from. Identifiers compare as their bytes.
\<close>

section \<open>Ordered identifiers\<close>

instantiation conversation_id :: linorder
begin

definition less_eq_conversation_id :: "conversation_id \<Rightarrow> conversation_id \<Rightarrow> bool" where
  "less_eq_conversation_id a b \<longleftrightarrow> conversation_id_bytes a \<le> conversation_id_bytes b"

definition less_conversation_id :: "conversation_id \<Rightarrow> conversation_id \<Rightarrow> bool" where
  "less_conversation_id a b \<longleftrightarrow> conversation_id_bytes a < conversation_id_bytes b"

instance
  by standard
    (auto simp: less_eq_conversation_id_def less_conversation_id_def conversation_id.expand)

end

text \<open>\<open>Iterator::min\<close>.\<close>

fun iter_min :: "'a :: linorder list \<Rightarrow> 'a option" where
  "iter_min [] = None"
| "iter_min (x # xs) = Some (fold min xs x)"

lemma fold_min_least:
  fixes x :: "'a :: linorder"
  shows "fold min xs x \<in> insert x (set xs) \<and> (\<forall>y \<in> insert x (set xs). fold min xs x \<le> y)"
proof -
  have "fold min xs x = Min (insert x (set xs))"
    using Min.set_eq_fold [of x xs] by simp
  then show ?thesis using Min_in [of "insert x (set xs)"] by simp
qed

lemma iter_min_eq_Some:
  "iter_min xs = Some m \<longleftrightarrow> m \<in> set xs \<and> (\<forall>x \<in> set xs. m \<le> x)"
proof (cases xs)
  case (Cons y ys)
  then show ?thesis using fold_min_least [of ys y] by (auto intro: order_antisym)
qed simp

section \<open>Aliases and bindings\<close>

definition MAX_TRUSTED_DEVICE_ALIAS_BYTES :: usize where "MAX_TRUSTED_DEVICE_ALIAS_BYTES = 32"

datatype trusted_device_alias = TrustedDeviceAlias (alias_as_str: string)

definition TrustedDeviceAlias_parse :: "string \<Rightarrow> konclave_domain_error + trusted_device_alias" where
  "TrustedDeviceAlias_parse value =
     (if value = [] \<or> length value > MAX_TRUSTED_DEVICE_ALIAS_BYTES
      then Inl (OutOfRange ''trusted_device_alias'' 1 MAX_TRUSTED_DEVICE_ALIAS_BYTES (length value))
      else if \<not> (\<forall>c \<in> set value. is_ascii_lowercase c \<or> is_ascii_digit c \<or> c = CHR ''-'') \<or>
              hd value = CHR ''-'' \<or> last value = CHR ''-''
      then Inl (NonCanonicalText ''trusted_device_alias'')
      else Inr (TrustedDeviceAlias value))"

datatype ed25519_public_key = Ed25519PublicKey (public_key_bytes: bytes)

record trusted_device_binding =
  tb_alias :: trusted_device_alias
  tb_device_id :: device_id
  tb_device_root_public_key :: ed25519_public_key

record trusted_device_evidence =
  te_conversation_id :: conversation_id
  te_device_id :: device_id
  te_device_root_public_key :: ed25519_public_key
  te_conversation_supports_repeat_pairing :: bool

datatype trusted_device_binding_status = Active | Removed | RootMismatch | Unsupported

datatype trusted_device_alias_decision = Insert | Identical | Rename | RebindStale

record trusted_device_resolution =
  tr_device_id :: device_id
  tr_device_root_public_key :: ed25519_public_key
  tr_bootstrap_conversation_id :: conversation_id

section \<open>Status, resolution and the alias decision\<close>

text \<open>The four flags of the scan over the evidence, and one turn of its loop.\<close>

record evidence_scan =
  saw_device :: bool
  saw_matching_root :: bool
  saw_compatible_root :: bool
  saw_conflicting_root :: bool

definition scan_evidence ::
    "trusted_device_binding \<Rightarrow> trusted_device_evidence \<Rightarrow> evidence_scan \<Rightarrow> evidence_scan" where
  "scan_evidence binding candidate scan =
     (if te_device_id candidate \<noteq> tb_device_id binding then scan
      else
        let scan = scan\<lparr>saw_device := True\<rparr> in
        if te_device_root_public_key candidate = tb_device_root_public_key binding
        then scan\<lparr>saw_matching_root := True,
                  saw_compatible_root :=
                    saw_compatible_root scan \<or> te_conversation_supports_repeat_pairing candidate\<rparr>
        else scan\<lparr>saw_conflicting_root := True\<rparr>)"

definition trusted_device_binding_status_of ::
    "trusted_device_binding \<Rightarrow> trusted_device_evidence list \<Rightarrow> trusted_device_binding_status" where
  "trusted_device_binding_status_of binding evidence =
     (let scan = fold (scan_evidence binding) evidence
        \<lparr>saw_device = False, saw_matching_root = False, saw_compatible_root = False,
         saw_conflicting_root = False\<rparr> in
      if saw_conflicting_root scan then RootMismatch
      else if saw_compatible_root scan then Active
      else if saw_matching_root scan then Unsupported
      else if saw_device scan then RootMismatch
      else Removed)"

definition resolve_trusted_device ::
    "trusted_device_binding \<Rightarrow> trusted_device_evidence list \<Rightarrow>
     konclave_domain_error + trusted_device_resolution" where
  "resolve_trusted_device binding evidence =
     and_then
       (case trusted_device_binding_status_of binding evidence of
          Removed \<Rightarrow> Inl TrustedDeviceRemoved
        | RootMismatch \<Rightarrow> Inl TrustedDeviceRootMismatch
        | Unsupported \<Rightarrow> Inl TrustedDeviceRepeatPairingUnsupported
        | Active \<Rightarrow> Inr ()) (\<lambda>_.
     and_then
       (ok_or TrustedDeviceRemoved
         (iter_min (map te_conversation_id (filter (\<lambda>candidate.
            te_device_id candidate = tb_device_id binding \<and>
            te_device_root_public_key candidate = tb_device_root_public_key binding \<and>
            te_conversation_supports_repeat_pairing candidate) evidence)))) (\<lambda>bootstrap.
     Inr \<lparr>tr_device_id = tb_device_id binding,
          tr_device_root_public_key = tb_device_root_public_key binding,
          tr_bootstrap_conversation_id = bootstrap\<rparr>))"

definition decide_trusted_device_alias ::
    "trusted_device_binding \<Rightarrow> trusted_device_binding option \<Rightarrow> trusted_device_binding option \<Rightarrow>
     trusted_device_evidence list \<Rightarrow> konclave_domain_error + trusted_device_alias_decision" where
  "decide_trusted_device_alias candidate existing_by_alias existing_by_device evidence =
     and_then (resolve_trusted_device candidate evidence) (\<lambda>_.
     case existing_by_alias of
       Some existing \<Rightarrow>
         if tb_device_id existing = tb_device_id candidate \<and>
            tb_device_root_public_key existing = tb_device_root_public_key candidate
         then if tb_alias existing = tb_alias candidate then Inr Identical else Inr Rename
         else (case trusted_device_binding_status_of existing evidence of
                 Active \<Rightarrow> Inl TrustedDeviceAliasConflict
               | Unsupported \<Rightarrow> Inl TrustedDeviceAliasConflict
               | Removed \<Rightarrow> Inr RebindStale
               | RootMismatch \<Rightarrow> Inr RebindStale)
     | None \<Rightarrow>
         (case existing_by_device of
            Some existing \<Rightarrow>
              if tb_device_root_public_key existing = tb_device_root_public_key candidate
              then Inr Rename
              else (case trusted_device_binding_status_of existing evidence of
                      Active \<Rightarrow> Inl TrustedDeviceRootMismatch
                    | Unsupported \<Rightarrow> Inl TrustedDeviceRootMismatch
                    | Removed \<Rightarrow> Inr RebindStale
                    | RootMismatch \<Rightarrow> Inr RebindStale)
          | None \<Rightarrow> Inr Insert))"

section \<open>What the evidence proves\<close>

definition vouches :: "trusted_device_binding \<Rightarrow> trusted_device_evidence \<Rightarrow> bool" where
  "vouches b e \<longleftrightarrow> te_device_id e = tb_device_id b \<and>
     te_device_root_public_key e = tb_device_root_public_key b"

definition contradicts :: "trusted_device_binding \<Rightarrow> trusted_device_evidence \<Rightarrow> bool" where
  "contradicts b e \<longleftrightarrow> te_device_id e = tb_device_id b \<and>
     te_device_root_public_key e \<noteq> tb_device_root_public_key b"

lemma scan_flags:
  "saw_device (fold (scan_evidence b) es sc) \<longleftrightarrow>
     saw_device sc \<or> (\<exists>e \<in> set es. te_device_id e = tb_device_id b)"
  "saw_matching_root (fold (scan_evidence b) es sc) \<longleftrightarrow>
     saw_matching_root sc \<or> (\<exists>e \<in> set es. vouches b e)"
  "saw_compatible_root (fold (scan_evidence b) es sc) \<longleftrightarrow>
     saw_compatible_root sc \<or> (\<exists>e \<in> set es. vouches b e \<and> te_conversation_supports_repeat_pairing e)"
  "saw_conflicting_root (fold (scan_evidence b) es sc) \<longleftrightarrow>
     saw_conflicting_root sc \<or> (\<exists>e \<in> set es. contradicts b e)"
  by (induction es arbitrary: sc) (auto simp: scan_evidence_def vouches_def contradicts_def Let_def)

lemma status_iff:
  "trusted_device_binding_status_of b es = Active \<longleftrightarrow>
     (\<forall>e \<in> set es. \<not> contradicts b e) \<and>
     (\<exists>e \<in> set es. vouches b e \<and> te_conversation_supports_repeat_pairing e)"
  "trusted_device_binding_status_of b es = RootMismatch \<longleftrightarrow> (\<exists>e \<in> set es. contradicts b e)"
  "trusted_device_binding_status_of b es = Removed \<longleftrightarrow>
     (\<forall>e \<in> set es. te_device_id e \<noteq> tb_device_id b)"
  "trusted_device_binding_status_of b es = Unsupported \<longleftrightarrow>
     (\<forall>e \<in> set es. \<not> contradicts b e) \<and> (\<exists>e \<in> set es. vouches b e) \<and>
     (\<forall>e \<in> set es. vouches b e \<longrightarrow> \<not> te_conversation_supports_repeat_pairing e)"
  by (auto simp: trusted_device_binding_status_of_def scan_flags Let_def) (auto simp: vouches_def contradicts_def)

lemma resolve_eq_Inr:
  "resolve_trusted_device b es = Inr r \<longleftrightarrow>
     (\<forall>e \<in> set es. \<not> contradicts b e) \<and>
     tr_device_id r = tb_device_id b \<and> tr_device_root_public_key r = tb_device_root_public_key b \<and>
     (\<exists>e \<in> set es. vouches b e \<and> te_conversation_supports_repeat_pairing e \<and>
        tr_bootstrap_conversation_id r = te_conversation_id e) \<and>
     (\<forall>e \<in> set es. vouches b e \<and> te_conversation_supports_repeat_pairing e \<longrightarrow>
        tr_bootstrap_conversation_id r \<le> te_conversation_id e)"
  by (cases r) (auto simp: resolve_trusted_device_def iter_min_eq_Some status_iff vouches_def
      split: trusted_device_binding_status.splits)

text \<open>A candidate that resolves makes any other root of its device stale.\<close>

lemma resolved_other_root_stale:
  assumes "resolve_trusted_device c es = Inr r" and "tb_device_id e = tb_device_id c"
    and "tb_device_root_public_key e \<noteq> tb_device_root_public_key c"
  shows "trusted_device_binding_status_of e es = RootMismatch"
  using assms by (auto simp: resolve_eq_Inr status_iff vouches_def contradicts_def)

text \<open>
  An alias resolves only through current evidence, and deterministically. Resolution
  succeeds exactly when no current membership shows the stored device with another root key
  and some current conversation authenticates the exact device and root with repeat pairing
  supported; it then returns that device and root with the least such conversation, and
  nothing else in the evidence or its order matters.
\<close>
lemma trusted_device_resolution_exact:
  "resolve_trusted_device b es = Inr r \<longleftrightarrow>
     (\<forall>e \<in> set es. \<not> contradicts b e) \<and>
     tr_device_id r = tb_device_id b \<and> tr_device_root_public_key r = tb_device_root_public_key b \<and>
     (\<exists>e \<in> set es. vouches b e \<and> te_conversation_supports_repeat_pairing e \<and>
        tr_bootstrap_conversation_id r = te_conversation_id e) \<and>
     (\<forall>e \<in> set es. vouches b e \<and> te_conversation_supports_repeat_pairing e \<longrightarrow>
        tr_bootstrap_conversation_id r \<le> te_conversation_id e)"
  by (rule resolve_eq_Inr)

section \<open>Instances\<close>

definition trusted_sample :: "u8 \<Rightarrow> trusted_device_binding" where
  "trusted_sample k =
     \<lparr>tb_alias = TrustedDeviceAlias ''laptop'', tb_device_id = DeviceId (replicate 32 k),
      tb_device_root_public_key = Ed25519PublicKey (replicate 32 k)\<rparr>"

definition sample_evidence :: "u8 \<Rightarrow> u8 \<Rightarrow> trusted_device_evidence" where
  "sample_evidence conversation k =
     \<lparr>te_conversation_id = ConversationId (replicate 16 conversation), te_device_id = DeviceId (replicate 32 k),
      te_device_root_public_key = Ed25519PublicKey (replicate 32 k),
      te_conversation_supports_repeat_pairing = True\<rparr>"

lemma replicate_mono: "(x :: u8) \<le> y \<Longrightarrow> replicate n x \<le> replicate n y"
  by (induction n) (auto simp: order_le_less)

lemma trusted_device_resolution_example:
  "resolve_trusted_device (trusted_sample 1) [sample_evidence 9 1, sample_evidence 4 2, sample_evidence 7 1] =
     Inr \<lparr>tr_device_id = DeviceId (replicate 32 1), tr_device_root_public_key = Ed25519PublicKey (replicate 32 1),
          tr_bootstrap_conversation_id = ConversationId (replicate 16 7)\<rparr>"
  unfolding trusted_device_resolution_exact
  by (simp add: trusted_sample_def sample_evidence_def contradicts_def vouches_def
      less_eq_conversation_id_def replicate_mono)

end
