(* ===== verification/Byte_Order.thy ===== *)
theory Byte_Order
  imports Konclave_Prelude
begin

text \<open>
  Big-endian integers as the standard library writes and reads them
  (\<open>to_be_bytes\<close>, \<open>from_be_bytes\<close>), at any width, with the facts the binary
  formats of the daemon rest on: the two are inverse, and a length-prefixed
  concatenation can be split in only one way.
\<close>

primrec to_be_bytes :: "nat \<Rightarrow> nat \<Rightarrow> bytes" where
  "to_be_bytes 0 x = []"
| "to_be_bytes (Suc n) x = to_be_bytes n (x div 256) @ [of_nat x]"

lemma to_be_bytes_numeral:
  "to_be_bytes (numeral k) x = to_be_bytes (pred_numeral k) (x div 256) @ [of_nat x]"
  by (simp only: numeral_eq_Suc [of k] to_be_bytes.simps)

definition from_be_bytes :: "bytes \<Rightarrow> nat" where
  "from_be_bytes bs = foldl (\<lambda>acc b. 256 * acc + unat b) 0 bs"

lemma length_to_be_bytes [simp]: "length (to_be_bytes n x) = n"
  by (induction n arbitrary: x) auto

lemma from_be_bytes_snoc [simp]: "from_be_bytes (bs @ [b]) = 256 * from_be_bytes bs + unat b"
  by (simp add: from_be_bytes_def)

lemma from_be_bytes_Nil [simp]: "from_be_bytes [] = 0"
  by (simp add: from_be_bytes_def)

lemma unat_u8_less: "unat (b :: u8) < 256"
  using unsigned_less [of b] by simp

lemma from_to_be_bytes: "from_be_bytes (to_be_bytes n x) = x mod 256 ^ n"
proof (induction n arbitrary: x)
  case (Suc n)
  then show ?case by (simp add: unat_of_nat mod_mult2_eq)
qed simp

lemma from_to_be_bytes_bounded [simp]:
  "x < 256 ^ n \<Longrightarrow> from_be_bytes (to_be_bytes n x) = x"
  by (simp add: from_to_be_bytes)

lemma to_from_be_bytes: "to_be_bytes (length bs) (from_be_bytes bs) = bs"
proof (induction bs rule: rev_induct)
  case (snoc b bs)
  have "(256 * from_be_bytes bs + unat b) div 256 = from_be_bytes bs"
    using unat_u8_less [of b] by simp
  moreover have "(of_nat (256 * from_be_bytes bs + unat b) :: u8) = of_nat (unat b)"
    unfolding word_unat_eq_iff unat_of_nat by simp
  ultimately show ?case using snoc by simp
qed simp

lemma from_be_bytes_less: "from_be_bytes bs < 256 ^ length bs"
proof (induction bs rule: rev_induct)
  case (snoc b bs)
  then show ?case using unat_u8_less [of b] by simp
qed simp

lemma to_be_bytes_inject:
  "x < 256 ^ n \<Longrightarrow> y < 256 ^ n \<Longrightarrow> to_be_bytes n x = to_be_bytes n y \<longleftrightarrow> x = y"
  by (metis from_to_be_bytes_bounded)

text \<open>A length prefix of fixed width followed by that many bytes.\<close>

definition prefixed :: "nat \<Rightarrow> bytes \<Rightarrow> bytes" where
  "prefixed n bs = to_be_bytes n (length bs) @ bs"

lemma prefixed_append_inject:
  assumes "prefixed n xs @ us = prefixed n ys @ vs"
    and "length xs < 256 ^ n" "length ys < 256 ^ n"
  shows "xs = ys \<and> us = vs"
proof -
  have parts: "to_be_bytes n (length xs) = to_be_bytes n (length ys)" "xs @ us = ys @ vs"
    using assms(1) by (simp_all add: prefixed_def)
  then have "length xs = length ys" using assms(2,3) by (simp add: to_be_bytes_inject)
  then show ?thesis using parts(2) by simp
qed

lemma concat_prefixed_inject:
  assumes "concat (map (prefixed n) xss) = concat (map (prefixed n) yss)"
    and "length xss = length yss"
    and "\<And>xs. xs \<in> set xss \<Longrightarrow> length xs < 256 ^ n" "\<And>ys. ys \<in> set yss \<Longrightarrow> length ys < 256 ^ n"
  shows "xss = yss"
  using assms(2,1,3,4)
proof (induction xss yss rule: list_induct2)
  case (Cons x xs y ys)
  have "x = y \<and> concat (map (prefixed n) xs) = concat (map (prefixed n) ys)"
    using Cons.prems by (intro prefixed_append_inject [of n]) auto
  then show ?case using Cons.IH Cons.prems by auto
qed simp

end
