(* ===== verification/Secret_Storage.thy ===== *)
theory Secret_Storage
  imports Byte_Order
begin

text \<open>
  \<open>crates/Konclave.SecretStorage/src/authenticated_cipher.rs\<close> and
  \<open>sealed_blob.rs\<close>: AES-256-GCM over bounded plaintexts, the versioned sealed-record
  format with its associated data, and the derivation of record contexts. The cipher, the
  digest and the operating system's random source are code outside the repository: the
  record \<open>crypto_provider\<close> stands for the first two, and each sealing takes the nonce
  the random source returned, \<open>None\<close> when it failed.
\<close>

section \<open>Errors and the provider\<close>

datatype secret_storage_error =
    InvalidRecordIdentifier usize
  | PlaintextTooLarge usize usize
  | SealedBlobTooLarge usize usize
  | InvalidSealedBlob
  | AuthenticationFailed
  | RandomGenerationFailed
  | InvalidExternalKey
  | NativeCustodyUnavailable
  | NativeCredentialNotFound
  | InvalidNativeCredential
  | OwnerProtectedStorageUnavailable
  | OwnerProtectedStorageUnsafe
  | OwnerProtectedStorageConflict
  | MlsStorageBackendFailure string

fun SecretStorageError_code :: "secret_storage_error \<Rightarrow> string" where
  "SecretStorageError_code (InvalidRecordIdentifier _) = ''invalid_record_identifier''"
| "SecretStorageError_code (PlaintextTooLarge _ _) = ''secret_plaintext_too_large''"
| "SecretStorageError_code (SealedBlobTooLarge _ _) = ''sealed_blob_too_large''"
| "SecretStorageError_code InvalidSealedBlob = ''invalid_sealed_blob''"
| "SecretStorageError_code AuthenticationFailed = ''sealed_secret_authentication_failed''"
| "SecretStorageError_code RandomGenerationFailed = ''secure_random_generation_failed''"
| "SecretStorageError_code InvalidExternalKey = ''invalid_external_wrapping_key''"
| "SecretStorageError_code NativeCustodyUnavailable = ''native_key_custody_unavailable''"
| "SecretStorageError_code NativeCredentialNotFound = ''native_credential_not_found''"
| "SecretStorageError_code InvalidNativeCredential = ''invalid_native_key_credential''"
| "SecretStorageError_code OwnerProtectedStorageUnavailable = ''owner_protected_storage_unavailable''"
| "SecretStorageError_code OwnerProtectedStorageUnsafe = ''owner_protected_storage_unsafe''"
| "SecretStorageError_code OwnerProtectedStorageConflict = ''owner_protected_storage_conflict''"
| "SecretStorageError_code (MlsStorageBackendFailure _) = ''mls_storage_backend_failure''"

text \<open>
  \<open>cp_unbound_key\<close> is whether \<open>UnboundKey::new\<close> takes the key,
  \<open>cp_seal\<close> is \<open>seal_in_place_append_tag\<close> (key, nonce, associated data, plaintext)
  and \<open>cp_open\<close> is \<open>open_in_place\<close>, \<open>None\<close> when the provider reports an error.
\<close>

record crypto_provider =
  cp_unbound_key :: "bytes \<Rightarrow> bool"
  cp_seal :: "bytes \<Rightarrow> bytes \<Rightarrow> bytes \<Rightarrow> bytes \<Rightarrow> bytes option"
  cp_open :: "bytes \<Rightarrow> bytes \<Rightarrow> bytes \<Rightarrow> bytes \<Rightarrow> bytes option"
  cp_sha256 :: "bytes \<Rightarrow> bytes"

section \<open>The authenticated cipher\<close>

definition AUTHENTICATED_CIPHER_KEY_BYTES :: usize where "AUTHENTICATED_CIPHER_KEY_BYTES = 32"
definition AUTHENTICATED_CIPHER_NONCE_BYTES :: usize where "AUTHENTICATED_CIPHER_NONCE_BYTES = 12"
definition AUTHENTICATED_CIPHER_TAG_BYTES :: usize where "AUTHENTICATED_CIPHER_TAG_BYTES = 16"

record authenticated_ciphertext =
  ac_nonce :: bytes
  ac_bytes :: bytes

record authenticated_cipher =
  ci_key :: bytes

definition validate_ciphertext_length :: "usize \<Rightarrow> usize \<Rightarrow> secret_storage_error + unit" where
  "validate_ciphertext_length actual maximum_plaintext_bytes =
     and_then (ok_or (SealedBlobTooLarge maximum_plaintext_bytes actual)
       (checked_add_usize maximum_plaintext_bytes AUTHENTICATED_CIPHER_TAG_BYTES)) (\<lambda>maximum.
     if actual < AUTHENTICATED_CIPHER_TAG_BYTES \<or> actual > maximum
     then Inl (SealedBlobTooLarge maximum actual)
     else Inr ())"

definition AuthenticatedCiphertext_from_parts ::
    "bytes \<Rightarrow> bytes \<Rightarrow> usize \<Rightarrow> secret_storage_error + authenticated_ciphertext" where
  "AuthenticatedCiphertext_from_parts nonce bs maximum_plaintext_bytes =
     (if length nonce \<noteq> AUTHENTICATED_CIPHER_NONCE_BYTES then Inl InvalidSealedBlob
      else
        and_then (validate_ciphertext_length (length bs) maximum_plaintext_bytes) (\<lambda>_.
        Inr \<lparr>ac_nonce = nonce, ac_bytes = bs\<rparr>))"

definition less_safe_key :: "crypto_provider \<Rightarrow> bytes \<Rightarrow> secret_storage_error + bytes" where
  "less_safe_key cp key = (if cp_unbound_key cp key then Inr key else Inl AuthenticationFailed)"

definition cipher_seal_with_nonce ::
    "crypto_provider \<Rightarrow> authenticated_cipher \<Rightarrow> bytes \<Rightarrow> bytes \<Rightarrow> usize \<Rightarrow> bytes \<Rightarrow>
     secret_storage_error + authenticated_ciphertext" where
  "cipher_seal_with_nonce cp cipher associated_data plaintext maximum_plaintext_bytes nonce =
     (if length plaintext > maximum_plaintext_bytes
      then Inl (PlaintextTooLarge maximum_plaintext_bytes (length plaintext))
      else
        and_then (less_safe_key cp (ci_key cipher)) (\<lambda>key.
        and_then (ok_or AuthenticationFailed (cp_seal cp key nonce associated_data plaintext)) (\<lambda>bs.
        AuthenticatedCiphertext_from_parts nonce bs maximum_plaintext_bytes)))"

definition cipher_seal_with_associated_data ::
    "crypto_provider \<Rightarrow> authenticated_cipher \<Rightarrow> bytes option \<Rightarrow> bytes \<Rightarrow> usize \<Rightarrow>
     (bytes \<Rightarrow> bytes) \<Rightarrow> secret_storage_error + authenticated_ciphertext" where
  "cipher_seal_with_associated_data cp cipher random plaintext maximum_plaintext_bytes associated_data =
     (if length plaintext > maximum_plaintext_bytes
      then Inl (PlaintextTooLarge maximum_plaintext_bytes (length plaintext))
      else
        and_then (ok_or RandomGenerationFailed random) (\<lambda>nonce.
        cipher_seal_with_nonce cp cipher (associated_data nonce) plaintext maximum_plaintext_bytes nonce))"

definition cipher_seal ::
    "crypto_provider \<Rightarrow> authenticated_cipher \<Rightarrow> bytes option \<Rightarrow> bytes \<Rightarrow> bytes \<Rightarrow> usize \<Rightarrow>
     secret_storage_error + authenticated_ciphertext" where
  "cipher_seal cp cipher random associated_data plaintext maximum_plaintext_bytes =
     cipher_seal_with_associated_data cp cipher random plaintext maximum_plaintext_bytes
       (\<lambda>_. associated_data)"

definition cipher_open ::
    "crypto_provider \<Rightarrow> authenticated_cipher \<Rightarrow> bytes \<Rightarrow> authenticated_ciphertext \<Rightarrow> usize \<Rightarrow>
     secret_storage_error + bytes" where
  "cipher_open cp cipher associated_data ciphertext maximum_plaintext_bytes =
     and_then (validate_ciphertext_length (length (ac_bytes ciphertext)) maximum_plaintext_bytes) (\<lambda>_.
     and_then (less_safe_key cp (ci_key cipher)) (\<lambda>key.
     ok_or AuthenticationFailed
       (cp_open cp key (ac_nonce ciphertext) associated_data (ac_bytes ciphertext))))"

section \<open>Record contexts\<close>

datatype secret_record_kind =
    KindDeviceRootIdentity
  | KindMlsKeyPackage
  | KindMlsGroupState
  | KindMlsPriorEpoch
  | KindConversationSigningMaterial
  | KindRelayAccessCredential
  | KindConversationPolicyState
  | KindConversationCredentialBinding
  | KindLocalApplicationMessage
  | KindLocalOperation
  | KindRemoteEvent
  | KindRemoteEventDeliveryState
  | KindRemoteEventJournalHead
  | KindRemoteEventDeliveryPolicy
  | KindPairingOperation
  | KindRelayEnrollmentIntent
  | KindLocalServiceRequestOutcome
  | KindCollaborationPolicyBundle
  | KindCollaborationPolicyBinding
  | KindCollaborationPolicyExchangeRecord
  | KindCollaborationPolicyExchangeState
  | KindCollaborationPolicyOperation
  | KindCollaborationPolicyOperationState
  | KindDirectedRequestHandling
  | KindDirectedRequestHandlingState
  | KindShortCodePairingOperation
  | KindTrustedDeviceBinding
  | KindTrustedDeviceBindingState
  | KindRepeatPairingOperation
  | KindRepeatPairingOperationState

text \<open>The discriminants of the enumeration, \<open>kind as u8\<close>.\<close>

fun kind_as_u8 :: "secret_record_kind \<Rightarrow> u8" where
  "kind_as_u8 KindDeviceRootIdentity = 1"
| "kind_as_u8 KindMlsKeyPackage = 2"
| "kind_as_u8 KindMlsGroupState = 3"
| "kind_as_u8 KindMlsPriorEpoch = 4"
| "kind_as_u8 KindConversationSigningMaterial = 5"
| "kind_as_u8 KindRelayAccessCredential = 6"
| "kind_as_u8 KindConversationPolicyState = 7"
| "kind_as_u8 KindConversationCredentialBinding = 8"
| "kind_as_u8 KindLocalApplicationMessage = 9"
| "kind_as_u8 KindLocalOperation = 10"
| "kind_as_u8 KindRemoteEvent = 11"
| "kind_as_u8 KindRemoteEventDeliveryState = 12"
| "kind_as_u8 KindRemoteEventJournalHead = 13"
| "kind_as_u8 KindRemoteEventDeliveryPolicy = 14"
| "kind_as_u8 KindPairingOperation = 15"
| "kind_as_u8 KindRelayEnrollmentIntent = 16"
| "kind_as_u8 KindLocalServiceRequestOutcome = 17"
| "kind_as_u8 KindCollaborationPolicyBundle = 18"
| "kind_as_u8 KindCollaborationPolicyBinding = 19"
| "kind_as_u8 KindCollaborationPolicyExchangeRecord = 20"
| "kind_as_u8 KindCollaborationPolicyExchangeState = 21"
| "kind_as_u8 KindCollaborationPolicyOperation = 22"
| "kind_as_u8 KindCollaborationPolicyOperationState = 23"
| "kind_as_u8 KindDirectedRequestHandling = 24"
| "kind_as_u8 KindDirectedRequestHandlingState = 25"
| "kind_as_u8 KindShortCodePairingOperation = 26"
| "kind_as_u8 KindTrustedDeviceBinding = 27"
| "kind_as_u8 KindTrustedDeviceBindingState = 28"
| "kind_as_u8 KindRepeatPairingOperation = 29"
| "kind_as_u8 KindRepeatPairingOperationState = 30"

definition MAGIC :: bytes where "MAGIC = ascii ''KSC1''"
definition FORMAT_VERSION :: u8 where "FORMAT_VERSION = 1"
definition ALGORITHM_AES_256_GCM :: u8 where "ALGORITHM_AES_256_GCM = 1"
definition KEY_SLOT :: u32 where "KEY_SLOT = 1"
definition NONCE_BYTES :: usize where "NONCE_BYTES = 12"
definition TAG_BYTES :: usize where "TAG_BYTES = 16"
definition HEADER_BYTES :: usize where "HEADER_BYTES = length MAGIC + 1 + 1 + 4 + NONCE_BYTES"
definition AAD_DOMAIN :: bytes where
  "AAD_DOMAIN = ascii ''konclave-sealed-secret-aad-v1'' @ [0]"
definition CONTEXT_DERIVATION_DOMAIN :: bytes where
  "CONTEXT_DERIVATION_DOMAIN = ascii ''konclave-secret-record-context-v1'' @ [0]"
definition MAX_RECORD_IDENTIFIER_BYTES :: usize where "MAX_RECORD_IDENTIFIER_BYTES = 128"
definition MAX_CONTEXT_COMPONENTS :: usize where "MAX_CONTEXT_COMPONENTS = 8"
definition MAX_SECRET_PLAINTEXT_BYTES :: usize where
  "MAX_SECRET_PLAINTEXT_BYTES = 16 * 1024 * 1024"
definition MAX_SEALED_BLOB_BYTES :: usize where
  "MAX_SEALED_BLOB_BYTES = HEADER_BYTES + MAX_SECRET_PLAINTEXT_BYTES + TAG_BYTES"

record secret_record_context =
  cx_kind :: secret_record_kind
  cx_identifier :: bytes

definition SecretRecordContext_new ::
    "secret_record_kind \<Rightarrow> bytes \<Rightarrow> secret_storage_error + secret_record_context" where
  "SecretRecordContext_new kind identifier =
     (if identifier = [] \<or> length identifier > MAX_RECORD_IDENTIFIER_BYTES
      then Inl (InvalidRecordIdentifier MAX_RECORD_IDENTIFIER_BYTES)
      else Inr \<lparr>cx_kind = kind, cx_identifier = identifier\<rparr>)"

text \<open>
  The loop of \<open>SecretRecordContext::derive\<close>: the cumulative length is checked before
  each component is fed to the digest behind its 64-bit length. The digest input is what
  the calls of \<open>update\<close> have written so far.
\<close>

fun derive_components ::
    "usize \<Rightarrow> bytes \<Rightarrow> bytes list \<Rightarrow> secret_storage_error + bytes" where
  "derive_components so_far input [] = Inr input"
| "derive_components so_far input (component # components) =
     and_then (ok_or (InvalidRecordIdentifier MAX_RECORD_IDENTIFIER_BYTES)
       (checked_add_usize so_far (length component))) (\<lambda>so_far.
     if so_far > MAX_SECRET_PLAINTEXT_BYTES
     then Inl (InvalidRecordIdentifier MAX_RECORD_IDENTIFIER_BYTES)
     else if length component \<ge> 2 ^ 64
     then Inl (InvalidRecordIdentifier MAX_RECORD_IDENTIFIER_BYTES)
     else derive_components so_far (input @ to_be_bytes 8 (length component) @ component) components)"

definition SecretRecordContext_derive ::
    "crypto_provider \<Rightarrow> secret_record_kind \<Rightarrow> bytes list \<Rightarrow>
     secret_storage_error + secret_record_context" where
  "SecretRecordContext_derive cp kind components =
     (if components = [] \<or> length components > MAX_CONTEXT_COMPONENTS \<or>
         (\<exists>component \<in> set components. component = [])
      then Inl (InvalidRecordIdentifier MAX_RECORD_IDENTIFIER_BYTES)
      else if length components \<ge> 2 ^ 8
      then Inl (InvalidRecordIdentifier MAX_RECORD_IDENTIFIER_BYTES)
      else
        and_then (derive_components 0
          (CONTEXT_DERIVATION_DOMAIN @ [kind_as_u8 kind, of_nat (length components)]) components) (\<lambda>input.
        SecretRecordContext_new kind (cp_sha256 cp input)))"

section \<open>Sealed records\<close>

datatype sealed_blob = SealedBlob (blob_bytes: bytes)

definition header :: "bytes \<Rightarrow> bytes" where
  "header nonce =
     MAGIC @ [FORMAT_VERSION, ALGORITHM_AES_256_GCM] @ to_be_bytes 4 (unat KEY_SLOT) @ nonce"

definition validate_header :: "bytes \<Rightarrow> secret_storage_error + bytes" where
  "validate_header bs =
     (if length bs > MAX_SEALED_BLOB_BYTES
      then Inl (SealedBlobTooLarge MAX_SEALED_BLOB_BYTES (length bs))
      else if length bs < HEADER_BYTES + TAG_BYTES \<or> take 4 bs \<noteq> MAGIC \<or>
              bs ! 4 \<noteq> FORMAT_VERSION \<or> bs ! 5 \<noteq> ALGORITHM_AES_256_GCM \<or>
              take 4 (drop 6 bs) \<noteq> to_be_bytes 4 (unat KEY_SLOT)
      then Inl InvalidSealedBlob
      else Inr (take HEADER_BYTES bs))"

definition associated_data :: "secret_record_context \<Rightarrow> bytes \<Rightarrow> bytes" where
  "associated_data cx hdr =
     AAD_DOMAIN @ hdr @ [kind_as_u8 (cx_kind cx)] @
     to_be_bytes 2 (unat (of_nat (length (cx_identifier cx)) :: 16 word)) @ cx_identifier cx"

definition SealedBlob_from_bytes :: "bytes \<Rightarrow> secret_storage_error + sealed_blob" where
  "SealedBlob_from_bytes bs = and_then (validate_header bs) (\<lambda>_. Inr (SealedBlob bs))"

record secret_sealer =
  sl_cipher :: authenticated_cipher

definition SecretSealer_seal ::
    "crypto_provider \<Rightarrow> secret_sealer \<Rightarrow> bytes option \<Rightarrow> secret_record_context \<Rightarrow> bytes \<Rightarrow>
     secret_storage_error + sealed_blob" where
  "SecretSealer_seal cp sealer random cx plaintext =
     and_then (cipher_seal_with_associated_data cp (sl_cipher sealer) random plaintext
       MAX_SECRET_PLAINTEXT_BYTES (\<lambda>nonce. associated_data cx (header nonce))) (\<lambda>ciphertext.
     SealedBlob_from_bytes (header (ac_nonce ciphertext) @ ac_bytes ciphertext))"

definition SecretSealer_open ::
    "crypto_provider \<Rightarrow> secret_sealer \<Rightarrow> secret_record_context \<Rightarrow> sealed_blob \<Rightarrow>
     secret_storage_error + bytes" where
  "SecretSealer_open cp sealer cx blob =
     and_then (validate_header (blob_bytes blob)) (\<lambda>hdr.
     let nonce = take (HEADER_BYTES - 10) (drop 10 hdr) in
     if length nonce \<noteq> NONCE_BYTES then Inl InvalidSealedBlob
     else
       let aad = associated_data cx hdr in
       and_then (AuthenticatedCiphertext_from_parts nonce (drop HEADER_BYTES (blob_bytes blob))
         MAX_SECRET_PLAINTEXT_BYTES) (\<lambda>ciphertext.
       cipher_open cp (sl_cipher sealer) aad ciphertext MAX_SECRET_PLAINTEXT_BYTES))"

section \<open>The format\<close>

lemma magic_simp: "MAGIC = [75, 83, 67, 49]"
  by (simp add: MAGIC_def ascii_def)

lemma header_bytes_simp [simp]: "HEADER_BYTES = 22"
  by (simp add: HEADER_BYTES_def magic_simp NONCE_BYTES_def)

lemma length_header [simp]: "length (header nonce) = 10 + length nonce"
  by (simp add: header_def magic_simp)

lemma key_slot_bytes: "to_be_bytes 4 (unat KEY_SLOT) = [0, 0, 0, 1]"
  by (simp add: KEY_SLOT_def to_be_bytes_numeral)

lemma header_simp: "header nonce = [75, 83, 67, 49, 1, 1, 0, 0, 0, 1] @ nonce"
  by (simp add: header_def magic_simp key_slot_bytes FORMAT_VERSION_def ALGORITHM_AES_256_GCM_def)

text \<open>The header check accepts exactly a canonical header followed by at least a tag.\<close>

lemma validate_header_eq_Inr:
  "validate_header bs = Inr hdr \<longleftrightarrow>
     length bs \<le> MAX_SEALED_BLOB_BYTES \<and>
     (\<exists>nonce body. bs = header nonce @ body \<and> hdr = header nonce \<and> length nonce = 12 \<and> 16 \<le> length body)"
  (is "?lhs \<longleftrightarrow> ?rhs")
proof
  assume ?lhs
  then have ok: "length bs \<le> MAX_SEALED_BLOB_BYTES" "38 \<le> length bs" "take 4 bs = MAGIC"
    "bs ! 4 = FORMAT_VERSION" "bs ! 5 = ALGORITHM_AES_256_GCM"
    "take 4 (drop 6 bs) = to_be_bytes 4 (unat KEY_SLOT)" "hdr = take 22 bs"
    by (auto simp: validate_header_def TAG_BYTES_def split: if_splits)
  have "bs = take 4 bs @ [bs ! 4, bs ! 5] @ take 4 (drop 6 bs) @ drop 10 bs"
  proof -
    have "drop 4 bs = bs ! 4 # bs ! 5 # drop 6 bs"
      using ok(2) Cons_nth_drop_Suc [of 4 bs] Cons_nth_drop_Suc [of 5 bs] by simp
    moreover have "drop 6 bs = take 4 (drop 6 bs) @ drop 10 bs"
      using append_take_drop_id [of 4 "drop 6 bs"] by simp
    ultimately show ?thesis using append_take_drop_id [of 4 bs] by simp
  qed
  then have split: "bs = header (take 12 (drop 10 bs)) @ drop 22 bs"
    using append_take_drop_id [of 12 "drop 10 bs"] unfolding ok(3-6) header_def by simp
  have len: "length (take 12 (drop 10 bs)) = 12" using ok(2) by simp
  have "take 22 bs = header (take 12 (drop 10 bs))"
    using arg_cong [OF split, of "take 22"] len by simp
  then show ?rhs using ok(1,2,7) split len
    by (intro conjI exI [of _ "take 12 (drop 10 bs)"] exI [of _ "drop 22 bs"]) simp_all
next
  assume ?rhs
  then show ?lhs
    by (auto simp: validate_header_def TAG_BYTES_def magic_simp key_slot_bytes header_simp
        FORMAT_VERSION_def ALGORITHM_AES_256_GCM_def)
qed

text \<open>
  What is relied on of the cipher, which is AES-256-GCM of the provider: sealing appends a
  tag of sixteen bytes, opening inverts it, and since the cipher is deterministic in its
  key, nonce and associated data, whatever opens is what sealing its plaintext gives.
\<close>

definition aead_rules :: "crypto_provider \<Rightarrow> bool" where
  "aead_rules cp \<longleftrightarrow>
     (\<forall>k n a p c. cp_seal cp k n a p = Some c \<longrightarrow>
        length c = length p + AUTHENTICATED_CIPHER_TAG_BYTES \<and> cp_open cp k n a c = Some p) \<and>
     (\<forall>k n a p c. cp_open cp k n a c = Some p \<longrightarrow> cp_seal cp k n a p = Some c)"

lemma aead_sealD:
  assumes "aead_rules cp" "cp_seal cp k n a p = Some c"
  shows "cp_open cp k n a c = Some p" "length c = length p + 16"
  using assms unfolding aead_rules_def AUTHENTICATED_CIPHER_TAG_BYTES_def by blast+

lemma aead_openD:
  assumes "aead_rules cp" "cp_open cp k n a c = Some p"
  shows "cp_seal cp k n a p = Some c"
  using assms unfolding aead_rules_def by blast

lemmas cipher_sizes = AUTHENTICATED_CIPHER_TAG_BYTES_def AUTHENTICATED_CIPHER_NONCE_BYTES_def
  MAX_SECRET_PLAINTEXT_BYTES_def NONCE_BYTES_def TAG_BYTES_def

lemma validate_ciphertext_length_eq_Inr:
  "validate_ciphertext_length n MAX_SECRET_PLAINTEXT_BYTES = Inr u \<longleftrightarrow>
     16 \<le> n \<and> n \<le> MAX_SECRET_PLAINTEXT_BYTES + 16"
  by (auto simp: validate_ciphertext_length_def cipher_sizes)

lemma validate_header_frame:
  "length nonce = 12 \<Longrightarrow> 16 \<le> length c \<Longrightarrow> length c \<le> MAX_SECRET_PLAINTEXT_BYTES + 16 \<Longrightarrow>
   validate_header (header nonce @ c) = Inr (header nonce)"
  by (auto simp: validate_header_eq_Inr MAX_SEALED_BLOB_BYTES_def TAG_BYTES_def)

lemma seal_eq_Inr:
  "SecretSealer_seal cp s random cx p = Inr blob \<longleftrightarrow>
     (\<exists>nonce c. random = Some nonce \<and> length nonce = 12 \<and>
        length p \<le> MAX_SECRET_PLAINTEXT_BYTES \<and> cp_unbound_key cp (ci_key (sl_cipher s)) \<and>
        cp_seal cp (ci_key (sl_cipher s)) nonce (associated_data cx (header nonce)) p = Some c \<and>
        16 \<le> length c \<and> length c \<le> MAX_SECRET_PLAINTEXT_BYTES + 16 \<and>
        blob = SealedBlob (header nonce @ c))"
  by (cases random)
    (auto simp: SecretSealer_seal_def cipher_seal_with_associated_data_def cipher_seal_with_nonce_def
      AuthenticatedCiphertext_from_parts_def less_safe_key_def validate_ciphertext_length_eq_Inr
      AUTHENTICATED_CIPHER_NONCE_BYTES_def SealedBlob_from_bytes_def validate_header_frame
      not_less split: if_splits)

lemma open_frame:
  assumes "length nonce = 12" "16 \<le> length c" "length c \<le> MAX_SECRET_PLAINTEXT_BYTES + 16"
  shows "SecretSealer_open cp s cx (SealedBlob (header nonce @ c)) = Inr p \<longleftrightarrow>
     cp_unbound_key cp (ci_key (sl_cipher s)) \<and>
     cp_open cp (ci_key (sl_cipher s)) nonce (associated_data cx (header nonce)) c = Some p"
proof -
  have "take 12 (drop 10 (header nonce)) = nonce"
    using assms(1) by (simp add: header_simp)
  then show ?thesis using assms
    by (auto simp: SecretSealer_open_def validate_header_frame cipher_open_def Let_def
        AuthenticatedCiphertext_from_parts_def less_safe_key_def validate_ciphertext_length_eq_Inr
        AUTHENTICATED_CIPHER_NONCE_BYTES_def NONCE_BYTES_def)
qed

lemma open_framed:
  assumes "SecretSealer_open cp s cx blob = Inr p"
  obtains nonce c where "blob = SealedBlob (header nonce @ c)" "length nonce = 12"
    "16 \<le> length c" "length c \<le> MAX_SECRET_PLAINTEXT_BYTES + 16"
  using assms that [of _ "_"]
  by (cases blob)
    (auto simp: SecretSealer_open_def validate_header_eq_Inr MAX_SEALED_BLOB_BYTES_def TAG_BYTES_def)

lemma open_seal:
  assumes "aead_rules cp" "SecretSealer_seal cp s random cx p = Inr blob"
  shows "SecretSealer_open cp s cx blob = Inr p"
  using assms(2) aead_sealD [OF assms(1)] by (auto simp: seal_eq_Inr open_frame)

text \<open>
  C12: Opening accepts exactly what sealing produces. A sealed record opens to a plaintext
  under a record context if and only if it is the output of sealing that plaintext under
  that context with some nonce: no other framing, length, version, algorithm, key slot or
  ciphertext is accepted, and everything sealed can be opened again. The cipher is assumed
  to append its tag, to be correct, and to be deterministic in its inputs.
\<close>
theorem open_exactly_sealed:
  assumes "aead_rules cp"
  shows "SecretSealer_open cp s cx blob = Inr p \<longleftrightarrow>
    (\<exists>nonce. SecretSealer_seal cp s (Some nonce) cx p = Inr blob)"
proof
  assume opened: "SecretSealer_open cp s cx blob = Inr p"
  then obtain nonce c where f: "blob = SealedBlob (header nonce @ c)" "length nonce = 12"
    "16 \<le> length c" "length c \<le> MAX_SECRET_PLAINTEXT_BYTES + 16"
    by (rule open_framed)
  let ?k = "ci_key (sl_cipher s)" and ?a = "associated_data cx (header nonce)"
  have "cp_unbound_key cp ?k" and o: "cp_open cp ?k nonce ?a c = Some p"
    using opened f by (auto simp: open_frame)
  moreover have "cp_seal cp ?k nonce ?a p = Some c" using assms o by (rule aead_openD)
  moreover have "length c = length p + 16"
    using assms calculation(3) by (rule aead_sealD)
  ultimately show "\<exists>nonce. SecretSealer_seal cp s (Some nonce) cx p = Inr blob"
    using f by (auto simp: seal_eq_Inr)
next
  assume "\<exists>nonce. SecretSealer_seal cp s (Some nonce) cx p = Inr blob"
  then show "SecretSealer_open cp s cx blob = Inr p" using open_seal [OF assms] by auto
qed

section \<open>Contexts\<close>

lemma kind_as_u8_inject: "kind_as_u8 k = kind_as_u8 k' \<longleftrightarrow> k = k'"
  by (cases k; cases k'; simp)

definition derivation_input :: "secret_record_kind \<Rightarrow> bytes list \<Rightarrow> bytes" where
  "derivation_input kind components =
     CONTEXT_DERIVATION_DOMAIN @ [kind_as_u8 kind, of_nat (length components)] @
     concat (map (prefixed 8) components)"

lemma derive_components_eq_Inr:
  "derive_components n input cs = Inr out \<Longrightarrow>
     out = input @ concat (map (prefixed 8) cs) \<and> (\<forall>c \<in> set cs. length c \<le> MAX_SECRET_PLAINTEXT_BYTES)"
  by (induction cs arbitrary: n input)
    (fastforce simp: prefixed_def not_less split: if_splits)+

lemma derive_eq_Inr:
  assumes "SecretRecordContext_derive cp kind cs = Inr cx"
  shows "cx_kind cx = kind" "cx_identifier cx = cp_sha256 cp (derivation_input kind cs)"
    "length (cx_identifier cx) \<le> MAX_RECORD_IDENTIFIER_BYTES" "length cs \<le> MAX_CONTEXT_COMPONENTS"
    "\<And>c. c \<in> set cs \<Longrightarrow> length c < 256 ^ 8"
proof -
  obtain out where out: "derive_components 0
        (CONTEXT_DERIVATION_DOMAIN @ [kind_as_u8 kind, of_nat (length cs)]) cs = Inr out"
    and new: "SecretRecordContext_new kind (cp_sha256 cp out) = Inr cx"
    and "length cs \<le> MAX_CONTEXT_COMPONENTS"
    using assms by (auto simp: SecretRecordContext_derive_def split: if_splits)
  then show "length cs \<le> MAX_CONTEXT_COMPONENTS" by simp
  from derive_components_eq_Inr [OF out]
  have inp: "out = derivation_input kind cs"
    and small: "\<forall>c \<in> set cs. length c \<le> MAX_SECRET_PLAINTEXT_BYTES"
    by (simp_all add: derivation_input_def)
  show "cx_kind cx = kind" "cx_identifier cx = cp_sha256 cp (derivation_input kind cs)"
    "length (cx_identifier cx) \<le> MAX_RECORD_IDENTIFIER_BYTES"
    using new inp by (auto simp: SecretRecordContext_new_def split: if_splits)
  show "length c < 256 ^ 8" if "c \<in> set cs" for c
    using small that by (auto simp: MAX_SECRET_PLAINTEXT_BYTES_def)
qed

text \<open>Derivation succeeds for up to eight non-empty components of bounded total length.\<close>

lemma derive_components_ok:
  "n + sum_list (map length cs) \<le> MAX_SECRET_PLAINTEXT_BYTES \<Longrightarrow> \<exists>out. derive_components n input cs = Inr out"
  by (induction cs arbitrary: n input) (auto simp: MAX_SECRET_PLAINTEXT_BYTES_def checked_add_usize_def)

lemma derive_ok:
  assumes "\<And>bs. length (cp_sha256 cp bs) = 32"
    and "cs \<noteq> []" "length cs \<le> MAX_CONTEXT_COMPONENTS" "[] \<notin> set cs"
    and "sum_list (map length cs) \<le> MAX_SECRET_PLAINTEXT_BYTES"
  shows "\<exists>cx. SecretRecordContext_derive cp kind cs = Inr cx"
proof -
  have "cp_sha256 cp bs \<noteq> []" for bs using assms(1) [of bs] by auto
  then show ?thesis
    using assms derive_components_ok [of 0 cs "CONTEXT_DERIVATION_DOMAIN @ [kind_as_u8 kind, of_nat (length cs)]"]
    by (auto simp: SecretRecordContext_derive_def SecretRecordContext_new_def MAX_CONTEXT_COMPONENTS_def
        MAX_RECORD_IDENTIFIER_BYTES_def)
qed

text \<open>Component order and lengths are part of the digest input.\<close>

lemma derivation_input_inject:
  assumes "derivation_input k cs = derivation_input k' cs'"
    and "length cs \<le> MAX_CONTEXT_COMPONENTS" "length cs' \<le> MAX_CONTEXT_COMPONENTS"
    and "\<And>c. c \<in> set cs \<Longrightarrow> length c < 256 ^ 8" "\<And>c. c \<in> set cs' \<Longrightarrow> length c < 256 ^ 8"
  shows "k = k' \<and> cs = cs'"
proof -
  have "k = k'" and n: "(of_nat (length cs) :: u8) = of_nat (length cs')"
    and body: "concat (map (prefixed 8) cs) = concat (map (prefixed 8) cs')"
    using assms(1) by (simp_all add: derivation_input_def kind_as_u8_inject)
  have "length cs mod 256 = length cs' mod 256"
    using arg_cong [OF n, of unat] by (simp add: unat_of_nat)
  then have "length cs = length cs'"
    using assms(2,3) by (simp add: MAX_CONTEXT_COMPONENTS_def)
  then show ?thesis using \<open>k = k'\<close> concat_prefixed_inject [OF body] assms(4,5) by blast
qed

lemma associated_data_inject:
  assumes "associated_data cx hdr = associated_data cx' hdr"
    and "length (cx_identifier cx) \<le> MAX_RECORD_IDENTIFIER_BYTES"
    and "length (cx_identifier cx') \<le> MAX_RECORD_IDENTIFIER_BYTES"
  shows "cx = cx'"
  using assms by (cases cx; cases cx') (auto simp: associated_data_def kind_as_u8_inject)

text \<open>
  Two inputs of the digest that it does not tell apart, and two pairs of associated data and
  plaintext that the cipher seals to the same bytes under one key and nonce.
\<close>

definition digest_collision :: "crypto_provider \<Rightarrow> bytes \<Rightarrow> bytes \<Rightarrow> bool" where
  "digest_collision cp x y \<longleftrightarrow> x \<noteq> y \<and> cp_sha256 cp x = cp_sha256 cp y"

definition aead_collision ::
    "crypto_provider \<Rightarrow> bytes \<Rightarrow> bytes \<Rightarrow> bytes \<times> bytes \<Rightarrow> bytes \<times> bytes \<Rightarrow> bytes \<Rightarrow> bool" where
  "aead_collision cp k nonce x y c \<longleftrightarrow>
     fst x \<noteq> fst y \<and> cp_seal cp k nonce (fst x) (snd x) = Some c \<and> cp_seal cp k nonce (fst y) (snd y) = Some c"

lemma derive_inject:
  assumes "SecretRecordContext_derive cp kind cs = Inr cx" "SecretRecordContext_derive cp kind' cs' = Inr cx"
  shows "(kind' = kind \<and> cs' = cs) \<or>
    digest_collision cp (derivation_input kind cs) (derivation_input kind' cs')"
proof (cases "derivation_input kind cs = derivation_input kind' cs'")
  case True
  then show ?thesis
    using derivation_input_inject [OF True] derive_eq_Inr(4,5) [OF assms(1)] derive_eq_Inr(4,5) [OF assms(2)]
    by blast
next
  case False
  then show ?thesis
    using derive_eq_Inr(2) [OF assms(1)] derive_eq_Inr(2) [OF assms(2)] by (simp add: digest_collision_def)
qed

text \<open>
  C11: A sealed record is bound to its kind and to the components its context was derived
  from. If a record sealed under one derived context opens under another, then the two have
  the same kind and the same components in the same order and the plaintext is the sealed
  one. The only other explanations are a collision on the very values in play: of the digest
  on the two derivation inputs, or of the cipher, under the nonce and with the ciphertext of
  this record, on the two different associated data that the code computes for the two
  contexts. Moving a component boundary, reordering components or changing the kind never
  maps to the same input. The cipher is assumed to append its tag and, under given key,
  nonce and associated data, to open exactly what it seals.
\<close>
theorem sealed_record_bound:
  assumes "aead_rules cp"
    and "SecretRecordContext_derive cp kind cs = Inr cx"
    and "SecretRecordContext_derive cp kind' cs' = Inr cx'"
    and "SecretSealer_seal cp s (Some nonce) cx p = Inr (SealedBlob (header nonce @ c))"
    and "SecretSealer_open cp s cx' (SealedBlob (header nonce @ c)) = Inr q"
  shows "(kind' = kind \<and> cs' = cs \<and> q = p) \<or>
    digest_collision cp (derivation_input kind cs) (derivation_input kind' cs') \<or>
    aead_collision cp (ci_key (sl_cipher s)) nonce
      (associated_data cx (header nonce), p) (associated_data cx' (header nonce), q) c"
proof (cases "cx' = cx")
  case True
  then show ?thesis
    using open_seal [OF assms(1,4)] assms(5) derive_inject [OF assms(2)] assms(3) by auto
next
  case False
  let ?k = "ci_key (sl_cipher s)"
  have sealed: "cp_seal cp ?k nonce (associated_data cx (header nonce)) p = Some c"
    and f: "length nonce = 12" "16 \<le> length c" "length c \<le> MAX_SECRET_PLAINTEXT_BYTES + 16"
    using assms(4) by (auto simp: seal_eq_Inr)
  have "cp_open cp ?k nonce (associated_data cx' (header nonce)) c = Some q"
    using assms(5) f by (simp add: open_frame)
  then have "cp_seal cp ?k nonce (associated_data cx' (header nonce)) q = Some c"
    by (rule aead_openD [OF assms(1)])
  moreover have "associated_data cx (header nonce) \<noteq> associated_data cx' (header nonce)"
    using associated_data_inject derive_eq_Inr(3) [OF assms(2)] derive_eq_Inr(3) [OF assms(3)] False by blast
  ultimately show ?thesis using sealed unfolding aead_collision_def by simp
qed

section \<open>Instances\<close>

text \<open>A provider that meets the rules: the tag holds the start of the record identifier.\<close>

definition sample_tag :: "bytes \<Rightarrow> bytes" where
  "sample_tag a = take 16 (drop (length a - 32) a @ replicate 16 0)"

definition sample_provider :: crypto_provider where
  "sample_provider =
     \<lparr>cp_unbound_key = (\<lambda>k. length k = 32),
      cp_seal = (\<lambda>k n a p. Some (p @ sample_tag a)),
      cp_open = (\<lambda>k n a c. if 16 \<le> length c \<and> drop (length c - 16) c = sample_tag a
                  then Some (take (length c - 16) c) else None),
      cp_sha256 = (\<lambda>bs. take 32 (rev bs @ replicate 32 0))\<rparr>"

definition sample_sealer :: secret_sealer where
  "sample_sealer = \<lparr>sl_cipher = \<lparr>ci_key = replicate 32 7\<rparr>\<rparr>"

lemma length_sample_tag [simp]: "length (sample_tag a) = 16"
  by (simp add: sample_tag_def)

lemma sample_provider_rules: "aead_rules sample_provider"
  by (auto simp: aead_rules_def sample_provider_def AUTHENTICATED_CIPHER_TAG_BYTES_def
      split: if_splits) (metis append_take_drop_id)

definition sample_context :: secret_record_context where
  "sample_context =
     \<lparr>cx_kind = KindTrustedDeviceBinding,
      cx_identifier = cp_sha256 sample_provider (derivation_input KindTrustedDeviceBinding [[1], [2, 3]])\<rparr>"

definition sealed_sample :: sealed_blob where
  "sealed_sample = SealedBlob (header (replicate 12 5) @ [42] @
     sample_tag (associated_data sample_context (header (replicate 12 5))))"

lemma sample_context_derived:
  "SecretRecordContext_derive sample_provider KindTrustedDeviceBinding [[1], [2, 3]] = Inr sample_context"
  by (simp add: SecretRecordContext_derive_def sample_context_def derivation_input_def prefixed_def
      SecretRecordContext_new_def sample_provider_def MAX_CONTEXT_COMPONENTS_def cipher_sizes
      checked_add_usize_def MAX_RECORD_IDENTIFIER_BYTES_def)

lemma sealed_sample_sealed:
  "SecretSealer_seal sample_provider sample_sealer (Some (replicate 12 5)) sample_context [42] =
     Inr sealed_sample"
  by (simp add: seal_eq_Inr sealed_sample_def sample_provider_def sample_sealer_def cipher_sizes)

theorem open_exactly_sealed_witness:
  "aead_rules sample_provider \<and>
   SecretSealer_open sample_provider sample_sealer sample_context sealed_sample = Inr [42]"
  using open_exactly_sealed [OF sample_provider_rules, of sample_sealer sample_context sealed_sample "[42]"]
    sealed_sample_sealed sample_provider_rules by blast

text \<open>
  The sample digest keeps the last 32 bytes of its input, so it does not tell apart two long
  components that differ in their first byte. It does tell apart reordered components.
\<close>

definition long_context :: secret_record_context where
  "long_context =
     \<lparr>cx_kind = KindTrustedDeviceBinding,
      cx_identifier = cp_sha256 sample_provider (derivation_input KindTrustedDeviceBinding [replicate 40 1])\<rparr>"

definition long_tag :: bytes where
  "long_tag = sample_tag (associated_data long_context (header (replicate 12 5)))"

lemma long_contexts_derived:
  "SecretRecordContext_derive sample_provider KindTrustedDeviceBinding [replicate 40 1] = Inr long_context"
  "SecretRecordContext_derive sample_provider KindTrustedDeviceBinding [2 # replicate 39 1] = Inr long_context"
  by (simp_all add: SecretRecordContext_derive_def long_context_def derivation_input_def prefixed_def
      SecretRecordContext_new_def sample_provider_def MAX_CONTEXT_COMPONENTS_def cipher_sizes
      checked_add_usize_def MAX_RECORD_IDENTIFIER_BYTES_def)

definition swapped_context :: secret_record_context where
  "swapped_context =
     \<lparr>cx_kind = KindTrustedDeviceBinding,
      cx_identifier = cp_sha256 sample_provider (derivation_input KindTrustedDeviceBinding [[2, 3], [1]])\<rparr>"

lemma swapped_context_derived:
  "SecretRecordContext_derive sample_provider KindTrustedDeviceBinding [[2, 3], [1]] = Inr swapped_context"
  by (simp add: SecretRecordContext_derive_def swapped_context_def derivation_input_def prefixed_def
      SecretRecordContext_new_def sample_provider_def MAX_CONTEXT_COMPONENTS_def cipher_sizes
      checked_add_usize_def MAX_RECORD_IDENTIFIER_BYTES_def)

lemma sample_tag_identifier:
  "length (cx_identifier cx) = 32 \<Longrightarrow> sample_tag (associated_data cx h) = take 16 (cx_identifier cx)"
  by (simp add: sample_tag_def associated_data_def)

lemma swapped_told_apart:
  "cx_identifier sample_context \<noteq> cx_identifier swapped_context"
  "sample_tag (associated_data sample_context h) \<noteq> sample_tag (associated_data swapped_context h)"
proof -
  have hd: "hd (cx_identifier sample_context) = 3" "hd (cx_identifier swapped_context) = 1"
    and len: "length (cx_identifier sample_context) = 32" "length (cx_identifier swapped_context) = 32"
    by (simp_all add: sample_context_def swapped_context_def sample_provider_def derivation_input_def prefixed_def)
  show "cx_identifier sample_context \<noteq> cx_identifier swapped_context" using hd by auto
  have "hd (sample_tag (associated_data sample_context h)) = 3" "hd (sample_tag (associated_data swapped_context h)) = 1"
    using hd by (simp_all add: sample_tag_identifier [OF len(1)] sample_tag_identifier [OF len(2)])
  then show "sample_tag (associated_data sample_context h) \<noteq> sample_tag (associated_data swapped_context h)" by auto
qed

lemma swapped_no_collision:
  "\<not> digest_collision sample_provider (derivation_input KindTrustedDeviceBinding [[1], [2, 3]])
     (derivation_input KindTrustedDeviceBinding [[2, 3], [1]])"
  "\<not> aead_collision sample_provider k nonce (associated_data sample_context h, p) (associated_data swapped_context h, q) c"
proof -
  show "\<not> digest_collision sample_provider (derivation_input KindTrustedDeviceBinding [[1], [2, 3]])
     (derivation_input KindTrustedDeviceBinding [[2, 3], [1]])"
    using swapped_told_apart(1) by (simp add: digest_collision_def sample_context_def swapped_context_def)
  have "cp_seal sample_provider k nonce a p = Some (p @ sample_tag a)" for a p
    by (simp add: sample_provider_def)
  then show "\<not> aead_collision sample_provider k nonce (associated_data sample_context h, p) (associated_data swapped_context h, q) c"
    using swapped_told_apart(2) [of h] by (auto simp: aead_collision_def)
qed

theorem sealed_record_bound_witness:
  "SecretSealer_open sample_provider sample_sealer long_context
     (SealedBlob (header (replicate 12 5) @ [42] @ long_tag)) = Inr [42] \<and>
   digest_collision sample_provider (derivation_input KindTrustedDeviceBinding [replicate 40 1])
     (derivation_input KindTrustedDeviceBinding [2 # replicate 39 1]) \<and>
   (\<nexists>q. SecretSealer_open sample_provider sample_sealer swapped_context sealed_sample = Inr q)"
proof -
  have sealed: "SecretSealer_seal sample_provider sample_sealer (Some (replicate 12 5)) long_context [42] =
      Inr (SealedBlob (header (replicate 12 5) @ [42] @ long_tag))"
    by (simp add: seal_eq_Inr long_tag_def sample_provider_def sample_sealer_def cipher_sizes)
  note opened = open_seal [OF sample_provider_rules sealed]
  have "2 # replicate 39 1 \<noteq> replicate 40 (1 :: u8)" by (simp add: Cons_replicate_eq)
  then have "digest_collision sample_provider (derivation_input KindTrustedDeviceBinding [replicate 40 1])
      (derivation_input KindTrustedDeviceBinding [2 # replicate 39 1])"
    using sealed_record_bound [OF sample_provider_rules long_contexts_derived sealed opened]
    by (simp add: aead_collision_def)
  moreover have False if "SecretSealer_open sample_provider sample_sealer swapped_context sealed_sample = Inr q" for q
    using sealed_record_bound [OF sample_provider_rules sample_context_derived swapped_context_derived
        sealed_sample_sealed [unfolded sealed_sample_def] that [unfolded sealed_sample_def]] swapped_no_collision
    by simp
  ultimately show ?thesis using opened by blast
qed

end
