(* ===== verification/Trusted_Device_Store.thy ===== *)
theory Trusted_Device_Store
  imports Trusted_Devices Secret_Storage
begin

text \<open>
  \<open>apps/Konclave.LocalDaemon/src/trusted_device_persistence.rs\<close>: the address book of
  trusted devices in the daemon's profile database. Every binding is a sealed row keyed by
  its device; a sealed state row commits to the number of bindings and to a digest over
  all of them, so that rows cannot be dropped or put back one by one. The two tables are a
  record; a statement is its effect on that record, and SQLite itself does not fail.
\<close>

section \<open>Errors and constants\<close>

datatype profile_store_error =
    PSE_RequestService request_service_error
  | PSE_InvalidProfileId
  | PSE_ProfileLocked
  | PSE_Io
  | PSE_Storage
  | PSE_UnsupportedSchema
  | PSE_ProfileMismatch
  | PSE_CorruptData
  | PSE_RelayNotConfigured
  | PSE_Credential
  | PSE_RelayAlreadyConfigured
  | PSE_RelayEnrollmentConflict
  | PSE_RelayMigrationConflict
  | PSE_ConversationExists
  | PSE_ConversationNotFound
  | PSE_ConversationMismatch
  | PSE_CollaborationPolicyNotFound
  | PSE_Protocol
  | PSE_Cryptographic
  | PSE_DuplicateOperation
  | PSE_OperationNotFound
  | PSE_LegacyOutboundRecoveryUnsupported
  | PSE_InvalidTransition
  | PSE_CursorGap
  | PSE_CursorConflict
  | PSE_SenderCounterRegression
  | PSE_SequenceExhausted
  | PSE_OutboxCapacityExceeded
  | PSE_InboxCapacityExceeded
  | PSE_RemoteEventCapacityExceeded
  | PSE_PairingCapacityExceeded
  | PSE_CollaborationPolicyCapacityExceeded
  | PSE_DirectedRequestHandlingCapacityExceeded
  | PSE_TrustedDeviceCapacityExceeded
  | PSE_TrustedDeviceNotFound
  | PSE_TrustedDeviceAliasConflict
  | PSE_TrustedDeviceRootMismatch
  | PSE_TrustedDeviceRemoved
  | PSE_TrustedDeviceRepeatPairingUnsupported
  | PSE_RepeatPairingCapacityExceeded
  | PSE_RepeatPairingNotFound
  | PSE_CollaborationPolicyProposalNotFound
  | PSE_CollaborationPolicyProposalConflict
  | PSE_CollaborationPolicyReplacementMismatch
  | PSE_AdapterConsumerActive
  | PSE_InvalidAdapterLease

definition MAX_TRUSTED_DEVICE_BINDINGS :: usize where "MAX_TRUSTED_DEVICE_BINDINGS = 256"
definition TRUSTED_DEVICE_BINDING_VERSION :: u8 where "TRUSTED_DEVICE_BINDING_VERSION = 1"
definition TRUSTED_DEVICE_BINDING_STATE_VERSION :: u8 where "TRUSTED_DEVICE_BINDING_STATE_VERSION = 1"
definition MAX_TRUSTED_DEVICE_BINDING_BYTES :: usize where
  "MAX_TRUSTED_DEVICE_BINDING_BYTES = 2 + MAX_TRUSTED_DEVICE_ALIAS_BYTES + 32 + 32"
definition MAX_SEALED_TRUSTED_DEVICE_BINDING_BYTES :: usize where
  "MAX_SEALED_TRUSTED_DEVICE_BINDING_BYTES = MAX_TRUSTED_DEVICE_BINDING_BYTES + 64"
definition TRUSTED_DEVICE_BINDING_STATE_BYTES :: usize where
  "TRUSTED_DEVICE_BINDING_STATE_BYTES = 1 + 8 + 32"
definition MAX_SEALED_TRUSTED_DEVICE_BINDING_STATE_BYTES :: usize where
  "MAX_SEALED_TRUSTED_DEVICE_BINDING_STATE_BYTES = TRUSTED_DEVICE_BINDING_STATE_BYTES + 64"
definition TRUSTED_DEVICE_BINDING_CONTEXT_VERSION :: bytes where
  "TRUSTED_DEVICE_BINDING_CONTEXT_VERSION = ascii ''trusted-device-binding-v1''"
definition TRUSTED_DEVICE_BINDING_STATE_CONTEXT_VERSION :: bytes where
  "TRUSTED_DEVICE_BINDING_STATE_CONTEXT_VERSION = ascii ''trusted-device-binding-state-v1''"
definition TRUSTED_DEVICE_BINDING_DIGEST_DOMAIN :: bytes where
  "TRUSTED_DEVICE_BINDING_DIGEST_DOMAIN = ascii ''trusted-device-binding-map-v1'' @ [0]"

section \<open>Text\<close>

text \<open>\<open>str::from_utf8\<close>: the byte sequences of well-formed UTF-8.\<close>

definition utf8_continuation :: "u8 \<Rightarrow> bool" where
  "utf8_continuation b \<longleftrightarrow> 0x80 \<le> b \<and> b \<le> 0xBF"

definition utf8_second_of_3 :: "u8 \<Rightarrow> u8 \<Rightarrow> bool" where
  "utf8_second_of_3 a b \<longleftrightarrow>
     utf8_continuation b \<and> (a = 0xE0 \<longrightarrow> 0xA0 \<le> b) \<and> (a = 0xED \<longrightarrow> b \<le> 0x9F)"

definition utf8_second_of_4 :: "u8 \<Rightarrow> u8 \<Rightarrow> bool" where
  "utf8_second_of_4 a b \<longleftrightarrow>
     utf8_continuation b \<and> (a = 0xF0 \<longrightarrow> 0x90 \<le> b) \<and> (a = 0xF4 \<longrightarrow> b \<le> 0x8F)"

fun utf8_valid :: "bytes \<Rightarrow> bool" where
  "utf8_valid [] = True"
| "utf8_valid (a # bs) =
     (if a < 0x80 then utf8_valid bs
      else if 0xC2 \<le> a \<and> a \<le> 0xDF then
        (case bs of b # cs \<Rightarrow> utf8_continuation b \<and> utf8_valid cs | _ \<Rightarrow> False)
      else if 0xE0 \<le> a \<and> a \<le> 0xEF then
        (case bs of b # c # ds \<Rightarrow> utf8_second_of_3 a b \<and> utf8_continuation c \<and> utf8_valid ds | _ \<Rightarrow> False)
      else if 0xF0 \<le> a \<and> a \<le> 0xF4 then
        (case bs of b # c # d # es \<Rightarrow>
           utf8_second_of_4 a b \<and> utf8_continuation c \<and> utf8_continuation d \<and> utf8_valid es
         | _ \<Rightarrow> False)
      else False)"

definition from_utf8 :: "bytes \<Rightarrow> string option" where
  "from_utf8 bs = (if utf8_valid bs then Some (map (\<lambda>b. char_of (unat b)) bs) else None)"

section \<open>The binding format\<close>

definition encode_trusted_device_binding :: "trusted_device_binding \<Rightarrow> bytes" where
  "encode_trusted_device_binding binding =
     (let name = ascii (alias_as_str (tb_alias binding)) in
      [TRUSTED_DEVICE_BINDING_VERSION, of_nat (length name)] @ name @
      device_id_bytes (tb_device_id binding) @ public_key_bytes (tb_device_root_public_key binding))"

definition DeviceId_from_slice :: "bytes \<Rightarrow> konclave_domain_error + device_id" where
  "DeviceId_from_slice = from_slice 32 ''device_id'' DeviceId"

definition Ed25519PublicKey_from_slice :: "bytes \<Rightarrow> konclave_domain_error + ed25519_public_key" where
  "Ed25519PublicKey_from_slice = from_slice 32 ''ed25519_public_key'' Ed25519PublicKey"

abbreviation "or_corrupt r \<equiv> map_err (\<lambda>_. PSE_CorruptData) r"
abbreviation "or_storage r \<equiv> map_err (\<lambda>_. PSE_Storage) r"

definition decode_trusted_device_binding :: "bytes \<Rightarrow> profile_store_error + trusted_device_binding" where
  "decode_trusted_device_binding bs =
     (if length bs < 2 + 32 + 32 \<or> length bs > MAX_TRUSTED_DEVICE_BINDING_BYTES \<or>
         bs ! 0 \<noteq> TRUSTED_DEVICE_BINDING_VERSION
      then Inl PSE_CorruptData
      else
        let alias_length = unat (bs ! 1);
            device_start = 2 + alias_length;
            root_start = device_start + 32 in
        if alias_length = 0 \<or> alias_length > MAX_TRUSTED_DEVICE_ALIAS_BYTES \<or>
           root_start + 32 \<noteq> length bs
        then Inl PSE_CorruptData
        else
          and_then (ok_or PSE_CorruptData (from_utf8 (take alias_length (drop 2 bs)))) (\<lambda>name.
          and_then (or_corrupt (TrustedDeviceAlias_parse name)) (\<lambda>name.
          and_then (or_corrupt (DeviceId_from_slice (take 32 (drop device_start bs)))) (\<lambda>device_id.
          and_then (or_corrupt (Ed25519PublicKey_from_slice (drop root_start bs))) (\<lambda>root.
          Inr \<lparr>tb_alias = name, tb_device_id = device_id, tb_device_root_public_key = root\<rparr>)))))"

text \<open>What the types of a binding guarantee: a parsed alias, and identifiers of their sizes.\<close>

definition binding_wf :: "trusted_device_binding \<Rightarrow> bool" where
  "binding_wf b \<longleftrightarrow> TrustedDeviceAlias_parse (alias_as_str (tb_alias b)) = Inr (tb_alias b) \<and>
     length (device_id_bytes (tb_device_id b)) = 32 \<and>
     length (public_key_bytes (tb_device_root_public_key b)) = 32"

section \<open>The tables\<close>

record trusted_device_db =
  td_rows :: "(bytes \<times> bytes) list" \<comment> \<open>\<open>daemon_trusted_device_binding\<close>: device id, sealed binding\<close>
  td_state :: "bytes option" \<comment> \<open>\<open>daemon_trusted_device_binding_state\<close>: the single row\<close>

record locked_profile =
  pf_profile_id :: bytes
  pf_sealer :: secret_sealer

record trusted_device_binding_state =
  ts_count :: usize
  ts_digest :: bytes

definition trusted_device_binding_context ::
    "crypto_provider \<Rightarrow> bytes \<Rightarrow> device_id \<Rightarrow> profile_store_error + secret_record_context" where
  "trusted_device_binding_context cp profile_id device_id =
     or_storage (SecretRecordContext_derive cp KindTrustedDeviceBinding
       [TRUSTED_DEVICE_BINDING_CONTEXT_VERSION, profile_id, device_id_bytes device_id])"

definition trusted_device_binding_state_context ::
    "crypto_provider \<Rightarrow> bytes \<Rightarrow> profile_store_error + secret_record_context" where
  "trusted_device_binding_state_context cp profile_id =
     or_storage (SecretRecordContext_derive cp KindTrustedDeviceBindingState
       [TRUSTED_DEVICE_BINDING_STATE_CONTEXT_VERSION, profile_id])"

definition validate_sealed_length :: "int \<Rightarrow> usize \<Rightarrow> profile_store_error + usize" where
  "validate_sealed_length len maximum =
     (if len < 0 then Inl PSE_CorruptData
      else if nat len = 0 \<or> nat len > maximum then Inl PSE_CorruptData
      else Inr (nat len))"

definition trusted_device_binding_digest :: "crypto_provider \<Rightarrow> trusted_device_binding list \<Rightarrow> bytes" where
  "trusted_device_binding_digest cp bindings =
     cp_sha256 cp (TRUSTED_DEVICE_BINDING_DIGEST_DOMAIN @ to_be_bytes 8 (length bindings) @
       concat (map (\<lambda>binding. let encoded = encode_trusted_device_binding binding in
         to_be_bytes 2 (length encoded) @ encoded) bindings))"

text \<open>\<open>iter().any(|binding| !aliases.insert(..))\<close> over a growing set.\<close>

fun alias_repeats :: "trusted_device_alias set \<Rightarrow> trusted_device_binding list \<Rightarrow> bool" where
  "alias_repeats aliases [] = False"
| "alias_repeats aliases (binding # bindings) =
     (tb_alias binding \<in> aliases \<or> alias_repeats (insert (tb_alias binding) aliases) bindings)"

definition validate_trusted_device_binding_set ::
    "trusted_device_binding list \<Rightarrow> profile_store_error + unit" where
  "validate_trusted_device_binding_set bindings =
     (if alias_repeats {} bindings then Inl PSE_CorruptData else Inr ())"

definition load_trusted_device_row ::
    "crypto_provider \<Rightarrow> locked_profile \<Rightarrow> trusted_device_db \<Rightarrow> bytes option \<times> int \<Rightarrow>
     profile_store_error + trusted_device_binding" where
  "load_trusted_device_row cp pf db metadata =
     and_then (ok_or PSE_CorruptData (fst metadata)) (\<lambda>device_id.
     and_then (or_corrupt (DeviceId_from_slice device_id)) (\<lambda>device_id.
     and_then (validate_sealed_length (snd metadata) MAX_SEALED_TRUSTED_DEVICE_BINDING_BYTES) (\<lambda>sealed_length.
     and_then (ok_or PSE_Storage (map_of (td_rows db) (device_id_bytes device_id))) (\<lambda>sealed.
     if length sealed \<noteq> sealed_length then Inl PSE_CorruptData
     else
       and_then (or_corrupt (SealedBlob_from_bytes sealed)) (\<lambda>sealed.
       and_then (trusted_device_binding_context cp (pf_profile_id pf) device_id) (\<lambda>cx.
       and_then (or_corrupt (SecretSealer_open cp (pf_sealer pf) cx sealed)) (\<lambda>plaintext.
       and_then (decode_trusted_device_binding plaintext) (\<lambda>binding.
       if tb_device_id binding \<noteq> device_id then Inl PSE_CorruptData else Inr binding))))))))"

definition load_trusted_device_bindings_from ::
    "crypto_provider \<Rightarrow> locked_profile \<Rightarrow> trusted_device_db \<Rightarrow>
     profile_store_error + trusted_device_binding list" where
  "load_trusted_device_bindings_from cp pf db =
     (let metadata = map (\<lambda>(device_id, sealed).
            (if length device_id = 32 then Some device_id else None, int (length sealed)))
            (sort_key fst (td_rows db)) in
      if length metadata > MAX_TRUSTED_DEVICE_BINDINGS then Inl PSE_CorruptData
      else collect (load_trusted_device_row cp pf db) metadata)"

definition seal_trusted_device_binding ::
    "crypto_provider \<Rightarrow> locked_profile \<Rightarrow> bytes option \<Rightarrow> trusted_device_binding \<Rightarrow>
     profile_store_error + sealed_blob" where
  "seal_trusted_device_binding cp pf random binding =
     and_then (trusted_device_binding_context cp (pf_profile_id pf) (tb_device_id binding)) (\<lambda>cx.
     or_storage (SecretSealer_seal cp (pf_sealer pf) random cx (encode_trusted_device_binding binding)))"

definition seal_trusted_device_binding_state ::
    "crypto_provider \<Rightarrow> locked_profile \<Rightarrow> bytes option \<Rightarrow> trusted_device_binding list \<Rightarrow>
     profile_store_error + sealed_blob" where
  "seal_trusted_device_binding_state cp pf random bindings =
     (if length bindings \<ge> 2 ^ 64 then Inl PSE_Storage
      else
        let plaintext = [TRUSTED_DEVICE_BINDING_STATE_VERSION] @ to_be_bytes 8 (length bindings) @
              trusted_device_binding_digest cp bindings in
        and_then (trusted_device_binding_state_context cp (pf_profile_id pf)) (\<lambda>cx.
        or_storage (SecretSealer_seal cp (pf_sealer pf) random cx plaintext)))"

definition open_trusted_device_binding_state ::
    "crypto_provider \<Rightarrow> locked_profile \<Rightarrow> trusted_device_db \<Rightarrow>
     profile_store_error + trusted_device_binding_state" where
  "open_trusted_device_binding_state cp pf db =
     and_then (ok_or PSE_CorruptData (td_state db)) (\<lambda>sealed.
     and_then (validate_sealed_length (int (length sealed))
       MAX_SEALED_TRUSTED_DEVICE_BINDING_STATE_BYTES) (\<lambda>sealed_length.
     if length sealed \<noteq> sealed_length then Inl PSE_CorruptData
     else
       and_then (or_corrupt (SealedBlob_from_bytes sealed)) (\<lambda>sealed.
       and_then (trusted_device_binding_state_context cp (pf_profile_id pf)) (\<lambda>cx.
       and_then (or_corrupt (SecretSealer_open cp (pf_sealer pf) cx sealed)) (\<lambda>plaintext.
       if length plaintext \<noteq> TRUSTED_DEVICE_BINDING_STATE_BYTES \<or>
          plaintext ! 0 \<noteq> TRUSTED_DEVICE_BINDING_STATE_VERSION
       then Inl PSE_CorruptData
       else Inr \<lparr>ts_count = from_be_bytes (take 8 (drop 1 plaintext)), ts_digest = drop 9 plaintext\<rparr>)))))"

definition trusted_device_tables ::
    "crypto_provider \<Rightarrow> locked_profile \<Rightarrow> bytes option \<Rightarrow> profile_store_error + trusted_device_db" where
  "trusted_device_tables cp pf random =
     and_then (seal_trusted_device_binding_state cp pf random []) (\<lambda>sealed_state.
     Inr \<lparr>td_rows = [], td_state = Some (blob_bytes sealed_state)\<rparr>)"

definition verify_trusted_device_bindings ::
    "crypto_provider \<Rightarrow> locked_profile \<Rightarrow> trusted_device_db \<Rightarrow> profile_store_error + unit" where
  "verify_trusted_device_bindings cp pf db =
     and_then (load_trusted_device_bindings_from cp pf db) (\<lambda>bindings.
     and_then (open_trusted_device_binding_state cp pf db) (\<lambda>committed.
     if ts_count committed \<noteq> length bindings \<or>
        ts_digest committed \<noteq> trusted_device_binding_digest cp bindings \<or>
        length bindings > MAX_TRUSTED_DEVICE_BINDINGS
     then Inl PSE_CorruptData
     else validate_trusted_device_binding_set bindings))"

definition trusted_device_binding_by_alias ::
    "crypto_provider \<Rightarrow> locked_profile \<Rightarrow> trusted_device_db \<Rightarrow> trusted_device_alias \<Rightarrow>
     profile_store_error + trusted_device_binding" where
  "trusted_device_binding_by_alias cp pf db name =
     and_then (load_trusted_device_bindings_from cp pf db) (\<lambda>bindings.
     ok_or PSE_TrustedDeviceNotFound (List.find (\<lambda>binding. tb_alias binding = name) bindings))"

fun trusted_device_domain_error :: "konclave_domain_error \<Rightarrow> profile_store_error" where
  "trusted_device_domain_error TrustedDeviceAliasConflict = PSE_TrustedDeviceAliasConflict"
| "trusted_device_domain_error TrustedDeviceRootMismatch = PSE_TrustedDeviceRootMismatch"
| "trusted_device_domain_error TrustedDeviceRemoved = PSE_TrustedDeviceRemoved"
| "trusted_device_domain_error TrustedDeviceRepeatPairingUnsupported =
     PSE_TrustedDeviceRepeatPairingUnsupported"
| "trusted_device_domain_error _ = PSE_CorruptData"

definition delete_binding_row :: "device_id \<Rightarrow> trusted_device_db \<Rightarrow> trusted_device_db" where
  "delete_binding_row device_id db =
     db\<lparr>td_rows := filter (\<lambda>row. fst row \<noteq> device_id_bytes device_id) (td_rows db)\<rparr>"

text \<open>The primary key and the length check of the table refuse a row.\<close>

definition insert_binding_row ::
    "device_id \<Rightarrow> bytes \<Rightarrow> trusted_device_db \<Rightarrow> profile_store_error + trusted_device_db" where
  "insert_binding_row device_id sealed db =
     (if length (device_id_bytes device_id) \<noteq> 32 \<or> device_id_bytes device_id \<in> fst ` set (td_rows db)
      then Inl PSE_Storage
      else Inr (db\<lparr>td_rows := td_rows db @ [(device_id_bytes device_id, sealed)]\<rparr>))"

text \<open>The deletions of the transaction: the row of the alias, then the row of the device.\<close>

definition delete_superseded ::
    "trusted_device_binding \<Rightarrow> trusted_device_binding option \<Rightarrow> trusted_device_binding option \<Rightarrow>
     trusted_device_db \<Rightarrow> trusted_device_db" where
  "delete_superseded candidate existing_by_alias existing_by_device db =
     (let db = (case existing_by_alias of
                  Some existing \<Rightarrow> delete_binding_row (tb_device_id existing) db | None \<Rightarrow> db) in
      case existing_by_device of
        Some existing \<Rightarrow>
          if (case existing_by_alias of
                None \<Rightarrow> True | Some by_alias \<Rightarrow> tb_device_id by_alias \<noteq> tb_device_id existing)
          then delete_binding_row (tb_device_id candidate) db else db
      | None \<Rightarrow> db)"

definition store_transaction ::
    "crypto_provider \<Rightarrow> locked_profile \<Rightarrow> bytes option \<Rightarrow> bytes option \<Rightarrow> trusted_device_binding \<Rightarrow>
     trusted_device_binding option \<Rightarrow> trusted_device_binding option \<Rightarrow> trusted_device_db \<Rightarrow>
     profile_store_error + trusted_device_db" where
  "store_transaction cp pf binding_random state_random candidate existing_by_alias existing_by_device db =
     (let db = delete_superseded candidate existing_by_alias existing_by_device db in
      and_then (seal_trusted_device_binding cp pf binding_random candidate) (\<lambda>sealed.
      and_then (insert_binding_row (tb_device_id candidate) (blob_bytes sealed) db) (\<lambda>db.
      and_then (load_trusted_device_bindings_from cp pf db) (\<lambda>updated.
      if length updated > MAX_TRUSTED_DEVICE_BINDINGS then Inl PSE_TrustedDeviceCapacityExceeded
      else
        and_then (validate_trusted_device_binding_set updated) (\<lambda>_.
        and_then (seal_trusted_device_binding_state cp pf state_random updated) (\<lambda>sealed_state.
        if td_state db = None then Inl PSE_CorruptData
        else Inr (db\<lparr>td_state := Some (blob_bytes sealed_state)\<rparr>)))))))"

definition store_trusted_device_binding ::
    "crypto_provider \<Rightarrow> locked_profile \<Rightarrow> bytes option \<Rightarrow> bytes option \<Rightarrow> trusted_device_binding \<Rightarrow>
     trusted_device_evidence list \<Rightarrow> trusted_device_db \<Rightarrow>
     (profile_store_error + trusted_device_alias_decision) \<times> trusted_device_db" where
  "store_trusted_device_binding cp pf binding_random state_random candidate evidence =
     transact (\<lambda>db.
       and_then (load_trusted_device_bindings_from cp pf db) (\<lambda>bindings.
       let existing_by_alias = List.find (\<lambda>binding. tb_alias binding = tb_alias candidate) bindings;
           existing_by_device = List.find (\<lambda>binding. tb_device_id binding = tb_device_id candidate) bindings in
       and_then (map_err trusted_device_domain_error
         (decide_trusted_device_alias candidate existing_by_alias existing_by_device evidence)) (\<lambda>decision.
       if decision = Identical then Inr (Inr decision, db)
       else
         and_then (open_trusted_device_binding_state cp pf db) (\<lambda>committed.
         if ts_count committed \<noteq> length bindings \<or>
            ts_digest committed \<noteq> trusted_device_binding_digest cp bindings
         then Inl PSE_CorruptData
         else
           and_then (store_transaction cp pf binding_random state_random candidate
             existing_by_alias existing_by_device db) (\<lambda>db.
           Inr (Inr decision, db))))))"

end
