(* ===== verification/Message_History.thy ===== *)
theory Message_History
  imports Domain_Application Trusted_Device_Store
begin

text \<open>
  Bounded pages over local message history: the query of
  \<open>crates/Konclave.DomainCore/src/message_history.rs\<close> with its cursor checks, and the
  scan of \<open>apps/Konclave.LocalDaemon/src/persistence/message_history.rs\<close>. The scan reads
  each candidate through two functions of the profile store that open the sealed record and
  compare its cursor with the relay evidence; they are arguments here, so what is shown
  holds for every way of storing the records.
\<close>

section \<open>Queries\<close>

definition MAX_MESSAGE_PAGE_SIZE :: usize where "MAX_MESSAGE_PAGE_SIZE = 100"

datatype message_history_order = Ascending | Descending

datatype message_history_query_error =
    InvalidOrder | InvalidPageSize | InvalidCursorBounds | InvalidTimeRange
  | CursorOutOfBounds | CursorOrderViolation | MissingContinuationCursor

definition MessageHistoryOrder_try_from :: "string \<Rightarrow> message_history_query_error + message_history_order" where
  "MessageHistoryOrder_try_from value =
     (if value = ''asc'' then Inr Ascending
      else if value = ''desc'' then Inr Descending
      else Inl InvalidOrder)"

text \<open>The instants are \<open>i64\<close>; a cursor that does not fit \<open>i64\<close> is refused.\<close>

record message_history_query =
  mq_order :: message_history_order
  mq_after_cursor :: u64
  mq_before_cursor :: "u64 option"
  mq_since_unix_milliseconds :: "int option"
  mq_until_unix_milliseconds :: "int option"
  mq_limit :: usize

definition fits_i64 :: "u64 \<Rightarrow> bool" where
  "fits_i64 value \<longleftrightarrow> uint value < 2 ^ 63"

definition MessageHistoryQuery_new ::
    "message_history_order \<Rightarrow> u64 \<Rightarrow> u64 option \<Rightarrow> int option \<Rightarrow> int option \<Rightarrow> usize \<Rightarrow>
     message_history_query_error + message_history_query" where
  "MessageHistoryQuery_new order after_cursor before_cursor since_ms until_ms limit =
     (if \<not> (1 \<le> limit \<and> limit \<le> MAX_MESSAGE_PAGE_SIZE) then Inl InvalidPageSize
      else if \<not> fits_i64 after_cursor \<or>
              (case before_cursor of None \<Rightarrow> False
               | Some before \<Rightarrow> \<not> fits_i64 before \<or> before \<le> after_cursor)
      then Inl InvalidCursorBounds
      else if (case (since_ms, until_ms) of (Some since, Some until) \<Rightarrow> since > until | _ \<Rightarrow> False)
      then Inl InvalidTimeRange
      else Inr \<lparr>mq_order = order, mq_after_cursor = after_cursor, mq_before_cursor = before_cursor,
                mq_since_unix_milliseconds = since_ms, mq_until_unix_milliseconds = until_ms,
                mq_limit = limit\<rparr>)"

definition scan_limit :: "message_history_query \<Rightarrow> usize" where
  "scan_limit q =
     (if mq_since_unix_milliseconds q \<noteq> None \<or> mq_until_unix_milliseconds q \<noteq> None
      then MAX_MESSAGE_PAGE_SIZE else mq_limit q)"

definition matches_timestamp :: "message_history_query \<Rightarrow> u64 \<Rightarrow> bool" where
  "matches_timestamp q sent_at =
     ((case mq_since_unix_milliseconds q of None \<Rightarrow> True | Some since \<Rightarrow> uint sent_at \<ge> since) \<and>
      (case mq_until_unix_milliseconds q of None \<Rightarrow> True | Some until \<Rightarrow> uint sent_at < until))"

definition contains_cursor :: "message_history_query \<Rightarrow> u64 \<Rightarrow> bool" where
  "contains_cursor q cursor =
     (fits_i64 cursor \<and> cursor > mq_after_cursor q \<and>
      (case mq_before_cursor q of None \<Rightarrow> True | Some before \<Rightarrow> cursor < before))"

definition validate_cursor ::
    "message_history_query \<Rightarrow> u64 \<Rightarrow> u64 option \<Rightarrow> message_history_query_error + unit" where
  "validate_cursor q cursor previous_scanned_cursor =
     (if \<not> contains_cursor q cursor \<or>
         (case previous_scanned_cursor of None \<Rightarrow> False | Some previous \<Rightarrow> \<not> contains_cursor q previous)
      then Inl CursorOutOfBounds
      else if (case previous_scanned_cursor of None \<Rightarrow> False
               | Some previous \<Rightarrow>
                   (case mq_order q of Ascending \<Rightarrow> cursor \<le> previous | Descending \<Rightarrow> cursor \<ge> previous))
      then Inl CursorOrderViolation
      else Inr ())"

definition continuation_cursor ::
    "message_history_query \<Rightarrow> u64 option \<Rightarrow> bool \<Rightarrow> message_history_query_error + u64 option" where
  "continuation_cursor q last_scanned_cursor has_more =
     and_then (case last_scanned_cursor of None \<Rightarrow> Inr () | Some cursor \<Rightarrow> validate_cursor q cursor None) (\<lambda>_.
     case (has_more, last_scanned_cursor) of
       (True, None) \<Rightarrow> Inl MissingContinuationCursor
     | (True, Some cursor) \<Rightarrow> Inr (Some cursor)
     | (False, _) \<Rightarrow> Inr None)"

section \<open>Records and candidates\<close>

datatype message_direction = DirectionOutbound | DirectionInbound

datatype request_service_history_reply = ReplyPending | ReplyComplete message_id

record history_record =
  hc_cursor :: "u64 option"
  hc_direction :: message_direction
  hc_envelope_id :: envelope_id
  hc_sender :: device_id
  hc_epoch :: u64
  hc_message :: application_message
  hc_complete :: bool
  hc_request_service_reply :: "request_service_history_reply option"

record stored_history_message =
  sm_cursor :: u64
  sm_direction :: message_direction
  sm_envelope_id :: envelope_id
  sm_sender :: device_id
  sm_epoch :: u64
  sm_message :: application_message

record history_page =
  hp_messages :: "stored_history_message list"
  hp_has_more :: bool
  hp_next_cursor :: "u64 option"

definition stored_history_message_of :: "history_record \<Rightarrow> stored_history_message option" where
  "stored_history_message_of history =
     (if \<not> hc_complete history then None
      else map_option (\<lambda>cursor.
        \<lparr>sm_cursor = cursor, sm_direction = hc_direction history, sm_envelope_id = hc_envelope_id history,
         sm_sender = hc_sender history, sm_epoch = hc_epoch history, sm_message = hc_message history\<rparr>)
        (hc_cursor history))"

text \<open>
  What the candidate query sees of one row of \<open>daemon_message_history\<close> of the
  conversation: the identifier, the nullable cursor, the status, and whether a row of
  \<open>daemon_internal_application_message\<close> marks it as internal.
\<close>

record history_row =
  hw_message_id :: bytes
  hw_cursor :: "int option"
  hw_status :: int
  hw_internal :: bool

definition candidate_query ::
    "message_history_order \<Rightarrow> int \<Rightarrow> int \<Rightarrow> usize \<Rightarrow> history_row list \<Rightarrow> bytes option list" where
  "candidate_query order after_cursor upper_cursor limit rows =
     (let selected = filter (\<lambda>row. hw_status row = 2 \<and> \<not> hw_internal row \<and>
            (case hw_cursor row of None \<Rightarrow> False
             | Some cursor \<Rightarrow> cursor > after_cursor \<and> cursor \<le> upper_cursor)) rows;
          ordered = (case order of
              Ascending \<Rightarrow> sort_key (\<lambda>row. the (hw_cursor row)) selected
            | Descending \<Rightarrow> sort_key (\<lambda>row. - the (hw_cursor row)) selected) in
      map (\<lambda>row. if length (hw_message_id row) = 16 then Some (hw_message_id row) else None)
        (take limit ordered))"

section \<open>The scan\<close>

text \<open>
  \<open>hr_load\<close> is \<open>load_history_record\<close> and \<open>hr_verify\<close> is
  \<open>verify_history_cursor_binding\<close>, both for the conversation of the page.
\<close>

record history_reader =
  hr_load :: "message_id \<Rightarrow> profile_store_error + history_record option"
  hr_verify :: "history_record \<Rightarrow> u64 \<Rightarrow> profile_store_error + unit"

record loaded_conversation =
  lc_state :: conversation_state
  lc_replay_cursor :: u64

definition MessageId_from_slice :: "bytes \<Rightarrow> konclave_domain_error + message_id" where
  "MessageId_from_slice = from_slice 16 ''message_id'' MessageId"

definition profile_to_sql_integer :: "u64 \<Rightarrow> profile_store_error + int" where
  "profile_to_sql_integer value = (if fits_i64 value then Inr (uint value) else Inl PSE_SequenceExhausted)"

definition matches_service ::
    "conversation_state \<Rightarrow> request_service_channel option \<Rightarrow> history_record \<Rightarrow> bool" where
  "matches_service state channel history =
     (case channel of None \<Rightarrow> True
      | Some ch \<Rightarrow>
          state_member state (ch_requester_device_id ch) \<noteq> None \<and>
          hc_sender history = ch_requester_device_id ch \<and>
          hc_request_service_reply history = Some ReplyPending \<and>
          (case am_content (hc_message history) of
             DirectedRequest request \<Rightarrow> dr_target_device_id request = ch_operator_device_id ch
           | _ \<Rightarrow> False))"

fun scan_history ::
    "history_reader \<Rightarrow> message_history_query \<Rightarrow> u64 \<Rightarrow> (history_record \<Rightarrow> bool) \<Rightarrow> bytes list \<Rightarrow>
     stored_history_message list \<Rightarrow> u64 option \<Rightarrow> usize \<Rightarrow>
     profile_store_error + stored_history_message list \<times> u64 option \<times> usize" where
  "scan_history rd q upper_cursor service [] messages last_scanned scanned = Inr (messages, last_scanned, scanned)"
| "scan_history rd q upper_cursor service (message_id # message_ids) messages last_scanned scanned =
     and_then (or_corrupt (MessageId_from_slice message_id)) (\<lambda>message_id.
     and_then (and_then (hr_load rd message_id) (ok_or PSE_CorruptData)) (\<lambda>history.
     and_then (ok_or PSE_CorruptData (hc_cursor history)) (\<lambda>cursor.
     and_then (hr_verify rd history cursor) (\<lambda>_.
     if cursor > upper_cursor then Inl PSE_CorruptData
     else
       and_then (or_corrupt (validate_cursor q cursor last_scanned)) (\<lambda>_.
       and_then (ok_or PSE_CorruptData (stored_history_message_of history)) (\<lambda>message.
       if service history \<and> matches_timestamp q (am_sent_at_unix_milliseconds (sm_message message))
       then
         if length (messages @ [message]) = mq_limit q
         then Inr (messages @ [message], Some cursor, scanned + 1)
         else scan_history rd q upper_cursor service message_ids (messages @ [message]) (Some cursor) (scanned + 1)
       else scan_history rd q upper_cursor service message_ids messages (Some cursor) (scanned + 1)))))))"

definition upper_cursor_of :: "loaded_conversation \<Rightarrow> message_history_query \<Rightarrow> u64" where
  "upper_cursor_of conversation q =
     (case mq_before_cursor q of None \<Rightarrow> lc_replay_cursor conversation
      | Some before \<Rightarrow> min (lc_replay_cursor conversation) (before - 1))"

definition service_channel_of ::
    "conversation_state \<Rightarrow> device_id option \<Rightarrow> request_service_error + request_service_channel option" where
  "service_channel_of state operator =
     transpose_map (\<lambda>operator.
       and_then (ok_or ConversationMismatch (cs_request_service state)) (\<lambda>channel.
       if ch_operator_device_id channel \<noteq> operator then Inl InvalidOperator else Inr channel)) operator"

definition load_history_query_filtered ::
    "history_reader \<Rightarrow> loaded_conversation \<Rightarrow> history_row list \<Rightarrow> message_history_query \<Rightarrow>
     device_id option \<Rightarrow> profile_store_error + history_page" where
  "load_history_query_filtered rd conversation rows q operator =
     and_then (map_err PSE_RequestService (service_channel_of (lc_state conversation) operator)) (\<lambda>channel.
     let upper_cursor = upper_cursor_of conversation q in
     and_then (profile_to_sql_integer (mq_after_cursor q)) (\<lambda>after_sql.
     and_then (profile_to_sql_integer upper_cursor) (\<lambda>upper_sql.
     and_then (collect (ok_or PSE_Storage)
       (candidate_query (mq_order q) after_sql upper_sql (scan_limit q + 1) rows)) (\<lambda>message_ids.
     and_then (scan_history rd q upper_cursor (matches_service (lc_state conversation) channel)
       (take (scan_limit q) message_ids) [] None 0) (\<lambda>(messages, last_scanned, scanned).
     let has_more = length message_ids > scanned in
     and_then (or_corrupt (continuation_cursor q last_scanned has_more)) (\<lambda>next_cursor.
     Inr \<lparr>hp_messages = messages, hp_has_more = has_more, hp_next_cursor = next_cursor\<rparr>))))))"

definition load_history_query ::
    "history_reader \<Rightarrow> loaded_conversation \<Rightarrow> history_row list \<Rightarrow> message_history_query \<Rightarrow>
     profile_store_error + history_page" where
  "load_history_query rd conversation rows q = load_history_query_filtered rd conversation rows q None"

definition load_request_service_inbox ::
    "history_reader \<Rightarrow> loaded_conversation \<Rightarrow> history_row list \<Rightarrow> message_history_query \<Rightarrow>
     device_id \<Rightarrow> profile_store_error + history_page" where
  "load_request_service_inbox rd conversation rows q operator =
     load_history_query_filtered rd conversation rows q (Some operator)"

end
