(* ===== verification/Message_History_Props.thy ===== *)
theory Message_History_Props
  imports Message_History
begin

text \<open>
  Paging through local history is complete and exact: following the continuation cursor,
  as the tool contracts prescribe, returns every stored message that matches the query,
  once and in cursor order, in either direction, also through pages the filters leave empty.
\<close>

section \<open>Candidates\<close>

definition row_cursor :: "history_row \<Rightarrow> int" where
  "row_cursor row = the (hw_cursor row)"

text \<open>The position of a cursor in the order of the query.\<close>

definition position :: "message_history_query \<Rightarrow> int \<Rightarrow> int" where
  "position q cursor = (case mq_order q of Ascending \<Rightarrow> cursor | Descending \<Rightarrow> - cursor)"

definition in_range :: "loaded_conversation \<Rightarrow> message_history_query \<Rightarrow> history_row \<Rightarrow> bool" where
  "in_range conv q row \<longleftrightarrow> hw_status row = 2 \<and> \<not> hw_internal row \<and> hw_cursor row \<noteq> None \<and>
     uint (mq_after_cursor q) < row_cursor row \<and> row_cursor row \<le> uint (upper_cursor_of conv q)"

definition candidates :: "loaded_conversation \<Rightarrow> history_row list \<Rightarrow> message_history_query \<Rightarrow> history_row list" where
  "candidates conv rows q = sort_key (position q \<circ> row_cursor) (filter (in_range conv q) rows)"

lemma candidate_query_eq:
  "candidate_query (mq_order q) (uint (mq_after_cursor q)) (uint (upper_cursor_of conv q)) n rows =
     map (\<lambda>row. if length (hw_message_id row) = 16 then Some (hw_message_id row) else None)
       (take n (candidates conv rows q))"
proof -
  have "(\<lambda>row. hw_status row = 2 \<and> \<not> hw_internal row \<and> (case hw_cursor row of None \<Rightarrow> False
      | Some cursor \<Rightarrow> cursor > uint (mq_after_cursor q) \<and> cursor \<le> uint (upper_cursor_of conv q))) = in_range conv q"
    by (auto simp: in_range_def row_cursor_def fun_eq_iff split: option.splits)
  then show ?thesis
    by (cases "mq_order q") (simp_all add: candidate_query_def candidates_def position_def row_cursor_def comp_def)
qed

text \<open>What the store guarantees of a candidate: it opens, and to the cursor of its row.\<close>

definition readable :: "history_reader \<Rightarrow> history_row \<Rightarrow> bool" where
  "readable rd row \<longleftrightarrow> length (hw_message_id row) = 16 \<and>
     (case hr_load rd (MessageId (hw_message_id row)) of
        Inr (Some h) \<Rightarrow> hc_complete h \<and>
          (case hc_cursor h of Some w \<Rightarrow> hw_cursor row = Some (uint w) \<and> hr_verify rd h w = Inr () | None \<Rightarrow> False)
      | _ \<Rightarrow> False)"

definition row_record :: "history_reader \<Rightarrow> history_row \<Rightarrow> history_record" where
  "row_record rd row = the (projr (hr_load rd (MessageId (hw_message_id row))))"

definition row_message :: "history_reader \<Rightarrow> history_row \<Rightarrow> stored_history_message" where
  "row_message rd row = the (stored_history_message_of (row_record rd row))"

definition wanted ::
    "history_reader \<Rightarrow> (history_record \<Rightarrow> bool) \<Rightarrow> message_history_query \<Rightarrow> history_row \<Rightarrow> bool" where
  "wanted rd service q row \<longleftrightarrow> service (row_record rd row) \<and>
     matches_timestamp q (am_sent_at_unix_milliseconds (sm_message (row_message rd row)))"

lemma readableE:
  assumes "readable rd row"
  obtains w where "length (hw_message_id row) = 16"
    "hr_load rd (MessageId (hw_message_id row)) = Inr (Some (row_record rd row))"
    "hc_cursor (row_record rd row) = Some w" "row_cursor row = uint w"
    "hr_verify rd (row_record rd row) w = Inr ()"
    "stored_history_message_of (row_record rd row) = Some (row_message rd row)"
  using assms unfolding readable_def row_message_def
  by (auto simp: row_record_def row_cursor_def stored_history_message_of_def split: sum.splits option.splits)

lemma positions_strict:
  assumes "distinct (map row_cursor (filter (in_range conv q) rows))"
  shows "sorted_wrt (\<lambda>a b. position q (row_cursor a) < position q (row_cursor b)) (candidates conv rows q)"
proof -
  have "inj (position q)" by (cases "mq_order q") (auto simp: position_def inj_def)
  then have "distinct (map (position q \<circ> row_cursor) (filter (in_range conv q) rows))"
    using assms by (metis distinct_map map_map inj_on_subset subset_UNIV)
  then have "distinct (map (position q \<circ> row_cursor) (candidates conv rows q))"
    unfolding candidates_def by (metis mset_map mset_sort mset_eq_imp_distinct_iff)
  moreover have "sorted (map (position q \<circ> row_cursor) (candidates conv rows q))"
    by (simp add: candidates_def)
  ultimately have "sorted_wrt (<) (map (position q \<circ> row_cursor) (candidates conv rows q))"
    using strict_sorted_iff by blast
  then show ?thesis by (simp add: sorted_wrt_map)
qed

lemma filter_beyond:
  assumes "sorted_wrt (\<lambda>a b. (f a :: int) < f b) xs" "0 < j" "j \<le> length xs"
  shows "filter (\<lambda>x. f (xs ! (j - 1)) < f x) xs = drop j xs"
  using assms
proof (induction xs arbitrary: j)
  case (Cons x xs)
  show ?case
  proof (cases "j = 1")
    case True
    then show ?thesis using Cons.prems(1) by (auto simp: filter_id_conv)
  next
    case False
    then obtain k where k: "j = Suc k" "0 < k" "k \<le> length xs" using Cons.prems(2,3) by (cases j) auto
    then have "xs ! (k - 1) \<in> set xs" by (intro nth_mem) simp
    then have "\<not> f (xs ! (k - 1)) < f x" using Cons.prems(1) by (auto simp: not_less intro: less_imp_le)
    then show ?thesis using Cons.IH [of k] Cons.prems(1) k by (simp add: nth_Cons')
  qed
qed simp

section \<open>One page\<close>

text \<open>The bounds of the query are those the constructor admits, and the replay cursor is stored as \<open>i64\<close>.\<close>

definition query_ok :: "message_history_query \<Rightarrow> bool" where
  "query_ok q \<longleftrightarrow> 1 \<le> mq_limit q \<and> mq_limit q \<le> MAX_MESSAGE_PAGE_SIZE \<and> fits_i64 (mq_after_cursor q) \<and>
     (\<forall>before. mq_before_cursor q = Some before \<longrightarrow> fits_i64 before \<and> mq_after_cursor q < before)"

lemma query_new_ok:
  "MessageHistoryQuery_new order after_cursor before_cursor since_ms until_ms limit = Inr q \<Longrightarrow> query_ok q"
  by (auto simp: MessageHistoryQuery_new_def query_ok_def not_le split: if_splits option.splits)

lemma uint_upper_cursor:
  assumes "query_ok q"
  shows "uint (upper_cursor_of conv q) =
    (case mq_before_cursor q of None \<Rightarrow> uint (lc_replay_cursor conv)
     | Some before \<Rightarrow> min (uint (lc_replay_cursor conv)) (uint before - 1))"
proof (cases "mq_before_cursor q")
  case (Some before)
  then have "mq_after_cursor q < before" using assms by (simp add: query_ok_def)
  then have "0 < uint before" by (metis uint_ge_0 order.strict_trans1 word_less_def)
  then have "uint (before - 1) = uint before - 1" by (simp add: uint_sub_if')
  then show ?thesis using Some by (auto simp: upper_cursor_of_def min_def word_le_def)
qed (simp add: upper_cursor_of_def)

lemma in_range_contains:
  assumes "query_ok q" "fits_i64 (lc_replay_cursor conv)" "in_range conv q row" "row_cursor row = uint w"
  shows "contains_cursor q w" "\<not> upper_cursor_of conv q < w"
  using assms uint_upper_cursor [OF assms(1), of conv]
  by (auto simp: in_range_def contains_cursor_def fits_i64_def word_less_def split: option.splits)

definition row_word :: "history_reader \<Rightarrow> history_row \<Rightarrow> u64" where
  "row_word rd row = the (hc_cursor (row_record rd row))"

text \<open>The scanned cursor lies within the query and before the rows still to come.\<close>

definition behind :: "message_history_query \<Rightarrow> u64 option \<Rightarrow> history_row list \<Rightarrow> bool" where
  "behind q last_scanned rs \<longleftrightarrow> (\<forall>w. last_scanned = Some w \<longrightarrow>
     contains_cursor q w \<and> (\<forall>row \<in> set rs. position q (uint w) < position q (row_cursor row)))"

lemma validate_next:
  assumes "contains_cursor q w" "behind q last_scanned (row # rs)" "row_cursor row = uint w"
  shows "validate_cursor q w last_scanned = Inr ()"
  using assms
  by (auto simp: validate_cursor_def behind_def position_def word_le_def
      split: option.splits message_history_order.splits)

lemma scan_step:
  assumes "query_ok q" "fits_i64 (lc_replay_cursor conv)" "in_range conv q row" "readable rd row"
    and "behind q last_scanned (row # rs)"
  shows "scan_history rd q (upper_cursor_of conv q) service (hw_message_id row # ids) ms last_scanned n =
    (if wanted rd service q row
     then if length (ms @ [row_message rd row]) = mq_limit q
       then Inr (ms @ [row_message rd row], Some (row_word rd row), n + 1)
       else scan_history rd q (upper_cursor_of conv q) service ids (ms @ [row_message rd row]) (Some (row_word rd row)) (n + 1)
     else scan_history rd q (upper_cursor_of conv q) service ids ms (Some (row_word rd row)) (n + 1))"
    "row_cursor row = uint (row_word rd row)" "contains_cursor q (row_word rd row)"
proof -
  obtain w where w: "length (hw_message_id row) = 16"
    "hr_load rd (MessageId (hw_message_id row)) = Inr (Some (row_record rd row))"
    "hc_cursor (row_record rd row) = Some w" "row_cursor row = uint w"
    "hr_verify rd (row_record rd row) w = Inr ()"
    "stored_history_message_of (row_record rd row) = Some (row_message rd row)"
    using assms(4) by (rule readableE)
  note range = in_range_contains [OF assms(1-3) w(4)]
  show "scan_history rd q (upper_cursor_of conv q) service (hw_message_id row # ids) ms last_scanned n =
    (if wanted rd service q row
     then if length (ms @ [row_message rd row]) = mq_limit q
       then Inr (ms @ [row_message rd row], Some (row_word rd row), n + 1)
       else scan_history rd q (upper_cursor_of conv q) service ids (ms @ [row_message rd row]) (Some (row_word rd row)) (n + 1)
     else scan_history rd q (upper_cursor_of conv q) service ids ms (Some (row_word rd row)) (n + 1))"
    using w range validate_next [OF range(1) assms(5) w(4)]
    by (simp add: MessageId_from_slice_def from_slice_ok row_word_def wanted_def)
  show "row_cursor row = uint (row_word rd row)" "contains_cursor q (row_word rd row)"
    using w range by (simp_all add: row_word_def)
qed

lemma scan_rows:
  assumes q: "query_ok q" "fits_i64 (lc_replay_cursor conv)"
  shows "(\<And>row. row \<in> set rs \<Longrightarrow> in_range conv q row \<and> readable rd row) \<Longrightarrow>
    sorted_wrt (\<lambda>a b. position q (row_cursor a) < position q (row_cursor b)) rs \<Longrightarrow> behind q last_scanned rs \<Longrightarrow>
    \<exists>j. scan_history rd q (upper_cursor_of conv q) service (map hw_message_id rs) ms last_scanned n =
        Inr (ms @ map (row_message rd) (filter (wanted rd service q) (take j rs)),
          if j = 0 then last_scanned else Some (row_word rd (rs ! (j - 1))), n + j) \<and>
      j \<le> length rs \<and> (rs \<noteq> [] \<longrightarrow> 0 < j)"
proof (induction rs arbitrary: ms last_scanned n)
  case (Cons row rs)
  have row: "in_range conv q row" "readable rd row" using Cons.prems(1) by simp_all
  note step = scan_step(1) [OF q row Cons.prems(3), where ids = "map hw_message_id rs" and ms = ms and n = n]
  have "behind q (Some (row_word rd row)) rs"
    using scan_step(2,3) [OF q row Cons.prems(3)] Cons.prems(2) by (auto simp: behind_def)
  then have IH: "\<exists>j. scan_history rd q (upper_cursor_of conv q) service (map hw_message_id rs) ms' (Some (row_word rd row)) (n + 1) =
        Inr (ms' @ map (row_message rd) (filter (wanted rd service q) (take j rs)),
          Some (row_word rd ((row # rs) ! j)), n + Suc j) \<and> j \<le> length rs" for ms'
    using Cons.IH [of "Some (row_word rd row)" ms' "n + 1"] Cons.prems(1,2)
    by (fastforce simp: nth_Cons' split: if_splits)
  show ?case
  proof (cases "wanted rd service q row \<and> length (ms @ [row_message rd row]) = mq_limit q")
    case True
    then show ?thesis using step by (intro exI [of _ 1]) (simp del: scan_history.simps)
  next
    case False
    let ?ms = "if wanted rd service q row then ms @ [row_message rd row] else ms"
    obtain j where j: "scan_history rd q (upper_cursor_of conv q) service (map hw_message_id rs) ?ms (Some (row_word rd row)) (n + 1) =
        Inr (?ms @ map (row_message rd) (filter (wanted rd service q) (take j rs)),
          Some (row_word rd ((row # rs) ! j)), n + Suc j)" "j \<le> length rs"
      using IH [of ?ms] by blast
    have "scan_history rd q (upper_cursor_of conv q) service (map hw_message_id (row # rs)) ms last_scanned n =
        Inr (?ms @ map (row_message rd) (filter (wanted rd service q) (take j rs)),
          Some (row_word rd ((row # rs) ! j)), n + Suc j)"
      using step False j(1) unfolding list.map(2) by (cases "wanted rd service q row") (simp_all only: if_True if_False simp_thms)
    then show ?thesis using j(2) by (intro exI [of _ "Suc j"]) (simp del: scan_history.simps)
  qed
qed simp

lemma candidates_in_range: "row \<in> set (candidates conv rows q) \<Longrightarrow> in_range conv q row \<and> row \<in> set rows"
  by (simp add: candidates_def)

lemma scan_limit_pos: "query_ok q \<Longrightarrow> 1 \<le> scan_limit q"
  by (simp add: query_ok_def scan_limit_def MAX_MESSAGE_PAGE_SIZE_def)

lemma scan_candidates:
  assumes q: "query_ok q" "fits_i64 (lc_replay_cursor conv)"
    and rows: "\<And>row. row \<in> set rows \<Longrightarrow> in_range conv q row \<Longrightarrow> readable rd row"
    and dist: "distinct (map row_cursor (filter (in_range conv q) rows))"
  obtains j where "scan_history rd q (upper_cursor_of conv q) service
      (map hw_message_id (take (scan_limit q) (candidates conv rows q))) [] None 0 =
        Inr (map (row_message rd) (filter (wanted rd service q) (take j (candidates conv rows q))),
          if j = 0 then None else Some (row_word rd (candidates conv rows q ! (j - 1))), j)"
    "j \<le> scan_limit q" "j \<le> length (candidates conv rows q)" "candidates conv rows q \<noteq> [] \<Longrightarrow> 0 < j"
proof -
  let ?cs = "candidates conv rows q" and ?n = "scan_limit q"
  have good: "in_range conv q row \<and> readable rd row" if "row \<in> set (take ?n ?cs)" for row
    using candidates_in_range [OF in_set_takeD [OF that]] rows by blast
  have strict: "sorted_wrt (\<lambda>a b. position q (row_cursor a) < position q (row_cursor b)) (take ?n ?cs)"
    using positions_strict [OF dist] by (rule sorted_wrt_take)
  have none: "behind q None (take ?n ?cs)" by (simp add: behind_def)
  obtain j where j: "scan_history rd q (upper_cursor_of conv q) service (map hw_message_id (take ?n ?cs)) [] None 0 =
        Inr ([] @ map (row_message rd) (filter (wanted rd service q) (take j (take ?n ?cs))),
          if j = 0 then None else Some (row_word rd (take ?n ?cs ! (j - 1))), 0 + j)"
    "j \<le> length (take ?n ?cs)" "take ?n ?cs \<noteq> [] \<longrightarrow> 0 < j"
    using scan_rows [OF q good strict none, of service "[]" 0] by blast
  have le: "j \<le> ?n" "j \<le> length ?cs" using j(2) by simp_all
  have "take ?n ?cs ! (j - 1) = ?cs ! (j - 1)" if "j \<noteq> 0" using that le by (intro nth_take) simp
  moreover have "take j (take ?n ?cs) = take j ?cs" using le by (simp add: min_def)
  moreover have "?cs \<noteq> [] \<Longrightarrow> take ?n ?cs \<noteq> []" using scan_limit_pos [OF q(1)] by auto
  ultimately show thesis using that [of j] j le by (simp cong: if_cong)
qed

text \<open>
  One page: it scans a prefix of the candidates, returns the wanted rows of that prefix, and
  has a continuation exactly when candidates are left, namely the last scanned cursor.
\<close>

lemma load_page:
  assumes q: "query_ok q" "fits_i64 (lc_replay_cursor conv)"
    and rows: "\<And>row. row \<in> set rows \<Longrightarrow> in_range conv q row \<Longrightarrow> readable rd row"
    and dist: "distinct (map row_cursor (filter (in_range conv q) rows))"
    and channel: "service_channel_of (lc_state conv) operator = Inr channel"
  obtains j page where "load_history_query_filtered rd conv rows q operator = Inr page"
    "hp_messages page = map (row_message rd)
       (filter (wanted rd (matches_service (lc_state conv) channel) q) (take j (candidates conv rows q)))"
    "hp_next_cursor page = None \<and> j = length (candidates conv rows q) \<or>
     0 < j \<and> j \<le> length (candidates conv rows q) \<and>
       hp_next_cursor page = Some (row_word rd (candidates conv rows q ! (j - 1)))"
proof -
  let ?cs = "candidates conv rows q" and ?m = "matches_service (lc_state conv) channel" and ?n = "scan_limit q"
  let ?ids = "map hw_message_id (take (?n + 1) ?cs)"
  have good: "in_range conv q row \<and> readable rd row" if "row \<in> set ?cs" for row
    using candidates_in_range [OF that] rows by blast
  have sql: "profile_to_sql_integer (mq_after_cursor q) = Inr (uint (mq_after_cursor q))"
    "profile_to_sql_integer (upper_cursor_of conv q) = Inr (uint (upper_cursor_of conv q))"
    using q uint_upper_cursor [OF q(1), of conv]
    by (auto simp: profile_to_sql_integer_def query_ok_def fits_i64_def split: option.splits)
  have "length (hw_message_id row) = 16" if "row \<in> set ?cs" for row
    using good [OF that] by (simp add: readable_def)
  then have ids: "collect (ok_or PSE_Storage)
      (candidate_query (mq_order q) (uint (mq_after_cursor q)) (uint (upper_cursor_of conv q)) (?n + 1) rows) = Inr ?ids"
    unfolding candidate_query_eq collect_eq_Inr
    by (auto simp: list_all2_map1 list_all2_map2 list_all2_same dest: in_set_takeD)
  obtain j where j: "scan_history rd q (upper_cursor_of conv q) ?m (map hw_message_id (take ?n ?cs)) [] None 0 =
        Inr (map (row_message rd) (filter (wanted rd ?m q) (take j ?cs)),
          if j = 0 then None else Some (row_word rd (?cs ! (j - 1))), j)"
    "j \<le> ?n" "j \<le> length ?cs" "?cs \<noteq> [] \<Longrightarrow> 0 < j"
    using scan_candidates [OF q rows dist, where service = ?m] by blast
  have prefix: "take ?n ?ids = map hw_message_id (take ?n ?cs)" by (simp add: take_map min_def)
  have more: "length ?ids > j \<longleftrightarrow> j < length ?cs" using j(2,3) by auto
  let ?last = "if j = 0 then None else Some (row_word rd (?cs ! (j - 1)))"
  have cont: "continuation_cursor q ?last (j < length ?cs) = Inr (if j < length ?cs then ?last else None)"
  proof (cases "j = 0")
    case False
    then have "?cs ! (j - 1) \<in> set ?cs" using j(3) by (intro nth_mem) simp
    then have row: "in_range conv q (?cs ! (j - 1))" "readable rd (?cs ! (j - 1))" using good by blast+
    have "contains_cursor q (row_word rd (?cs ! (j - 1)))"
      using scan_step(3) [OF q row, of None "[]"] by (simp add: behind_def)
    then show ?thesis using False by (simp add: continuation_cursor_def validate_cursor_def)
  qed (use j(4) in \<open>auto simp: continuation_cursor_def\<close>)
  have "load_history_query_filtered rd conv rows q operator =
      Inr \<lparr>hp_messages = map (row_message rd) (filter (wanted rd ?m q) (take j ?cs)), hp_has_more = (j < length ?cs),
        hp_next_cursor = (if j < length ?cs then ?last else None)\<rparr>"
    unfolding load_history_query_filtered_def Let_def channel map_err.simps and_then.simps sql ids prefix j(1)
      prod.case more cont by (rule refl)
  then show thesis using that [of _ j] j(3,4) by (cases "j < length ?cs") fastforce+
qed

section \<open>Following the continuation\<close>

text \<open>
  The next query, as \<open>docs/reference/agent-tool-contracts.md\<close> prescribes: the continuation
  cursor becomes the lower bound of an ascending page and the upper bound of a descending one.
\<close>

definition continue_query :: "message_history_query \<Rightarrow> u64 \<Rightarrow> message_history_query" where
  "continue_query q cursor =
     (case mq_order q of
        Ascending \<Rightarrow> q\<lparr>mq_after_cursor := cursor\<rparr>
      | Descending \<Rightarrow> q\<lparr>mq_before_cursor := Some cursor\<rparr>)"

text \<open>Pages are read until one has no continuation; \<open>None\<close> when the page budget runs out.\<close>

fun read_history ::
    "nat \<Rightarrow> history_reader \<Rightarrow> loaded_conversation \<Rightarrow> history_row list \<Rightarrow> message_history_query \<Rightarrow>
     device_id option \<Rightarrow> (profile_store_error + stored_history_message list) option" where
  "read_history 0 rd conv rows q operator = None"
| "read_history (Suc pages) rd conv rows q operator =
     (case load_history_query_filtered rd conv rows q operator of
        Inl e \<Rightarrow> Some (Inl e)
      | Inr page \<Rightarrow>
          (case hp_next_cursor page of
             None \<Rightarrow> Some (Inr (hp_messages page))
           | Some cursor \<Rightarrow>
               map_option (map_sum id (\<lambda>later. hp_messages page @ later))
                 (read_history pages rd conv rows (continue_query q cursor) operator)))"

lemma continue_query_keeps:
  "position (continue_query q cursor) = position q" "wanted rd service (continue_query q cursor) = wanted rd service q"
  by (cases "mq_order q"; simp add: continue_query_def position_def wanted_def matches_timestamp_def fun_eq_iff)+

lemma continue_query_ok: "query_ok q \<Longrightarrow> contains_cursor q cursor \<Longrightarrow> query_ok (continue_query q cursor)"
  by (cases "mq_order q") (auto simp: query_ok_def contains_cursor_def continue_query_def)

lemma continue_in_range:
  assumes "query_ok q" "contains_cursor q cursor"
  shows "in_range conv (continue_query q cursor) row \<longleftrightarrow>
    in_range conv q row \<and> position q (uint cursor) < position q (row_cursor row)"
proof -
  note upper = uint_upper_cursor [OF assms(1), of conv] uint_upper_cursor [OF continue_query_ok [OF assms], of conv]
  show ?thesis
  proof (cases "mq_order q")
    case Ascending
    then show ?thesis using assms(2) upper
      by (auto simp: in_range_def continue_query_def position_def contains_cursor_def word_less_def)
  next
    case Descending
    then show ?thesis using assms(2) upper
      by (auto simp: in_range_def continue_query_def position_def contains_cursor_def word_less_def split: option.splits)
  qed
qed

lemma continue_candidates:
  assumes "query_ok q" "contains_cursor q cursor"
    and dist: "distinct (map row_cursor (filter (in_range conv q) rows))"
    and j: "0 < j" "j \<le> length (candidates conv rows q)" "uint cursor = row_cursor (candidates conv rows q ! (j - 1))"
  shows "candidates conv rows (continue_query q cursor) = drop j (candidates conv rows q)"
proof -
  let ?past = "\<lambda>row. position q (uint cursor) < position q (row_cursor row)"
  have "in_range conv (continue_query q cursor) = (\<lambda>row. in_range conv q row \<and> ?past row)"
    by (rule ext) (rule continue_in_range [OF assms(1,2)])
  then have "filter (in_range conv (continue_query q cursor)) rows = filter ?past (filter (in_range conv q) rows)"
    by simp
  then have "candidates conv rows (continue_query q cursor) = filter ?past (candidates conv rows q)"
    by (simp add: candidates_def continue_query_keeps filter_sort)
  also have "\<dots> = drop j (candidates conv rows q)"
    using filter_beyond [OF positions_strict [OF dist] j(1,2)] j(3) by simp
  finally show ?thesis .
qed

lemma read_history_complete:
  assumes channel: "service_channel_of (lc_state conv) operator = Inr channel" and replay: "fits_i64 (lc_replay_cursor conv)"
  shows "query_ok q \<Longrightarrow> (\<And>row. row \<in> set rows \<Longrightarrow> in_range conv q row \<Longrightarrow> readable rd row) \<Longrightarrow>
    distinct (map row_cursor (filter (in_range conv q) rows)) \<Longrightarrow> length (candidates conv rows q) < pages \<Longrightarrow>
    read_history pages rd conv rows q operator =
      Some (Inr (map (row_message rd) (filter (wanted rd (matches_service (lc_state conv) channel) q) (candidates conv rows q))))"
proof (induction pages arbitrary: q)
  case (Suc pages)
  let ?cs = "candidates conv rows q" and ?w = "wanted rd (matches_service (lc_state conv) channel) q"
  obtain j page where page: "load_history_query_filtered rd conv rows q operator = Inr page"
    "hp_messages page = map (row_message rd) (filter ?w (take j ?cs))"
    "hp_next_cursor page = None \<and> j = length ?cs \<or>
     0 < j \<and> j \<le> length ?cs \<and> hp_next_cursor page = Some (row_word rd (?cs ! (j - 1)))"
    using load_page [OF Suc.prems(1) replay Suc.prems(2,3) channel] by blast
  show ?case
  proof (cases "hp_next_cursor page")
    case None
    then show ?thesis using page by simp
  next
    case (Some cursor)
    then have j: "0 < j" "j \<le> length ?cs" "cursor = row_word rd (?cs ! (j - 1))" using page(3) by auto
    then have "?cs ! (j - 1) \<in> set ?cs" by (intro nth_mem) simp
    then have row: "in_range conv q (?cs ! (j - 1))" "readable rd (?cs ! (j - 1))"
      using candidates_in_range Suc.prems(2) by blast+
    have cursor: "contains_cursor q cursor" "uint cursor = row_cursor (?cs ! (j - 1))"
      using scan_step(2,3) [OF Suc.prems(1) replay row, of None "[]"] j(3) by (simp_all add: behind_def)
    note rest = continue_candidates [OF Suc.prems(1) cursor(1) Suc.prems(3) j(1,2) cursor(2)]
    have sub: "in_range conv q r" if "in_range conv (continue_query q cursor) r" for r
      using that continue_in_range [OF Suc.prems(1) cursor(1)] by blast
    have "filter (in_range conv (continue_query q cursor)) rows =
        filter (in_range conv (continue_query q cursor)) (filter (in_range conv q) rows)"
      using sub by (auto intro: filter_cong)
    then have dist: "distinct (map row_cursor (filter (in_range conv (continue_query q cursor)) rows))"
      using distinct_map_filter [OF Suc.prems(3)] by simp
    have "read_history pages rd conv rows (continue_query q cursor) operator =
        Some (Inr (map (row_message rd) (filter ?w (drop j ?cs))))"
      using Suc.IH [OF continue_query_ok [OF Suc.prems(1) cursor(1)] Suc.prems(2) [OF _ sub] dist] Suc.prems(4) j(1,2)
      by (simp add: rest continue_query_keeps)
    then show ?thesis using page(1,2) Some
      by (simp flip: map_append filter_append)
  qed
qed simp

text \<open>
  C14: Reading local history page by page loses, repeats and reorders nothing. For every query
  the constructor accepts, ascending or descending, with or without timestamp bounds, and for
  the plain history as well as the request-service inbox, following the continuation cursor
  ends within one page more than there are candidate rows and returns exactly the stored
  messages within the cursor bounds that match the filters, in cursor order. The rows within
  the bounds have distinct cursors and open to a complete record with that cursor.
\<close>

theorem history_paging_complete:
  assumes "MessageHistoryQuery_new order after_cursor before_cursor since_ms until_ms limit = Inr q"
    and "fits_i64 (lc_replay_cursor conv)" and "service_channel_of (lc_state conv) operator = Inr channel"
    and "\<forall>row \<in> set rows. in_range conv q row \<longrightarrow> readable rd row"
    and "distinct (map row_cursor (filter (in_range conv q) rows))"
    and "length (candidates conv rows q) < pages"
  shows "read_history pages rd conv rows q operator =
    Some (Inr (map (row_message rd) (filter (wanted rd (matches_service (lc_state conv) channel) q) (candidates conv rows q))))"
  using assms by (intro read_history_complete query_new_ok) auto

definition history_sample :: "u8 \<Rightarrow> history_record" where
  "history_sample n =
     \<lparr>hc_cursor = Some (ucast n), hc_direction = DirectionInbound, hc_envelope_id = EnvelopeId (replicate 16 n),
      hc_sender = sample_device 1, hc_epoch = 0,
      hc_message = \<lparr>am_version = application_v1, am_message_id = MessageId (replicate 16 n), am_sender_counter = ucast n,
        am_sent_at_unix_milliseconds = ucast n, am_reply_to = None, am_content = Text ''hello''\<rparr>,
      hc_complete = True, hc_request_service_reply = None\<rparr>"

definition row_sample :: "bool \<Rightarrow> u8 \<Rightarrow> history_row" where
  "row_sample internal n =
     \<lparr>hw_message_id = replicate 16 n, hw_cursor = Some (uint n), hw_status = 2, hw_internal = internal\<rparr>"

definition reader_sample :: history_reader where
  "reader_sample =
     \<lparr>hr_load = (\<lambda>message_id. case message_id of MessageId value \<Rightarrow> Inr (Some (history_sample (hd value)))),
      hr_verify = (\<lambda>history cursor. if hc_cursor history = Some cursor then Inr () else Inl PSE_CorruptData)\<rparr>"

definition query_sample :: message_history_query where
  "query_sample =
     \<lparr>mq_order = Descending, mq_after_cursor = 0, mq_before_cursor = None, mq_since_unix_milliseconds = Some 2,
      mq_until_unix_milliseconds = None, mq_limit = 1\<rparr>"

lemmas history_samples = history_sample_def row_sample_def reader_sample_def query_sample_def

theorem history_paging_complete_witness:
  "read_history 4 reader_sample \<lparr>lc_state = sample_state None, lc_replay_cursor = 9\<rparr>
     [row_sample False 2, row_sample True 4, row_sample False 1, row_sample False 3] query_sample None =
   Some (Inr (map (the \<circ> stored_history_message_of \<circ> history_sample) [3, 2]))"
proof -
  let ?conv = "\<lparr>lc_state = sample_state None, lc_replay_cursor = 9\<rparr>"
  let ?rows = "[row_sample False 2, row_sample True 4, row_sample False 1, row_sample False 3]"
  have new: "MessageHistoryQuery_new Descending 0 None (Some 2) None 1 = Inr query_sample"
    by (simp add: MessageHistoryQuery_new_def query_sample_def MAX_MESSAGE_PAGE_SIZE_def fits_i64_def)
  have range: "filter (in_range ?conv query_sample) ?rows = [row_sample False 2, row_sample False 1, row_sample False 3]"
    by (simp add: in_range_def upper_cursor_of_def row_cursor_def row_sample_def query_sample_def)
  have cs: "candidates ?conv ?rows query_sample = [row_sample False 3, row_sample False 2, row_sample False 1]"
    unfolding candidates_def range by (simp add: position_def row_cursor_def row_sample_def query_sample_def sort_key_def)
  have readable: "readable reader_sample (row_sample b n)" for b n
    by (simp add: readable_def history_samples uint_up_ucast is_up)
  have "read_history 4 reader_sample ?conv ?rows query_sample None =
    Some (Inr (map (row_message reader_sample)
      (filter (wanted reader_sample (matches_service (lc_state ?conv) None) query_sample) (candidates ?conv ?rows query_sample))))"
  proof (rule history_paging_complete [OF new])
    show "distinct (map row_cursor (filter (in_range ?conv query_sample) ?rows))"
      unfolding range by (simp add: row_cursor_def row_sample_def)
  qed (simp_all add: fits_i64_def service_channel_of_def readable cs)
  moreover have "row_record reader_sample (row_sample b n) = history_sample n" for b n
    by (simp add: row_record_def reader_sample_def row_sample_def)
  ultimately show ?thesis
    unfolding cs by (simp add: wanted_def row_message_def matches_service_def matches_timestamp_def
      stored_history_message_of_def history_sample_def query_sample_def)
qed

end
