(* ===== verification/Trusted_Device_Props.thy ===== *)
theory Trusted_Device_Props
  imports Trusted_Device_Store
begin

text \<open>
  The address book of trusted devices: its binary format is exact, every store keeps the
  invariant that the startup verification checks, a store refines an update of the set of
  bindings, and the sealed state detects rows that were dropped, replayed or replaced.
\<close>

section \<open>The format\<close>

lemma unat_of_nat_char: "unat (of_nat (of_char c) :: u8) = of_char c"
  by (simp add: unat_of_nat)

lemma text_ascii [simp]: "map (\<lambda>b. char_of (unat b)) (ascii s) = s"
  by (induction s) (simp_all add: ascii_def unat_of_nat_char)

lemma ascii_text [simp]: "ascii (map (\<lambda>b. char_of (unat (b :: u8))) bs) = bs"
  by (induction bs) (simp_all add: ascii_def word_unat_eq_iff unat_of_nat unat_u8_less)

lemma length_ascii [simp]: "length (ascii s) = length s"
  by (simp add: ascii_def)

lemma ascii_inject [simp]: "ascii s = ascii t \<longleftrightarrow> s = t"
  by (metis text_ascii)

lemma parse_eq_Inr:
  assumes "TrustedDeviceAlias_parse v = Inr a"
  shows "a = TrustedDeviceAlias v" "v \<noteq> []" "length v \<le> 32"
    "\<And>c. c \<in> set v \<Longrightarrow> (of_char c :: nat) < 128"
  using assms by (auto simp: TrustedDeviceAlias_parse_def MAX_TRUSTED_DEVICE_ALIAS_BYTES_def
      is_ascii_lowercase_def is_ascii_digit_def less_eq_char_def split: if_splits)

lemma utf8_valid_ascii: "(\<And>b. b \<in> set bs \<Longrightarrow> b < 0x80) \<Longrightarrow> utf8_valid bs"
  by (induction bs) auto

lemma from_utf8_alias:
  assumes "TrustedDeviceAlias_parse v = Inr a"
  shows "from_utf8 (ascii v) = Some v"
proof -
  have "b < 0x80" if b: "b \<in> set (ascii v)" for b
  proof -
    obtain c where "c \<in> set v" "b = of_nat (of_char c)" using b by (auto simp: ascii_def)
    then show ?thesis
      using parse_eq_Inr(4) [OF assms] by (simp add: word_less_nat_alt unat_of_nat_char)
  qed
  then show ?thesis by (simp add: from_utf8_def utf8_valid_ascii)
qed

lemma binding_wfD:
  assumes "binding_wf b"
  shows "\<exists>v d k. b = \<lparr>tb_alias = TrustedDeviceAlias v, tb_device_id = DeviceId d,
      tb_device_root_public_key = Ed25519PublicKey k\<rparr> \<and>
    TrustedDeviceAlias_parse v = Inr (TrustedDeviceAlias v) \<and> length d = 32 \<and> length k = 32"
proof -
  obtain a dv r where "b = \<lparr>tb_alias = a, tb_device_id = dv, tb_device_root_public_key = r\<rparr>"
    by (cases b) auto
  then show ?thesis using assms
    by (cases a; cases dv; cases r) (simp add: binding_wf_def)
qed

lemma decode_encode:
  assumes "binding_wf b"
  shows "decode_trusted_device_binding (encode_trusted_device_binding b) = Inr b"
proof -
  obtain v d k where b: "b = \<lparr>tb_alias = TrustedDeviceAlias v, tb_device_id = DeviceId d,
      tb_device_root_public_key = Ed25519PublicKey k\<rparr>"
    and p: "TrustedDeviceAlias_parse v = Inr (TrustedDeviceAlias v)" and len: "length d = 32" "length k = 32"
    using binding_wfD [OF assms] by blast
  have "unat (of_nat (length v) :: u8) = length v" "1 \<le> length v" "length v \<le> 32"
    using parse_eq_Inr(2,3) [OF p] by (simp_all add: unat_of_nat Suc_le_eq)
  moreover have "drop (34 + length v) (x # y # ascii v @ d @ k) = k" for x y
    using len by (simp add: drop_Cons')
  ultimately show ?thesis
    using len from_utf8_alias [OF p] p parse_eq_Inr(2) [OF p]
    by (simp add: b encode_trusted_device_binding_def decode_trusted_device_binding_def
        MAX_TRUSTED_DEVICE_BINDING_BYTES_def MAX_TRUSTED_DEVICE_ALIAS_BYTES_def Let_def
        DeviceId_from_slice_def Ed25519PublicKey_from_slice_def from_slice_ok)
qed

lemma decode_sound:
  assumes "decode_trusted_device_binding bs = Inr b"
  shows "binding_wf b \<and> bs = encode_trusted_device_binding b"
proof -
  let ?n = "unat (bs ! 1)"
  have len: "66 \<le> length bs" "bs ! 0 = TRUSTED_DEVICE_BINDING_VERSION" "2 + ?n + 32 + 32 = length bs"
    using assms by (auto simp: decode_trusted_device_binding_def Let_def split: if_splits)
  obtain v where u: "from_utf8 (take ?n (drop 2 bs)) = Some v"
    and p: "TrustedDeviceAlias_parse v = Inr (tb_alias b)"
    and d: "tb_device_id b = DeviceId (take 32 (drop (2 + ?n) bs))"
    and k: "tb_device_root_public_key b = Ed25519PublicKey (drop (2 + ?n + 32) bs)"
    using assms by (auto simp: decode_trusted_device_binding_def Let_def DeviceId_from_slice_def
        Ed25519PublicKey_from_slice_def split: if_splits)
  have v: "take ?n (drop 2 bs) = ascii v" using u by (auto simp: from_utf8_def split: if_splits)
  have a: "tb_alias b = TrustedDeviceAlias v" using parse_eq_Inr(1) [OF p] .
  have lv: "length v = ?n" using arg_cong [OF v, of length] len by simp
  have "bs = [bs ! 0, bs ! 1] @ drop 2 bs"
    using len(1) by (cases bs; cases "tl bs") (simp_all add: numeral_2_eq_2)
  also have "drop 2 bs = ascii v @ take 32 (drop (2 + ?n) bs) @ drop (2 + ?n + 32) bs"
    using append_take_drop_id [of ?n "drop 2 bs"] append_take_drop_id [of 32 "drop (2 + ?n) bs"] v
    by (simp add: add.commute)
  finally have "bs = encode_trusted_device_binding b"
    using a d k lv len(2) by (simp add: encode_trusted_device_binding_def Let_def)
  moreover have "binding_wf b" using p a d k len by (simp add: binding_wf_def)
  ultimately show ?thesis by blast
qed

lemma decode_eq_Inr:
  "decode_trusted_device_binding bs = Inr b \<longleftrightarrow> binding_wf b \<and> bs = encode_trusted_device_binding b"
  using decode_encode decode_sound by blast

lemma encode_inject:
  "binding_wf b \<Longrightarrow> binding_wf c \<Longrightarrow>
   encode_trusted_device_binding b = encode_trusted_device_binding c \<longleftrightarrow> b = c"
  by (metis decode_encode sum.inject(2))

lemma length_encode:
  assumes "binding_wf b"
  shows "length (encode_trusted_device_binding b) \<le> 98"
  using binding_wfD [OF assms] by (auto simp: encode_trusted_device_binding_def dest: parse_eq_Inr(3))

section \<open>Rows\<close>

lemma collected_set:
  "list_all2 (\<lambda>x y. f x = Inr y) xs ys \<Longrightarrow> y \<in> set ys \<longleftrightarrow> (\<exists>x \<in> set xs. f x = Inr y)"
  by (induction rule: list_all2_induct) auto

lemma collected_in:
  "list_all2 (\<lambda>x y. f x = Inr y) xs ys \<Longrightarrow> x \<in> set xs \<Longrightarrow> \<exists>y \<in> set ys. f x = Inr y"
  by (induction rule: list_all2_induct) auto

text \<open>The digest has 32 bytes, as its type says.\<close>

definition digest_rule :: "crypto_provider \<Rightarrow> bool" where
  "digest_rule cp \<longleftrightarrow> (\<forall>bs. length (cp_sha256 cp bs) = 32)"

definition row_meta :: "bytes \<times> bytes \<Rightarrow> bytes option \<times> int" where
  "row_meta row = (if length (fst row) = 32 then Some (fst row) else None, int (length (snd row)))"

text \<open>What one row holds, by itself.\<close>

definition row_binding ::
    "crypto_provider \<Rightarrow> locked_profile \<Rightarrow> bytes \<times> bytes \<Rightarrow> profile_store_error + trusted_device_binding" where
  "row_binding cp pf row = load_trusted_device_row cp pf \<lparr>td_rows = [row], td_state = None\<rparr> (row_meta row)"

lemma load_row_of_table:
  assumes "distinct (map fst (td_rows db))" and "row \<in> set (td_rows db)"
  shows "load_trusted_device_row cp pf db (row_meta row) = row_binding cp pf row"
proof -
  have "map_of (td_rows db) (fst row) = Some (snd row)"
    using assms by (cases row) simp
  then show ?thesis
    by (simp add: load_trusted_device_row_def row_binding_def row_meta_def DeviceId_from_slice_def from_slice_def)
qed

lemma load_eq_Inr:
  assumes "distinct (map fst (td_rows db))"
  shows "load_trusted_device_bindings_from cp pf db = Inr bs \<longleftrightarrow>
    length (td_rows db) \<le> MAX_TRUSTED_DEVICE_BINDINGS \<and>
    list_all2 (\<lambda>row b. row_binding cp pf row = Inr b) (sort_key fst (td_rows db)) bs"
proof -
  have meta: "map (\<lambda>(device_id, sealed). (if length device_id = 32 then Some device_id else None, int (length sealed)))
      (sort_key fst (td_rows db)) = map row_meta (sort_key fst (td_rows db))"
    by (simp add: row_meta_def split_beta)
  have "list_all2 (\<lambda>m b. load_trusted_device_row cp pf db m = Inr b) (map row_meta (sort_key fst (td_rows db))) bs
      \<longleftrightarrow> list_all2 (\<lambda>row b. row_binding cp pf row = Inr b) (sort_key fst (td_rows db)) bs"
    unfolding list_all2_map1 using load_row_of_table [OF assms]
    by (intro list.rel_cong) auto
  then show ?thesis
    unfolding load_trusted_device_bindings_from_def meta by (auto simp: collect_eq_Inr Let_def)
qed

lemma load_ignores_state [simp]:
  "load_trusted_device_bindings_from cp pf (db\<lparr>td_state := st\<rparr>) = load_trusted_device_bindings_from cp pf db"
proof -
  have "load_trusted_device_row cp pf (db\<lparr>td_state := st\<rparr>) = load_trusted_device_row cp pf db"
    by (simp add: load_trusted_device_row_def fun_eq_iff)
  then show ?thesis by (simp add: load_trusted_device_bindings_from_def)
qed

lemma load_bounded:
  "load_trusted_device_bindings_from cp pf db = Inr bs \<Longrightarrow> length bs \<le> MAX_TRUSTED_DEVICE_BINDINGS"
  by (auto simp: load_trusted_device_bindings_from_def Let_def dest: collect_length split: if_splits)

lemma row_binding_eq_Inr:
  assumes "row_binding cp pf row = Inr b"
  shows "binding_wf b" "device_id_bytes (tb_device_id b) = fst row"
  using assms by (auto simp: row_binding_def load_trusted_device_row_def row_meta_def decode_eq_Inr
      DeviceId_from_slice_def split: if_splits)

lemma load_set:
  assumes "distinct (map fst (td_rows db))" "load_trusted_device_bindings_from cp pf db = Inr bs"
  shows "b \<in> set bs \<longleftrightarrow> (\<exists>row \<in> set (td_rows db). row_binding cp pf row = Inr b)"
proof -
  have all2: "list_all2 (\<lambda>row b. row_binding cp pf row = Inr b) (sort_key fst (td_rows db)) bs"
    using assms load_eq_Inr by blast
  have "b \<in> set bs \<longleftrightarrow> (\<exists>row \<in> set (sort_key fst (td_rows db)). row_binding cp pf row = Inr b)"
    using all2 by (rule collected_set)
  then show ?thesis by simp
qed

lemma load_devices:
  assumes "distinct (map fst (td_rows db))" "load_trusted_device_bindings_from cp pf db = Inr bs"
  shows "map (device_id_bytes \<circ> tb_device_id) bs = sort (map fst (td_rows db))"
    "distinct (map tb_device_id bs)" "\<And>b. b \<in> set bs \<Longrightarrow> binding_wf b"
proof -
  have all2: "list_all2 (\<lambda>row b. row_binding cp pf row = Inr b) (sort_key fst (td_rows db)) bs"
    using assms load_eq_Inr by blast
  then have "list_all2 (\<lambda>row b. fst row = (device_id_bytes \<circ> tb_device_id) b) (sort_key fst (td_rows db)) bs"
    by (rule list_all2_mono) (simp add: row_binding_eq_Inr)
  then have eq: "map fst (sort_key fst (td_rows db)) = map (device_id_bytes \<circ> tb_device_id) bs"
    by (simp add: list_all2_conv_all_nth list_eq_iff_nth_eq)
  show sorted_eq: "map (device_id_bytes \<circ> tb_device_id) bs = sort (map fst (td_rows db))"
    unfolding eq [symmetric] by (rule properties_for_sort [symmetric]) simp_all
  have "distinct (map device_id_bytes (map tb_device_id bs))"
    using assms(1) sorted_eq by simp
  then show "distinct (map tb_device_id bs)" by (simp add: distinct_map del: map_map)
  show "binding_wf b" if "b \<in> set bs" for b
    using that load_set [OF assms] by (auto dest: row_binding_eq_Inr(1))
qed

section \<open>Sealed rows and the sealed state\<close>

lemma from_bytes_sealed:
  "SecretSealer_seal cp sl random cx p = Inr blob \<Longrightarrow> SealedBlob_from_bytes (blob_bytes blob) = Inr blob"
  by (auto simp: seal_eq_Inr SealedBlob_from_bytes_def validate_header_frame)

lemma length_sealed:
  assumes "aead_rules cp" "SecretSealer_seal cp sl random cx p = Inr blob"
  shows "length (blob_bytes blob) = 38 + length p"
  using assms(2) aead_sealD(2) [OF assms(1)] by (auto simp: seal_eq_Inr)

lemma row_binding_sealed:
  assumes "aead_rules cp" "binding_wf c" "seal_trusted_device_binding cp pf random c = Inr sealed"
  shows "row_binding cp pf (device_id_bytes (tb_device_id c), blob_bytes sealed) = Inr c"
proof -
  obtain cx where cx: "trusted_device_binding_context cp (pf_profile_id pf) (tb_device_id c) = Inr cx"
    and sl: "SecretSealer_seal cp (pf_sealer pf) random cx (encode_trusted_device_binding c) = Inr sealed"
    using assms(3) by (auto simp: seal_trusted_device_binding_def)
  have len: "length (device_id_bytes (tb_device_id c)) = 32" using assms(2) by (simp add: binding_wf_def)
  have "length (blob_bytes sealed) \<le> MAX_SEALED_TRUSTED_DEVICE_BINDING_BYTES" "0 < length (blob_bytes sealed)"
    using length_sealed [OF assms(1) sl] length_encode [OF assms(2)]
    by (simp_all add: MAX_SEALED_TRUSTED_DEVICE_BINDING_BYTES_def MAX_TRUSTED_DEVICE_BINDING_BYTES_def
        MAX_TRUSTED_DEVICE_ALIAS_BYTES_def)
  then show ?thesis
    using len cx open_seal [OF assms(1) sl] from_bytes_sealed [OF sl] decode_encode [OF assms(2)]
    by (simp add: row_binding_def row_meta_def load_trusted_device_row_def DeviceId_from_slice_def
        from_slice_ok validate_sealed_length_def)
qed

lemma open_state_sealed:
  assumes "aead_rules cp" "digest_rule cp" "seal_trusted_device_binding_state cp pf random bs = Inr sealed"
  shows "open_trusted_device_binding_state cp pf (db\<lparr>td_state := Some (blob_bytes sealed)\<rparr>) =
    Inr \<lparr>ts_count = length bs, ts_digest = trusted_device_binding_digest cp bs\<rparr>"
proof -
  let ?p = "[TRUSTED_DEVICE_BINDING_STATE_VERSION] @ to_be_bytes 8 (length bs) @ trusted_device_binding_digest cp bs"
  obtain cx where n: "length bs < 2 ^ 64"
    and cx: "trusted_device_binding_state_context cp (pf_profile_id pf) = Inr cx"
    and sl: "SecretSealer_seal cp (pf_sealer pf) random cx ?p = Inr sealed"
    using assms(3) by (auto simp: seal_trusted_device_binding_state_def Let_def split: if_splits)
  have p: "length ?p = 41" using assms(2) by (simp add: digest_rule_def trusted_device_binding_digest_def)
  have "length (blob_bytes sealed) = 79" using length_sealed [OF assms(1) sl] p by simp
  moreover from this have "blob_bytes sealed \<noteq> []" by auto
  ultimately show ?thesis
    using n cx open_seal [OF assms(1) sl] from_bytes_sealed [OF sl] p
    by (simp add: open_trusted_device_binding_state_def validate_sealed_length_def
        MAX_SEALED_TRUSTED_DEVICE_BINDING_STATE_BYTES_def TRUSTED_DEVICE_BINDING_STATE_BYTES_def)
qed

lemma alias_repeats_iff:
  "alias_repeats seen bs \<longleftrightarrow> \<not> distinct (map tb_alias bs) \<or> (\<exists>b \<in> set bs. tb_alias b \<in> seen)"
proof (induction bs arbitrary: seen)
  case (Cons b bs)
  show ?case unfolding alias_repeats.simps Cons.IH by (auto simp: image_iff) metis
qed simp

lemma validate_set_eq_Inr [simp]:
  "validate_trusted_device_binding_set bs = Inr u \<longleftrightarrow> distinct (map tb_alias bs)"
  by (simp add: validate_trusted_device_binding_set_def alias_repeats_iff)

lemma verify_eq_Inr:
  "verify_trusted_device_bindings cp pf db = Inr u \<longleftrightarrow>
     (\<exists>bs st. load_trusted_device_bindings_from cp pf db = Inr bs \<and> distinct (map tb_alias bs) \<and>
        open_trusted_device_binding_state cp pf db = Inr st \<and> ts_count st = length bs \<and>
        ts_digest st = trusted_device_binding_digest cp bs)"
  by (auto simp: verify_trusted_device_bindings_def not_less dest: load_bounded split: if_splits)

section \<open>Storing one binding\<close>

text \<open>The invariant: the primary key, and what the startup verification checks.\<close>

definition address_book_ok :: "crypto_provider \<Rightarrow> locked_profile \<Rightarrow> trusted_device_db \<Rightarrow> bool" where
  "address_book_ok cp pf db \<longleftrightarrow>
     distinct (map fst (td_rows db)) \<and> verify_trusted_device_bindings cp pf db = Inr ()"

text \<open>The address book without the bindings a new one takes the alias or the device of.\<close>

definition other_bindings :: "trusted_device_binding \<Rightarrow> trusted_device_binding set \<Rightarrow> trusted_device_binding set" where
  "other_bindings c bs = {b \<in> bs. tb_alias b \<noteq> tb_alias c \<and> tb_device_id b \<noteq> tb_device_id c}"

definition remaining_rows ::
    "trusted_device_binding \<Rightarrow> trusted_device_binding option \<Rightarrow> trusted_device_binding option \<Rightarrow>
     (bytes \<times> bytes) list \<Rightarrow> (bytes \<times> bytes) list" where
  "remaining_rows c by_alias by_device rows =
     filter (\<lambda>row. (\<forall>e. by_alias = Some e \<longrightarrow> fst row \<noteq> device_id_bytes (tb_device_id e)) \<and>
       (by_device = None \<or> fst row \<noteq> device_id_bytes (tb_device_id c))) rows"

lemma delete_superseded_rows:
  assumes "\<And>e. by_device = Some e \<Longrightarrow> tb_device_id e = tb_device_id c"
  shows "td_rows (delete_superseded c by_alias by_device db) = remaining_rows c by_alias by_device (td_rows db)"
proof (cases by_device)
  case None
  then show ?thesis
    by (cases by_alias) (simp_all add: delete_superseded_def delete_binding_row_def remaining_rows_def Let_def)
next
  case (Some e)
  then have e: "tb_device_id e = tb_device_id c" by (rule assms)
  show ?thesis unfolding Some
    by (cases by_alias) (simp_all add: delete_superseded_def delete_binding_row_def remaining_rows_def Let_def e)
qed

lemma store_transaction_eq_Inr:
  assumes "store_transaction cp pf r1 r2 c by_alias by_device db = Inr db'"
  obtains sealed updated sealed_state where
    "seal_trusted_device_binding cp pf r1 c = Inr sealed"
    "device_id_bytes (tb_device_id c) \<notin> fst ` set (td_rows (delete_superseded c by_alias by_device db))"
    "td_rows db' = td_rows (delete_superseded c by_alias by_device db) @
       [(device_id_bytes (tb_device_id c), blob_bytes sealed)]"
    "load_trusted_device_bindings_from cp pf db' = Inr updated" "distinct (map tb_alias updated)"
    "seal_trusted_device_binding_state cp pf r2 updated = Inr sealed_state"
    "db' = db'\<lparr>td_state := Some (blob_bytes sealed_state)\<rparr>"
proof -
  let ?d = "delete_superseded c by_alias by_device db"
  obtain sealed d1 where sealed: "seal_trusted_device_binding cp pf r1 c = Inr sealed"
    and ins: "insert_binding_row (tb_device_id c) (blob_bytes sealed) ?d = Inr d1"
    and rest: "and_then (load_trusted_device_bindings_from cp pf d1) (\<lambda>updated.
        if length updated > MAX_TRUSTED_DEVICE_BINDINGS then Inl PSE_TrustedDeviceCapacityExceeded
        else
          and_then (validate_trusted_device_binding_set updated) (\<lambda>_.
          and_then (seal_trusted_device_binding_state cp pf r2 updated) (\<lambda>sealed_state.
          if td_state d1 = None then Inl PSE_CorruptData
          else Inr (d1\<lparr>td_state := Some (blob_bytes sealed_state)\<rparr>)))) = Inr db'"
    using assms unfolding store_transaction_def Let_def and_then_eq_Inr by blast
  obtain updated sealed_state where up: "load_trusted_device_bindings_from cp pf d1 = Inr updated"
    "distinct (map tb_alias updated)" "seal_trusted_device_binding_state cp pf r2 updated = Inr sealed_state"
    "db' = d1\<lparr>td_state := Some (blob_bytes sealed_state)\<rparr>"
    using rest by (auto split: if_splits)
  have "d1 = ?d\<lparr>td_rows := td_rows ?d @ [(device_id_bytes (tb_device_id c), blob_bytes sealed)]\<rparr>"
    "device_id_bytes (tb_device_id c) \<notin> fst ` set (td_rows ?d)"
    using ins by (auto simp: insert_binding_row_def split: if_splits)
  then show thesis using that [OF sealed _ _ _ up(2,3)] up(1,4) by simp
qed

lemma distinct_map_eq:
  "distinct (map f xs) \<Longrightarrow> x \<in> set xs \<Longrightarrow> y \<in> set xs \<Longrightarrow> f x = f y \<Longrightarrow> x = y"
  by (auto simp: distinct_map inj_on_def)

lemma find_Some_in: "List.find P xs = Some x \<Longrightarrow> x \<in> set xs \<and> P x"
  by (auto simp: find_Some_iff)

text \<open>A row survives the deletions exactly when its binding has another alias and device.\<close>

lemma row_survives:
  assumes keys: "distinct (map fst (td_rows db))" and load: "load_trusted_device_bindings_from cp pf db = Inr bs"
    and aliases: "distinct (map tb_alias bs)"
    and by_alias: "by_alias = List.find (\<lambda>b. tb_alias b = tb_alias c) bs"
    and by_device: "by_device = List.find (\<lambda>b. tb_device_id b = tb_device_id c) bs"
    and row: "row \<in> set (td_rows db)" "row_binding cp pf row = Inr b"
  shows "row \<in> set (remaining_rows c by_alias by_device (td_rows db)) \<longleftrightarrow>
    tb_alias b \<noteq> tb_alias c \<and> tb_device_id b \<noteq> tb_device_id c"
proof -
  have b: "b \<in> set bs" using load_set [OF keys load] row by blast
  have key: "fst row = device_id_bytes (tb_device_id b)" using row_binding_eq_Inr(2) [OF row(2)] by simp
  have same: "device_id_bytes (tb_device_id b) = device_id_bytes (tb_device_id x) \<longleftrightarrow> tb_device_id b = tb_device_id x"
    for x by (cases "tb_device_id b"; cases "tb_device_id x") simp
  have named: "tb_alias b = tb_alias c \<longleftrightarrow> (\<exists>e. by_alias = Some e \<and> tb_device_id b = tb_device_id e)"
  proof
    assume eq: "tb_alias b = tb_alias c"
    then have "by_alias \<noteq> None" using b unfolding by_alias by (auto simp: find_None_iff)
    then obtain e where e: "by_alias = Some e" by blast
    then have "e \<in> set bs" "tb_alias e = tb_alias c" using find_Some_in unfolding by_alias by fast+
    then have "e = b" using eq b by (intro distinct_map_eq [OF aliases]) simp_all
    then show "\<exists>e. by_alias = Some e \<and> tb_device_id b = tb_device_id e" using e by blast
  next
    assume "\<exists>e. by_alias = Some e \<and> tb_device_id b = tb_device_id e"
    then obtain e where e: "e \<in> set bs" "tb_alias e = tb_alias c" "tb_device_id b = tb_device_id e"
      using find_Some_in unfolding by_alias by fast
    then have "e = b" using b by (intro distinct_map_eq [OF load_devices(2) [OF keys load]]) simp_all
    then show "tb_alias b = tb_alias c" using e(2) by simp
  qed
  have device: "tb_device_id b = tb_device_id c \<Longrightarrow> by_device \<noteq> None"
    using b unfolding by_device by (auto simp: find_None_iff)
  show ?thesis using row(1) named device by (auto simp: remaining_rows_def key same)
qed

lemma store_transaction_effect:
  assumes laws: "aead_rules cp" "digest_rule cp" and wf: "binding_wf c"
    and keys: "distinct (map fst (td_rows db))" and load: "load_trusted_device_bindings_from cp pf db = Inr bs"
    and aliases: "distinct (map tb_alias bs)"
    and by_alias: "by_alias = List.find (\<lambda>b. tb_alias b = tb_alias c) bs"
    and by_device: "by_device = List.find (\<lambda>b. tb_device_id b = tb_device_id c) bs"
    and tx: "store_transaction cp pf r1 r2 c by_alias by_device db = Inr db'"
  shows "address_book_ok cp pf db' \<and>
    (\<exists>bs'. load_trusted_device_bindings_from cp pf db' = Inr bs' \<and> set bs' = insert c (other_bindings c (set bs)))"
proof -
  let ?rows = "remaining_rows c by_alias by_device (td_rows db)"
  have "tb_device_id e = tb_device_id c" if "by_device = Some e" for e
    using that find_Some_in unfolding by_device by fast
  then have rows: "td_rows (delete_superseded c by_alias by_device db) = ?rows"
    by (rule delete_superseded_rows)
  obtain sealed updated sealed_state where f: "seal_trusted_device_binding cp pf r1 c = Inr sealed"
    "device_id_bytes (tb_device_id c) \<notin> fst ` set ?rows"
    "td_rows db' = ?rows @ [(device_id_bytes (tb_device_id c), blob_bytes sealed)]"
    "load_trusted_device_bindings_from cp pf db' = Inr updated" "distinct (map tb_alias updated)"
    "seal_trusted_device_binding_state cp pf r2 updated = Inr sealed_state"
    "db' = db'\<lparr>td_state := Some (blob_bytes sealed_state)\<rparr>"
    using store_transaction_eq_Inr [OF tx] unfolding rows .
  have "distinct (map fst ?rows)" using keys by (simp add: remaining_rows_def distinct_map_filter)
  then have keys': "distinct (map fst (td_rows db'))" using f(2,3) by simp
  have "open_trusted_device_binding_state cp pf db' =
      Inr \<lparr>ts_count = length updated, ts_digest = trusted_device_binding_digest cp updated\<rparr>"
    by (subst f(7)) (rule open_state_sealed [OF laws f(6)])
  then have ok: "address_book_ok cp pf db'"
    using keys' f(4,5) by (simp add: address_book_ok_def verify_eq_Inr)
  have "b \<in> set updated \<longleftrightarrow> b \<in> insert c (other_bindings c (set bs))" for b
  proof -
    have "b \<in> set updated \<longleftrightarrow> (\<exists>row \<in> set ?rows. row_binding cp pf row = Inr b) \<or> b = c"
      using load_set [OF keys' f(4)] f(3) row_binding_sealed [OF laws(1) wf f(1)] by auto
    moreover have "(\<exists>row \<in> set ?rows. row_binding cp pf row = Inr b) \<longleftrightarrow> b \<in> other_bindings c (set bs)"
    proof -
      have "row \<in> set ?rows \<Longrightarrow> row \<in> set (td_rows db)" for row by (simp add: remaining_rows_def)
      then show ?thesis
        using row_survives [OF keys load aliases by_alias by_device, of _ b] load_set [OF keys load, of b]
        unfolding other_bindings_def by blast
    qed
    ultimately show ?thesis by blast
  qed
  then show ?thesis using ok f(4) by blast
qed

lemma store_cases:
  assumes "store_trusted_device_binding cp pf r1 r2 c ev db = (r, db')"
  obtains (refused) e where "r = Inl e" "db' = db"
  | (stored) bs decision where "r = Inr decision" "load_trusted_device_bindings_from cp pf db = Inr bs"
      "decide_trusted_device_alias c (List.find (\<lambda>b. tb_alias b = tb_alias c) bs)
         (List.find (\<lambda>b. tb_device_id b = tb_device_id c) bs) ev = Inr decision"
      "decision = Identical \<and> db' = db \<or>
       store_transaction cp pf r1 r2 c (List.find (\<lambda>b. tb_alias b = tb_alias c) bs)
         (List.find (\<lambda>b. tb_device_id b = tb_device_id c) bs) db = Inr db'"
  using assms unfolding store_trusted_device_binding_def transact_def
  by (auto simp: Let_def split: sum.splits if_splits)

text \<open>An identical retry finds the binding itself.\<close>

lemma identical_binding:
  assumes "decide_trusted_device_alias c (List.find (\<lambda>b. tb_alias b = tb_alias c) bs) by_device ev = Inr Identical"
  shows "c \<in> set bs"
proof -
  obtain e where e: "List.find (\<lambda>b. tb_alias b = tb_alias c) bs = Some e" "tb_device_id e = tb_device_id c"
    "tb_device_root_public_key e = tb_device_root_public_key c"
    using assms by (auto simp: decide_trusted_device_alias_def
        split: option.splits if_splits trusted_device_binding_status.splits)
  then have "e \<in> set bs" "tb_alias e = tb_alias c" using find_Some_in by fast+
  then show ?thesis using e(2,3) by (metis trusted_device_binding.equality old.unit.exhaust)
qed

lemma store_effect:
  assumes laws: "aead_rules cp" "digest_rule cp" and ok: "address_book_ok cp pf db" and wf: "binding_wf c"
    and store: "store_trusted_device_binding cp pf r1 r2 c ev db = (r, db')"
  shows "address_book_ok cp pf db' \<and>
    (case r of
       Inl e \<Rightarrow> db' = db
     | Inr decision \<Rightarrow>
         \<exists>bs bs'. load_trusted_device_bindings_from cp pf db = Inr bs \<and>
           load_trusted_device_bindings_from cp pf db' = Inr bs' \<and>
           set bs' = insert c (other_bindings c (set bs)))"
  using store
proof (cases rule: store_cases)
  case (refused e)
  then show ?thesis using ok by simp
next
  case (stored bs decision)
  have keys: "distinct (map fst (td_rows db))" using ok by (simp add: address_book_ok_def)
  have aliases: "distinct (map tb_alias bs)"
    using ok stored(2) by (auto simp: address_book_ok_def verify_eq_Inr)
  show ?thesis
  proof (cases "decision = Identical \<and> db' = db")
    case True
    then have c: "c \<in> set bs" using identical_binding stored(3) by blast
    have "b = c" if "b \<in> set bs" "tb_alias b = tb_alias c \<or> tb_device_id b = tb_device_id c" for b
      using that c distinct_map_eq [OF aliases] distinct_map_eq [OF load_devices(2) [OF keys stored(2)]] by blast
    then have "set bs = insert c (other_bindings c (set bs))" using c by (auto simp: other_bindings_def)
    then show ?thesis using True stored(1,2) ok by auto
  next
    case False
    then show ?thesis
      using store_transaction_effect [OF laws wf keys stored(2) aliases refl refl] stored(1,2,4) by auto
  qed
qed

text \<open>
  C8: Storing a trusted device is an atomic update of the address book. From a book that
  the startup verification accepts, a refused store changes nothing, and an accepted one
  leaves exactly the candidate together with the earlier bindings that share neither its
  alias nor its device, and the new book verifies again: the sealed rows, their count and
  their digest agree. The cipher is assumed correct and the digest 32 bytes long.
\<close>
theorem trusted_device_store_refines:
  assumes "aead_rules cp" "digest_rule cp" "address_book_ok cp pf db" "binding_wf c"
    and "store_trusted_device_binding cp pf r1 r2 c ev db = (r, db')"
  shows "address_book_ok cp pf db' \<and>
    (case r of
       Inl e \<Rightarrow> db' = db
     | Inr decision \<Rightarrow>
         \<exists>bs bs'. load_trusted_device_bindings_from cp pf db = Inr bs \<and>
           load_trusted_device_bindings_from cp pf db' = Inr bs' \<and>
           set bs' = insert c (other_bindings c (set bs)))"
  using assms by (rule store_effect)

lemma accepted_alias_stale:
  assumes "decide_trusted_device_alias c (Some e) by_device ev = Inr decision"
  shows "tb_device_id e = tb_device_id c \<and> tb_device_root_public_key e = tb_device_root_public_key c \<or>
    trusted_device_binding_status_of e ev \<in> {Removed, RootMismatch}"
  using assms by (auto simp: decide_trusted_device_alias_def
      split: if_splits trusted_device_binding_status.splits)

text \<open>
  C9: No alias is taken away from a device that is still trusted. If a store drops an
  earlier binding, then either that binding is for the candidate's own device and root (the
  device was renamed), or the current evidence no longer supports it: its device is a
  member of no current conversation, or is seen there with another root key.
\<close>
theorem active_alias_never_taken:
  assumes "aead_rules cp" "digest_rule cp" "address_book_ok cp pf db" "binding_wf c"
    and "store_trusted_device_binding cp pf r1 r2 c ev db = (Inr decision, db')"
    and "load_trusted_device_bindings_from cp pf db = Inr bs"
    and "load_trusted_device_bindings_from cp pf db' = Inr bs'"
    and "b \<in> set bs" "b \<notin> set bs'"
  shows "tb_device_id b = tb_device_id c \<and> tb_device_root_public_key b = tb_device_root_public_key c \<or>
    trusted_device_binding_status_of b ev \<in> {Removed, RootMismatch}"
proof -
  have keys: "distinct (map fst (td_rows db))" and aliases: "distinct (map tb_alias bs)"
    using assms(3,6) by (auto simp: address_book_ok_def verify_eq_Inr)
  have "set bs' = insert c (other_bindings c (set bs))"
    using store_effect [OF assms(1-5)] assms(6,7) by auto
  then have hit: "tb_alias b = tb_alias c \<or> tb_device_id b = tb_device_id c"
    using assms(8,9) by (auto simp: other_bindings_def)
  have dec: "decide_trusted_device_alias c (List.find (\<lambda>b. tb_alias b = tb_alias c) bs)
      (List.find (\<lambda>b. tb_device_id b = tb_device_id c) bs) ev = Inr decision"
    using assms(5) by (cases rule: store_cases) (use assms(6) in auto)
  show ?thesis
  proof (cases "tb_device_id b = tb_device_id c")
    case True
    obtain res where "resolve_trusted_device c ev = Inr res"
      using dec by (auto simp: decide_trusted_device_alias_def)
    then show ?thesis using resolved_other_root_stale [of c ev res b] True by auto
  next
    case False
    then have named: "tb_alias b = tb_alias c" using hit by blast
    then have "List.find (\<lambda>b. tb_alias b = tb_alias c) bs \<noteq> None" using assms(8) by (auto simp: find_None_iff)
    then obtain e where e: "List.find (\<lambda>b. tb_alias b = tb_alias c) bs = Some e" by blast
    then have "e \<in> set bs" "tb_alias e = tb_alias c" using find_Some_in by fast+
    then have "e = b" using named assms(8) by (intro distinct_map_eq [OF aliases]) simp_all
    then show ?thesis using accepted_alias_stale dec e by metis
  qed
qed

section \<open>When a store is accepted\<close>

lemma loads_all:
  assumes "distinct (map fst (td_rows db))" "length (td_rows db) \<le> MAX_TRUSTED_DEVICE_BINDINGS"
    and "\<And>row. row \<in> set (td_rows db) \<Longrightarrow> \<exists>b. row_binding cp pf row = Inr b"
  shows "\<exists>bs. load_trusted_device_bindings_from cp pf db = Inr bs \<and> length bs = length (td_rows db)"
proof -
  obtain g where g: "row_binding cp pf row = Inr (g row)" if "row \<in> set (td_rows db)" for row
    using assms(3) by metis
  have "list_all2 (\<lambda>row b. row_binding cp pf row = Inr b) (sort_key fst (td_rows db))
      (map g (sort_key fst (td_rows db)))"
    using g by (simp add: list_all2_map2 list_all2_same)
  then show ?thesis using assms(1,2) by (auto simp: load_eq_Inr)
qed

lemma loaded_rows:
  assumes "distinct (map fst (td_rows db))" "load_trusted_device_bindings_from cp pf db = Inr bs" "row \<in> set (td_rows db)"
  shows "\<exists>b \<in> set bs. row_binding cp pf row = Inr b"
proof -
  have all2: "list_all2 (\<lambda>row b. row_binding cp pf row = Inr b) (sort_key fst (td_rows db)) bs"
    using assms load_eq_Inr by blast
  then show ?thesis using assms(3) by (intro collected_in [OF all2]) simp
qed

lemma distinct_map_set:
  assumes "distinct xs" "inj_on f (set xs)" shows "distinct (map f xs)"
  using assms by (simp add: distinct_map)

lemma other_bindings_alias_inj:
  "inj_on tb_alias bs \<Longrightarrow> inj_on tb_alias (insert c (other_bindings c bs))"
  by (auto simp: other_bindings_def inj_on_def)

text \<open>Whether sealing succeeds: the random source delivered and the provider takes the key.\<close>

definition sealing_works :: "crypto_provider \<Rightarrow> locked_profile \<Rightarrow> bytes option \<Rightarrow> bytes option \<Rightarrow> bool" where
  "sealing_works cp pf r1 r2 \<longleftrightarrow>
     (\<forall>c. binding_wf c \<longrightarrow> (\<exists>sealed. seal_trusted_device_binding cp pf r1 c = Inr sealed)) \<and>
     (\<forall>bs. length bs \<le> MAX_TRUSTED_DEVICE_BINDINGS \<longrightarrow>
        (\<exists>sealed. seal_trusted_device_binding_state cp pf r2 bs = Inr sealed))"

lemma remaining_rows_hold:
  assumes keys: "distinct (map fst (td_rows db))" and load: "load_trusted_device_bindings_from cp pf db = Inr bs"
    and aliases: "distinct (map tb_alias bs)"
    and row: "row \<in> set (remaining_rows c (List.find (\<lambda>b. tb_alias b = tb_alias c) bs)
        (List.find (\<lambda>b. tb_device_id b = tb_device_id c) bs) (td_rows db))"
  shows "\<exists>b \<in> other_bindings c (set bs). row_binding cp pf row = Inr b \<and>
    fst row = device_id_bytes (tb_device_id b)"
proof -
  have table: "row \<in> set (td_rows db)" using row by (simp add: remaining_rows_def)
  then obtain b where b: "b \<in> set bs" "row_binding cp pf row = Inr b" using loaded_rows [OF keys load] by blast
  then show ?thesis
    using row_survives [OF keys load aliases refl refl table b(2)] row row_binding_eq_Inr(2) [OF b(2)]
    by (auto simp: other_bindings_def)
qed

lemma remaining_rows_keys:
  assumes keys: "distinct (map fst (td_rows db))" and load: "load_trusted_device_bindings_from cp pf db = Inr bs"
    and aliases: "distinct (map tb_alias bs)"
    and rows: "rows = remaining_rows c (List.find (\<lambda>b. tb_alias b = tb_alias c) bs)
        (List.find (\<lambda>b. tb_device_id b = tb_device_id c) bs) (td_rows db)"
  shows "distinct (map fst rows)" "device_id_bytes (tb_device_id c) \<notin> fst ` set rows"
    "length rows \<le> card (other_bindings c (set bs))"
proof -
  have sub: "fst ` set rows \<subseteq> (device_id_bytes \<circ> tb_device_id) ` other_bindings c (set bs)"
    using remaining_rows_hold [OF keys load aliases] unfolding rows by fastforce
  then show "device_id_bytes (tb_device_id c) \<notin> fst ` set rows"
    by (auto simp: other_bindings_def device_id.expand)
  show dist: "distinct (map fst rows)" using keys unfolding rows by (simp add: remaining_rows_def distinct_map_filter)
  have fin: "finite (other_bindings c (set bs))" by (simp add: other_bindings_def)
  have "card (fst ` set rows) \<le> card (other_bindings c (set bs))"
    using card_mono [OF _ sub] card_image_le [OF fin, of "device_id_bytes \<circ> tb_device_id"] fin by simp
  then show "length rows \<le> card (other_bindings c (set bs))"
    using distinct_card [OF dist] by simp
qed

lemma store_transaction_accepts:
  assumes laws: "aead_rules cp" "sealing_works cp pf r1 r2" and wf: "binding_wf c"
    and keys: "distinct (map fst (td_rows db))" and load: "load_trusted_device_bindings_from cp pf db = Inr bs"
    and aliases: "distinct (map tb_alias bs)" and state: "td_state db \<noteq> None"
    and room: "card (other_bindings c (set bs)) < MAX_TRUSTED_DEVICE_BINDINGS"
  shows "\<exists>db'. store_transaction cp pf r1 r2 c (List.find (\<lambda>b. tb_alias b = tb_alias c) bs)
    (List.find (\<lambda>b. tb_device_id b = tb_device_id c) bs) db = Inr db'" (is "\<exists>db'. store_transaction _ _ _ _ _ ?a ?v _ = _")
proof -
  let ?d = "delete_superseded c ?a ?v db" and ?rows = "remaining_rows c ?a ?v (td_rows db)"
  have "tb_device_id e = tb_device_id c" if "?v = Some e" for e using find_Some_in [OF that] by blast
  then have rows: "td_rows ?d = ?rows" by (rule delete_superseded_rows)
  have st: "td_state ?d \<noteq> None"
    using state by (auto simp: delete_superseded_def delete_binding_row_def Let_def split: option.splits)
  obtain sealed where sealed: "seal_trusted_device_binding cp pf r1 c = Inr sealed"
    using laws(2) wf by (auto simp: sealing_works_def)
  note new = row_binding_sealed [OF laws(1) wf sealed]
  let ?row = "(device_id_bytes (tb_device_id c), blob_bytes sealed)"
  let ?d1 = "?d\<lparr>td_rows := ?rows @ [?row]\<rparr>"
  note ks = remaining_rows_keys [OF keys load aliases refl, of c]
  have holds: "\<exists>b \<in> insert c (other_bindings c (set bs)). row_binding cp pf row = Inr b"
    if "row \<in> set (td_rows ?d1)" for row
    using that remaining_rows_hold [OF keys load aliases, of row c] new by auto
  have keys1: "distinct (map fst (td_rows ?d1))" using ks by simp
  have size: "length (td_rows ?d1) \<le> MAX_TRUSTED_DEVICE_BINDINGS" using ks(3) room by simp
  have "\<exists>b. row_binding cp pf row = Inr b" if "row \<in> set (td_rows ?d1)" for row using holds [OF that] by blast
  then obtain updated where up: "load_trusted_device_bindings_from cp pf ?d1 = Inr updated"
    "length updated \<le> MAX_TRUSTED_DEVICE_BINDINGS"
    using loads_all [OF keys1 size] size by metis
  have "b \<in> insert c (other_bindings c (set bs))" if b: "b \<in> set updated" for b
  proof -
    obtain row where "row \<in> set (td_rows ?d1)" "row_binding cp pf row = Inr b"
      using load_set [OF keys1 up(1)] b by blast
    then show ?thesis using holds [of row] by auto
  qed
  then have "set updated \<subseteq> insert c (other_bindings c (set bs))" by blast
  then have "distinct (map tb_alias updated)"
    using load_devices(2) [OF keys1 up(1)] other_bindings_alias_inj [of "set bs" c] aliases
    by (intro distinct_map_set) (auto simp: distinct_map intro: inj_on_subset)
  moreover obtain sealed_state where "seal_trusted_device_binding_state cp pf r2 updated = Inr sealed_state"
    using laws(2) up(2) by (auto simp: sealing_works_def)
  moreover have "insert_binding_row (tb_device_id c) (blob_bytes sealed) ?d = Inr ?d1"
    using ks(2) wf by (simp add: insert_binding_row_def rows binding_wf_def)
  ultimately show ?thesis
    using sealed up st by (auto simp: store_transaction_def Let_def)
qed

lemma store_accepts:
  assumes laws: "aead_rules cp" "sealing_works cp pf r1 r2" and ok: "address_book_ok cp pf db"
    and wf: "binding_wf c" and load: "load_trusted_device_bindings_from cp pf db = Inr bs"
    and decision: "decide_trusted_device_alias c (List.find (\<lambda>b. tb_alias b = tb_alias c) bs)
      (List.find (\<lambda>b. tb_device_id b = tb_device_id c) bs) ev = Inr decision"
    and room: "card (other_bindings c (set bs)) < MAX_TRUSTED_DEVICE_BINDINGS"
  shows "\<exists>db'. store_trusted_device_binding cp pf r1 r2 c ev db = (Inr decision, db')"
proof -
  obtain st where book: "distinct (map fst (td_rows db))" "distinct (map tb_alias bs)"
    and st: "open_trusted_device_binding_state cp pf db = Inr st" "ts_count st = length bs"
      "ts_digest st = trusted_device_binding_digest cp bs"
    using ok load by (auto simp: address_book_ok_def verify_eq_Inr)
  have "td_state db \<noteq> None" using st(1) by (auto simp: open_trusted_device_binding_state_def)
  then obtain db' where "store_transaction cp pf r1 r2 c (List.find (\<lambda>b. tb_alias b = tb_alias c) bs)
      (List.find (\<lambda>b. tb_device_id b = tb_device_id c) bs) db = Inr db'"
    using store_transaction_accepts [OF laws wf book(1) load book(2) _ room] by blast
  then show ?thesis
    using load decision st
    by (simp add: store_trusted_device_binding_def transact_def Let_def split: if_splits)
qed

text \<open>
  C15: An alias command that the domain rules accept is carried out: on a verified book
  with room for one more binding, and with sealing available, the store returns the decision
  of the alias rules. The room is counted after the bindings it supersedes are gone, so a
  full book still accepts renames and stale rebinds.
\<close>
theorem trusted_device_store_accepts:
  assumes "aead_rules cp" "sealing_works cp pf r1 r2" "address_book_ok cp pf db" "binding_wf c"
    and "load_trusted_device_bindings_from cp pf db = Inr bs"
    and "decide_trusted_device_alias c (List.find (\<lambda>b. tb_alias b = tb_alias c) bs)
      (List.find (\<lambda>b. tb_device_id b = tb_device_id c) bs) ev = Inr decision"
    and "card (other_bindings c (set bs)) < MAX_TRUSTED_DEVICE_BINDINGS"
  shows "\<exists>db'. store_trusted_device_binding cp pf r1 r2 c ev db = (Inr decision, db')"
  using assms by (rule store_accepts)

section \<open>Tampering\<close>

definition binding_map_input :: "trusted_device_binding list \<Rightarrow> bytes" where
  "binding_map_input bs = TRUSTED_DEVICE_BINDING_DIGEST_DOMAIN @ to_be_bytes 8 (length bs) @
     concat (map (prefixed 2) (map encode_trusted_device_binding bs))"

lemma digest_of_input: "trusted_device_binding_digest cp bs = cp_sha256 cp (binding_map_input bs)"
  by (simp add: trusted_device_binding_digest_def binding_map_input_def prefixed_def Let_def comp_def)

lemma binding_map_input_inject:
  assumes "binding_map_input bs = binding_map_input bs'" "length bs = length bs'"
    and "\<And>b. b \<in> set bs \<Longrightarrow> binding_wf b" "\<And>b. b \<in> set bs' \<Longrightarrow> binding_wf b"
  shows "bs = bs'"
proof -
  let ?e = "map encode_trusted_device_binding"
  have body: "concat (map (prefixed 2) (?e bs)) = concat (map (prefixed 2) (?e bs'))"
    using assms(1,2) by (simp add: binding_map_input_def)
  have small: "length (encode_trusted_device_binding b) < 256 ^ 2" if "binding_wf b" for b
    using length_encode [OF that] by simp
  have "?e bs = ?e bs'"
    using body
  proof (rule concat_prefixed_inject)
    show "length (?e bs) = length (?e bs')" using assms(2) by simp
    show "length x < 256 ^ 2" if "x \<in> set (?e bs)" for x using that small assms(3) by auto
    show "length x < 256 ^ 2" if "x \<in> set (?e bs')" for x using that small assms(4) by auto
  qed
  moreover have "inj_on encode_trusted_device_binding (set bs \<union> set bs')"
    using assms(3,4) encode_inject by (auto simp: inj_on_def)
  ultimately show ?thesis by (rule map_inj_on)
qed

lemma open_state_of_row:
  "td_state db' = td_state db \<Longrightarrow>
   open_trusted_device_binding_state cp pf db' = open_trusted_device_binding_state cp pf db"
  by (simp add: open_trusted_device_binding_state_def)

text \<open>
  C10: The sealed state detects a changed set of rows. If the startup verification accepts
  two databases that carry the same sealed state, then they hold the same bindings, or the
  digest has an actual collision on the two encoded address books. So rows that were
  deleted, replaced, or put back from an earlier moment make the verification fail.
\<close>
theorem address_book_tampering_detected:
  assumes "distinct (map fst (td_rows db))" "distinct (map fst (td_rows db'))"
    and "verify_trusted_device_bindings cp pf db = Inr ()" "verify_trusted_device_bindings cp pf db' = Inr ()"
    and "td_state db' = td_state db"
    and "load_trusted_device_bindings_from cp pf db = Inr bs" "load_trusted_device_bindings_from cp pf db' = Inr bs'"
  shows "bs' = bs \<or> digest_collision cp (binding_map_input bs') (binding_map_input bs)"
proof -
  have eq: "length bs' = length bs" "cp_sha256 cp (binding_map_input bs') = cp_sha256 cp (binding_map_input bs)"
    using assms(3-7) open_state_of_row [OF assms(5), of cp pf] by (auto simp: verify_eq_Inr digest_of_input)
  show ?thesis
  proof (cases "binding_map_input bs' = binding_map_input bs")
    case True
    then show ?thesis
      using eq(1) load_devices(3) [OF assms(1,6)] load_devices(3) [OF assms(2,7)]
      by (intro disjI1 binding_map_input_inject) auto
  next
    case False
    then show ?thesis using eq(2) by (simp add: digest_collision_def)
  qed
qed

section \<open>The capacity\<close>

lemma collect_eq_InlD: "collect f xs = Inl e \<Longrightarrow> \<exists>x \<in> set xs. f x = Inl e"
  by (induction xs) auto

lemma not_capacity_load_row: "load_trusted_device_row cp pf db m \<noteq> Inl PSE_TrustedDeviceCapacityExceeded"
  by (auto simp: load_trusted_device_row_def trusted_device_binding_context_def validate_sealed_length_def
      decode_trusted_device_binding_def Let_def split: if_splits)

lemma not_capacity_load:
  "load_trusted_device_bindings_from cp pf db \<noteq> Inl PSE_TrustedDeviceCapacityExceeded"
  using not_capacity_load_row
  by (auto simp: load_trusted_device_bindings_from_def Let_def dest: collect_eq_InlD split: if_splits)

lemma not_capacity_state:
  "open_trusted_device_binding_state cp pf db \<noteq> Inl PSE_TrustedDeviceCapacityExceeded"
  "seal_trusted_device_binding_state cp pf r bs \<noteq> Inl PSE_TrustedDeviceCapacityExceeded"
  "seal_trusted_device_binding cp pf r c \<noteq> Inl PSE_TrustedDeviceCapacityExceeded"
  by (auto simp: open_trusted_device_binding_state_def seal_trusted_device_binding_state_def
      seal_trusted_device_binding_def trusted_device_binding_state_context_def
      trusted_device_binding_context_def validate_sealed_length_def Let_def split: if_splits)

lemma not_capacity_transaction:
  "store_transaction cp pf r1 r2 c a v db \<noteq> Inl PSE_TrustedDeviceCapacityExceeded"
  using not_capacity_load not_capacity_state load_bounded
  by (auto simp: store_transaction_def insert_binding_row_def validate_trusted_device_binding_set_def
      Let_def not_le [symmetric] split: if_splits)

lemma capacity_error_never:
  "fst (store_trusted_device_binding cp pf r1 r2 c ev db) \<noteq> Inl PSE_TrustedDeviceCapacityExceeded"
proof
  assume "fst (store_trusted_device_binding cp pf r1 r2 c ev db) = Inl PSE_TrustedDeviceCapacityExceeded"
  moreover have "PSE_TrustedDeviceCapacityExceeded \<noteq> trusted_device_domain_error e" for e
    by (cases e) simp_all
  ultimately show False
    using not_capacity_load not_capacity_state(1) not_capacity_transaction
    by (auto simp: store_trusted_device_binding_def transact_def Let_def split: sum.splits if_splits)
qed

lemma full_book_reports_corruption:
  assumes "address_book_ok cp pf db" "load_trusted_device_bindings_from cp pf db = Inr bs"
    and "length bs = MAX_TRUSTED_DEVICE_BINDINGS" and "binding_wf c"
    and "seal_trusted_device_binding cp pf r1 c = Inr sealed"
    and "\<And>b. b \<in> set bs \<Longrightarrow> tb_alias b \<noteq> tb_alias c \<and> tb_device_id b \<noteq> tb_device_id c"
    and "resolve_trusted_device c ev = Inr res"
  shows "store_trusted_device_binding cp pf r1 r2 c ev db = (Inl PSE_CorruptData, db)"
proof -
  have keys: "distinct (map fst (td_rows db))" using assms(1) by (simp add: address_book_ok_def)
  have absent: "List.find (\<lambda>b. tb_alias b = tb_alias c) bs = None"
    "List.find (\<lambda>b. tb_device_id b = tb_device_id c) bs = None"
    using assms(6) by (auto simp: find_None_iff)
  have "length (td_rows db) = MAX_TRUSTED_DEVICE_BINDINGS"
    using load_devices(1) [OF keys assms(2)] assms(3) by (metis length_map length_sort)
  then have "load_trusted_device_bindings_from cp pf
      (db\<lparr>td_rows := td_rows db @ [(device_id_bytes (tb_device_id c), blob_bytes sealed)]\<rparr>) = Inl PSE_CorruptData"
    by (simp add: load_trusted_device_bindings_from_def)
  moreover have "insert_binding_row (tb_device_id c) (blob_bytes sealed) db =
      Inr (db\<lparr>td_rows := td_rows db @ [(device_id_bytes (tb_device_id c), blob_bytes sealed)]\<rparr>)"
    using remaining_rows_keys(2) [OF keys assms(2) _ refl, of c] assms(1,2,4) absent
    by (auto simp: insert_binding_row_def binding_wf_def address_book_ok_def verify_eq_Inr remaining_rows_def)
  ultimately have tx: "store_transaction cp pf r1 r2 c None None db = Inl PSE_CorruptData"
    using assms(5) by (simp add: store_transaction_def delete_superseded_def)
  have "decide_trusted_device_alias c None None ev = Inr Insert"
    using assms(7) by (simp add: decide_trusted_device_alias_def)
  then show ?thesis
    using assms(1,2) absent tx
    by (auto simp: store_trusted_device_binding_def transact_def Let_def address_book_ok_def verify_eq_Inr)
qed

text \<open>
  C16: A full address book answers a further device with the error that is meant for
  malformed or unauthenticated data, and the error meant for it is never returned. On a
  verified book of 256 bindings, storing a well-formed binding whose alias and device are
  both new, that resolves against the current evidence and can be sealed, is refused as
  corrupt data and changes nothing. No store, on any book, returns the capacity error: the
  transaction counts the bindings only after it has loaded them back, and loading more than
  the maximum already fails.
\<close>
theorem trusted_device_capacity_error_unreachable:
  assumes "address_book_ok cp pf db" "load_trusted_device_bindings_from cp pf db = Inr bs"
    and "length bs = MAX_TRUSTED_DEVICE_BINDINGS" and "binding_wf c"
    and "seal_trusted_device_binding cp pf r1 c = Inr sealed"
    and "\<forall>b \<in> set bs. tb_alias b \<noteq> tb_alias c \<and> tb_device_id b \<noteq> tb_device_id c"
    and "resolve_trusted_device c ev = Inr res"
  shows "store_trusted_device_binding cp pf r1 r2 c ev db = (Inl PSE_CorruptData, db) \<and>
    (\<forall>cp pf r1 r2 c ev db. fst (store_trusted_device_binding cp pf r1 r2 c ev db) \<noteq> Inl PSE_TrustedDeviceCapacityExceeded)"
  using full_book_reports_corruption [OF assms(1-5) _ assms(7)] assms(6) capacity_error_never by blast

section \<open>Sequences of commands\<close>

text \<open>One alias command: the two nonces, the candidate and the evidence gathered for it.\<close>

type_synonym alias_command =
  "bytes option \<times> bytes option \<times> trusted_device_binding \<times> trusted_device_evidence list"

definition alias_step ::
    "crypto_provider \<Rightarrow> locked_profile \<Rightarrow> alias_command \<Rightarrow> trusted_device_db \<Rightarrow>
     (profile_store_error + trusted_device_alias_decision) \<times> trusted_device_db" where
  "alias_step cp pf command db =
     (case command of (r1, r2, c, ev) \<Rightarrow>
        if binding_wf c then store_trusted_device_binding cp pf r1 r2 c ev db
        else (Inl PSE_CorruptData, db))"

interpretation address_book:
  durable_store "alias_step cp pf" "\<lambda>db. aead_rules cp \<and> digest_rule cp \<and> address_book_ok cp pf db" for cp pf
proof unfold_locales
  fix db and op :: alias_command
  assume laws: "aead_rules cp \<and> digest_rule cp \<and> address_book_ok cp pf db"
  obtain r1 r2 c ev where op: "op = (r1, r2, c, ev)" by (cases op) auto
  obtain r db' where st: "store_trusted_device_binding cp pf r1 r2 c ev db = (r, db')" by fastforce
  have "address_book_ok cp pf db'" if "binding_wf c" using store_effect [OF _ _ _ that st] laws by blast
  then show "aead_rules cp \<and> digest_rule cp \<and> address_book_ok cp pf (snd (alias_step cp pf op db))"
    using laws st by (auto simp: alias_step_def op)
qed

lemma fresh_tables_ok:
  assumes "aead_rules cp" "digest_rule cp" "trusted_device_tables cp pf random = Inr db"
  shows "address_book_ok cp pf db" "load_trusted_device_bindings_from cp pf db = Inr []"
proof -
  obtain sealed where sealed: "seal_trusted_device_binding_state cp pf random [] = Inr sealed"
    and db: "db = \<lparr>td_rows = [], td_state = None\<rparr>\<lparr>td_state := Some (blob_bytes sealed)\<rparr>"
    using assms(3) by (auto simp: trusted_device_tables_def)
  show load: "load_trusted_device_bindings_from cp pf db = Inr []"
    by (simp add: db load_trusted_device_bindings_from_def)
  have "open_trusted_device_binding_state cp pf db =
      Inr \<lparr>ts_count = length ([] :: trusted_device_binding list), ts_digest = trusted_device_binding_digest cp []\<rparr>"
    unfolding db by (rule open_state_sealed [OF assms(1,2) sealed])
  then show "address_book_ok cp pf db"
    using load by (simp add: address_book_ok_def verify_eq_Inr) (simp add: db)
qed

text \<open>
  C13: The startup verification never rejects what the daemon wrote itself. Starting from
  freshly created tables, after any sequence of alias commands, accepted or refused, the
  address book verifies: every row opens under its own device, no alias and no device occurs
  twice, at most 256 bindings are stored, and the sealed count and digest match them.
\<close>
theorem address_book_always_verifies:
  assumes "aead_rules cp" "digest_rule cp" "trusted_device_tables cp pf random = Inr db"
  shows "\<exists>bs. let db' = run_ops (alias_step cp pf) commands db in
    verify_trusted_device_bindings cp pf db' = Inr () \<and>
    load_trusted_device_bindings_from cp pf db' = Inr bs \<and> distinct (map tb_alias bs) \<and>
    distinct (map tb_device_id bs) \<and> length bs \<le> MAX_TRUSTED_DEVICE_BINDINGS"
proof -
  let ?db = "run_ops (alias_step cp pf) commands db"
  have ok: "address_book_ok cp pf ?db"
    using address_book.run_invar [of cp pf db commands] assms fresh_tables_ok(1) [OF assms] by blast
  then obtain bs where bs: "load_trusted_device_bindings_from cp pf ?db = Inr bs" "distinct (map tb_alias bs)"
    by (auto simp: address_book_ok_def verify_eq_Inr)
  have "distinct (map tb_device_id bs)" using ok load_devices(2) bs(1) by (auto simp: address_book_ok_def)
  then show ?thesis using ok bs load_bounded [OF bs(1)] by (auto simp: address_book_ok_def Let_def)
qed

section \<open>Instances\<close>

definition sample_profile :: locked_profile where
  "sample_profile = \<lparr>pf_profile_id = [1], pf_sealer = sample_sealer\<rparr>"

abbreviation "sample_nonce \<equiv> Some (replicate 12 5)"

lemma sample_digest_rule: "digest_rule sample_provider"
  by (auto simp: digest_rule_def sample_provider_def)

lemma sample_seal_ok:
  "length p \<le> 1024 \<Longrightarrow> \<exists>blob. SecretSealer_seal sample_provider sample_sealer sample_nonce cx p = Inr blob"
  by (simp add: seal_eq_Inr sample_provider_def sample_sealer_def cipher_sizes)

lemma sample_sealing_works: "sealing_works sample_provider sample_profile sample_nonce sample_nonce"
proof -
  have sha: "length (cp_sha256 sample_provider bs) = 32" for bs
    using sample_digest_rule by (simp add: digest_rule_def)
  have "\<exists>sealed. seal_trusted_device_binding sample_provider sample_profile sample_nonce c = Inr sealed"
    if wf: "binding_wf c" for c
  proof -
    have "length (device_id_bytes (tb_device_id c)) = 32" using wf by (simp add: binding_wf_def)
    then have "\<exists>cx. trusted_device_binding_context sample_provider (pf_profile_id sample_profile) (tb_device_id c) = Inr cx"
      by (auto simp: trusted_device_binding_context_def sample_profile_def cipher_sizes MAX_CONTEXT_COMPONENTS_def
          TRUSTED_DEVICE_BINDING_CONTEXT_VERSION_def ascii_def intro!: derive_ok sha)
    then show ?thesis
      using sample_seal_ok length_encode [OF wf]
      by (fastforce simp: seal_trusted_device_binding_def sample_profile_def)
  qed
  moreover have "\<exists>sealed. seal_trusted_device_binding_state sample_provider sample_profile sample_nonce bs = Inr sealed"
    if "length bs \<le> MAX_TRUSTED_DEVICE_BINDINGS" for bs
  proof -
    have "\<exists>cx. trusted_device_binding_state_context sample_provider (pf_profile_id sample_profile) = Inr cx"
      by (auto simp: trusted_device_binding_state_context_def sample_profile_def cipher_sizes MAX_CONTEXT_COMPONENTS_def
          TRUSTED_DEVICE_BINDING_STATE_CONTEXT_VERSION_def ascii_def intro!: derive_ok sha)
    moreover have "length (trusted_device_binding_digest sample_provider bs) = 32"
      by (simp add: trusted_device_binding_digest_def sha)
    ultimately show ?thesis
      using that sample_seal_ok
      by (fastforce simp: seal_trusted_device_binding_state_def sample_profile_def MAX_TRUSTED_DEVICE_BINDINGS_def Let_def)
  qed
  ultimately show ?thesis by (simp add: sealing_works_def)
qed

lemma trusted_sample_wf: "binding_wf (trusted_sample k)"
  by (simp add: binding_wf_def trusted_sample_def TrustedDeviceAlias_parse_def MAX_TRUSTED_DEVICE_ALIAS_BYTES_def
      is_ascii_lowercase_def is_ascii_digit_def less_eq_char_def)

lemma sample_resolves:
  "resolve_trusted_device (trusted_sample k) [sample_evidence 9 k] =
     Inr \<lparr>tr_device_id = DeviceId (replicate 32 k), tr_device_root_public_key = Ed25519PublicKey (replicate 32 k),
          tr_bootstrap_conversation_id = ConversationId (replicate 16 9)\<rparr>"
  by (simp add: resolve_eq_Inr vouches_def contradicts_def trusted_sample_def sample_evidence_def)

lemma sample_tables:
  obtains db where "trusted_device_tables sample_provider sample_profile sample_nonce = Inr db"
proof -
  obtain sealed where "seal_trusted_device_binding_state sample_provider sample_profile sample_nonce [] = Inr sealed"
    using sample_sealing_works unfolding sealing_works_def by fastforce
  then show thesis using that by (auto simp: trusted_device_tables_def)
qed

lemma sample_first_store:
  obtains db db' where "trusted_device_tables sample_provider sample_profile sample_nonce = Inr db"
    "address_book_ok sample_provider sample_profile db"
    "load_trusted_device_bindings_from sample_provider sample_profile db = Inr []"
    "store_trusted_device_binding sample_provider sample_profile sample_nonce sample_nonce
       (trusted_sample 1) [sample_evidence 9 1] db = (Inr Insert, db')"
proof -
  obtain db where db: "trusted_device_tables sample_provider sample_profile sample_nonce = Inr db"
    by (rule sample_tables)
  note fresh = fresh_tables_ok [OF sample_provider_rules sample_digest_rule db]
  have "decide_trusted_device_alias (trusted_sample 1) None None [sample_evidence 9 1] = Inr Insert"
    by (simp add: decide_trusted_device_alias_def sample_resolves)
  then obtain db' where "store_trusted_device_binding sample_provider sample_profile sample_nonce sample_nonce
       (trusted_sample 1) [sample_evidence 9 1] db = (Inr Insert, db')"
    using store_accepts [OF sample_provider_rules sample_sealing_works fresh(1) trusted_sample_wf fresh(2)]
    by (fastforce simp: other_bindings_def MAX_TRUSTED_DEVICE_BINDINGS_def)
  then show thesis using that db fresh by blast
qed

lemma distinct_singleton_list:
  assumes "distinct xs" "set xs = {x}"
  shows "xs = [x]"
proof -
  have "length xs = 1" using distinct_card [OF assms(1)] assms(2) by simp
  then show ?thesis using assms(2) by (cases xs) auto
qed

lemma single_binding:
  assumes "address_book_ok cp pf db" "load_trusted_device_bindings_from cp pf db = Inr bs" "set bs = {b}"
  shows "load_trusted_device_bindings_from cp pf db = Inr [b]"
proof -
  have "distinct (map tb_device_id bs)"
    using load_devices(2) [OF _ assms(2)] assms(1) by (simp add: address_book_ok_def)
  then have "bs = [b]" using assms(3) by (intro distinct_singleton_list) (auto simp: distinct_map)
  then show ?thesis using assms(2) by simp
qed

text \<open>A book that holds one device, and the same alias given to another once the first is gone.\<close>

lemma sample_second_store:
  obtains db db' where "address_book_ok sample_provider sample_profile db"
    "load_trusted_device_bindings_from sample_provider sample_profile db = Inr [trusted_sample 1]"
    "store_trusted_device_binding sample_provider sample_profile sample_nonce sample_nonce
       (trusted_sample 2) [sample_evidence 9 2] db = (Inr RebindStale, db')"
    "load_trusted_device_bindings_from sample_provider sample_profile db' = Inr [trusted_sample 2]"
proof -
  obtain db0 db where st: "address_book_ok sample_provider sample_profile db0"
    "load_trusted_device_bindings_from sample_provider sample_profile db0 = Inr []"
    "store_trusted_device_binding sample_provider sample_profile sample_nonce sample_nonce
       (trusted_sample 1) [sample_evidence 9 1] db0 = (Inr Insert, db)"
    by (rule sample_first_store)
  note eff = store_effect [OF sample_provider_rules sample_digest_rule _ trusted_sample_wf]
  have ok: "address_book_ok sample_provider sample_profile db"
    and load: "load_trusted_device_bindings_from sample_provider sample_profile db = Inr [trusted_sample 1]"
    using eff [OF st(1,3)] st(2) by (auto simp: other_bindings_def intro: single_binding)
  have "decide_trusted_device_alias (trusted_sample 2) (Some (trusted_sample 1)) None [sample_evidence 9 2] = Inr RebindStale"
    by (simp add: decide_trusted_device_alias_def sample_resolves)
      (simp add: trusted_sample_def sample_evidence_def trusted_device_binding_status_of_def scan_evidence_def)
  moreover have "List.find (\<lambda>b. tb_alias b = tb_alias (trusted_sample 2)) [trusted_sample 1] = Some (trusted_sample 1)"
    "List.find (\<lambda>b. tb_device_id b = tb_device_id (trusted_sample 2)) [trusted_sample 1] = None"
    by (simp_all add: trusted_sample_def)
  moreover have gone: "other_bindings (trusted_sample 2) (set [trusted_sample 1]) = {}"
    by (auto simp: trusted_sample_def other_bindings_def)
  ultimately obtain db' where st': "store_trusted_device_binding sample_provider sample_profile sample_nonce sample_nonce
       (trusted_sample 2) [sample_evidence 9 2] db = (Inr RebindStale, db')"
    using store_accepts [OF sample_provider_rules sample_sealing_works ok trusted_sample_wf load,
        of 2 "[sample_evidence 9 2]" RebindStale]
    by (auto simp: MAX_TRUSTED_DEVICE_BINDINGS_def)
  have "load_trusted_device_bindings_from sample_provider sample_profile db' = Inr [trusted_sample 2]"
    using eff [OF ok st'] load gone by (auto intro: single_binding)
  then show thesis using that ok load st' by blast
qed

theorem trusted_device_store_refines_witness:
  "\<exists>db db'. store_trusted_device_binding sample_provider sample_profile sample_nonce sample_nonce
      (trusted_sample 2) [sample_evidence 9 2] db = (Inr RebindStale, db') \<and>
    address_book_ok sample_provider sample_profile db' \<and>
    load_trusted_device_bindings_from sample_provider sample_profile db = Inr [trusted_sample 1]"
proof -
  obtain db db' where st: "address_book_ok sample_provider sample_profile db"
    "load_trusted_device_bindings_from sample_provider sample_profile db = Inr [trusted_sample 1]"
    "store_trusted_device_binding sample_provider sample_profile sample_nonce sample_nonce
       (trusted_sample 2) [sample_evidence 9 2] db = (Inr RebindStale, db')"
    by (rule sample_second_store)
  then show ?thesis
    using trusted_device_store_refines [OF sample_provider_rules sample_digest_rule st(1) trusted_sample_wf st(3)]
    by blast
qed

theorem active_alias_never_taken_witness:
  "trusted_device_binding_status_of (trusted_sample 1) [sample_evidence 9 2] \<in> {Removed, RootMismatch}"
proof -
  obtain db db' where st: "address_book_ok sample_provider sample_profile db"
    "load_trusted_device_bindings_from sample_provider sample_profile db = Inr [trusted_sample 1]"
    "store_trusted_device_binding sample_provider sample_profile sample_nonce sample_nonce
       (trusted_sample 2) [sample_evidence 9 2] db = (Inr RebindStale, db')"
    "load_trusted_device_bindings_from sample_provider sample_profile db' = Inr [trusted_sample 2]"
    by (rule sample_second_store)
  have other: "trusted_sample 1 \<noteq> trusted_sample 2" "tb_device_id (trusted_sample 1) \<noteq> tb_device_id (trusted_sample 2)"
    by (simp_all add: trusted_sample_def)
  show ?thesis
    using active_alias_never_taken [OF sample_provider_rules sample_digest_rule st(1) trusted_sample_wf st(3,2,4),
        of "trusted_sample 1"] other by simp
qed

theorem trusted_device_store_accepts_witness:
  "\<exists>db db'. trusted_device_tables sample_provider sample_profile sample_nonce = Inr db \<and>
    store_trusted_device_binding sample_provider sample_profile sample_nonce sample_nonce
      (trusted_sample 1) [sample_evidence 9 1] db = (Inr Insert, db')"
proof -
  obtain db where db: "trusted_device_tables sample_provider sample_profile sample_nonce = Inr db"
    by (rule sample_tables)
  note fresh = fresh_tables_ok [OF sample_provider_rules sample_digest_rule db]
  have "decide_trusted_device_alias (trusted_sample 1) None None [sample_evidence 9 1] = Inr Insert"
    by (simp add: decide_trusted_device_alias_def sample_resolves)
  then show ?thesis
    using db trusted_device_store_accepts [OF sample_provider_rules sample_sealing_works fresh(1) trusted_sample_wf fresh(2)]
    by (fastforce simp: other_bindings_def MAX_TRUSTED_DEVICE_BINDINGS_def)
qed

theorem address_book_tampering_detected_witness:
  "\<exists>db. verify_trusted_device_bindings sample_provider sample_profile db = Inr () \<and>
    load_trusted_device_bindings_from sample_provider sample_profile db = Inr [trusted_sample 1] \<and>
    ([trusted_sample 1] = [trusted_sample 1] \<or>
     digest_collision sample_provider (binding_map_input [trusted_sample 1]) (binding_map_input [trusted_sample 1]))"
proof -
  obtain db where st: "address_book_ok sample_provider sample_profile db"
    "load_trusted_device_bindings_from sample_provider sample_profile db = Inr [trusted_sample 1]"
    by (rule sample_second_store)
  then have "distinct (map fst (td_rows db))" "verify_trusted_device_bindings sample_provider sample_profile db = Inr ()"
    by (simp_all add: address_book_ok_def)
  then show ?thesis
    using address_book_tampering_detected [of db db sample_provider sample_profile, OF _ _ _ _ refl st(2,2)] st(2)
    by blast
qed

theorem address_book_always_verifies_witness:
  "\<exists>db bs. trusted_device_tables sample_provider sample_profile sample_nonce = Inr db \<and>
    load_trusted_device_bindings_from sample_provider sample_profile
      (run_ops (alias_step sample_provider sample_profile)
        [(sample_nonce, sample_nonce, trusted_sample 1, [sample_evidence 9 1])] db) = Inr bs \<and>
    distinct (map tb_alias bs)"
proof -
  obtain db where db: "trusted_device_tables sample_provider sample_profile sample_nonce = Inr db"
    by (rule sample_tables)
  show ?thesis
    using db address_book_always_verifies [OF sample_provider_rules sample_digest_rule db,
        of "[(sample_nonce, sample_nonce, trusted_sample 1, [sample_evidence 9 1])]"]
    unfolding Let_def by blast
qed

text \<open>A book of numbered devices, up to the maximum.\<close>

definition numbered_sample :: "nat \<Rightarrow> trusted_device_binding" where
  "numbered_sample n =
     \<lparr>tb_alias = TrustedDeviceAlias [char_of (97 + n div 26), char_of (97 + n mod 26)],
      tb_device_id = DeviceId (of_nat (n div 256) # replicate 31 (of_nat n)),
      tb_device_root_public_key = Ed25519PublicKey (replicate 32 1)\<rparr>"

definition numbered_evidence :: "nat \<Rightarrow> trusted_device_evidence" where
  "numbered_evidence n =
     \<lparr>te_conversation_id = ConversationId (replicate 16 9), te_device_id = tb_device_id (numbered_sample n),
      te_device_root_public_key = tb_device_root_public_key (numbered_sample n),
      te_conversation_supports_repeat_pairing = True\<rparr>"

lemma lowercase_char_of:
  assumes "k < 26"
  shows "is_ascii_lowercase (char_of (97 + k))" "(of_char (char_of (97 + k) :: char) :: nat) = 97 + k"
proof -
  show code: "(of_char (char_of (97 + k) :: char) :: nat) = 97 + k" using assms by (simp add: of_char_of)
  show "is_ascii_lowercase (char_of (97 + k))"
    using assms code by (simp add: is_ascii_lowercase_def less_eq_char_def)
qed

lemma lowercase_not_dash: "is_ascii_lowercase c \<Longrightarrow> c \<noteq> CHR ''-''"
  by (auto simp: is_ascii_lowercase_def less_eq_char_def)

lemma numbered_wf: "n < 676 \<Longrightarrow> binding_wf (numbered_sample n)"
  using lowercase_char_of(1) [of "n div 26"] lowercase_char_of(1) [of "n mod 26"]
    lowercase_not_dash [of "char_of (97 + n div 26)"] lowercase_not_dash [of "char_of (97 + n mod 26)"]
  by (simp add: binding_wf_def numbered_sample_def TrustedDeviceAlias_parse_def MAX_TRUSTED_DEVICE_ALIAS_BYTES_def)

lemma numbered_inject:
  assumes "n < 676" "m < 676"
  shows "tb_alias (numbered_sample n) = tb_alias (numbered_sample m) \<longleftrightarrow> n = m"
    and "tb_device_id (numbered_sample n) = tb_device_id (numbered_sample m) \<longleftrightarrow> n = m"
proof -
  have div: "n = m" if "n div k = m div k" "n mod k = m mod k" for k using that by (metis div_mult_mod_eq)
  have char: "char_of (97 + a) = (char_of (97 + b) :: char) \<longleftrightarrow> a = b" if "a < 26" "b < 26" for a b :: nat
    using lowercase_char_of(2) [OF that(1)] lowercase_char_of(2) [OF that(2)] by (metis add_left_cancel)
  show "tb_alias (numbered_sample n) = tb_alias (numbered_sample m) \<longleftrightarrow> n = m"
    using char [of "n div 26" "m div 26"] char [of "n mod 26" "m mod 26"] assms div [of 26]
    by (auto simp: numbered_sample_def)
  have byte: "(of_nat a :: u8) = of_nat b \<longleftrightarrow> a mod 256 = b mod 256" for a b
    by (simp add: word_unat_eq_iff unat_of_nat)
  have "n div 256 mod 256 = n div 256" "m div 256 mod 256 = m div 256" using assms by simp_all
  then show "tb_device_id (numbered_sample n) = tb_device_id (numbered_sample m) \<longleftrightarrow> n = m"
    using div [of 256] byte by (auto simp: numbered_sample_def)
qed

lemma numbered_resolves:
  "resolve_trusted_device (numbered_sample n) [numbered_evidence n] =
     Inr \<lparr>tr_device_id = tb_device_id (numbered_sample n),
          tr_device_root_public_key = tb_device_root_public_key (numbered_sample n),
          tr_bootstrap_conversation_id = ConversationId (replicate 16 9)\<rparr>"
  by (simp add: resolve_eq_Inr vouches_def contradicts_def numbered_evidence_def)

lemma numbered_books:
  "n \<le> MAX_TRUSTED_DEVICE_BINDINGS \<Longrightarrow>
   \<exists>db bs. address_book_ok sample_provider sample_profile db \<and>
     load_trusted_device_bindings_from sample_provider sample_profile db = Inr bs \<and>
     set bs = numbered_sample ` {..<n}"
proof (induction n)
  case 0
  obtain db where "trusted_device_tables sample_provider sample_profile sample_nonce = Inr db"
    by (rule sample_tables)
  then show ?case using fresh_tables_ok [OF sample_provider_rules sample_digest_rule] by fastforce
next
  case (Suc n)
  let ?c = "numbered_sample n"
  obtain db bs where ok: "address_book_ok sample_provider sample_profile db"
    and load: "load_trusted_device_bindings_from sample_provider sample_profile db = Inr bs"
    and bs: "set bs = numbered_sample ` {..<n}" using Suc by auto
  have small: "n < 676" using Suc.prems by (simp add: MAX_TRUSTED_DEVICE_BINDINGS_def)
  have new: "tb_alias b \<noteq> tb_alias ?c \<and> tb_device_id b \<noteq> tb_device_id ?c" if "b \<in> set bs" for b
    using that small numbered_inject [of _ n] by (auto simp: bs)
  then have others: "other_bindings ?c (set bs) = set bs" by (auto simp: other_bindings_def)
  have "card (set bs) \<le> n" unfolding bs using card_image_le [of "{..<n}" numbered_sample] by simp
  moreover have "List.find (\<lambda>b. tb_alias b = tb_alias ?c) bs = None"
    "List.find (\<lambda>b. tb_device_id b = tb_device_id ?c) bs = None"
    using new by (auto simp: find_None_iff)
  moreover have "decide_trusted_device_alias ?c None None [numbered_evidence n] = Inr Insert"
    by (simp add: decide_trusted_device_alias_def numbered_resolves)
  ultimately obtain db' where st: "store_trusted_device_binding sample_provider sample_profile sample_nonce
      sample_nonce ?c [numbered_evidence n] db = (Inr Insert, db')"
    using store_accepts [OF sample_provider_rules sample_sealing_works ok numbered_wf [OF small] load,
        of "[numbered_evidence n]" Insert] Suc.prems others by auto
  show ?case
    using store_effect [OF sample_provider_rules sample_digest_rule ok numbered_wf [OF small] st] load bs others
    by (auto simp: lessThan_Suc)
qed

theorem trusted_device_capacity_error_unreachable_witness:
  "\<exists>db bs. load_trusted_device_bindings_from sample_provider sample_profile db = Inr bs \<and> length bs = 256 \<and>
    store_trusted_device_binding sample_provider sample_profile sample_nonce sample_nonce
      (numbered_sample 256) [numbered_evidence 256] db = (Inl PSE_CorruptData, db)"
proof -
  obtain db bs where ok: "address_book_ok sample_provider sample_profile db"
    and load: "load_trusted_device_bindings_from sample_provider sample_profile db = Inr bs"
    and bs: "set bs = numbered_sample ` {..<256}"
    using numbered_books [of 256] by (auto simp: MAX_TRUSTED_DEVICE_BINDINGS_def)
  have inj: "inj_on numbered_sample {..<676}"
    by (rule inj_onI) (metis lessThan_iff numbered_inject(1))
  have "distinct bs"
    using load_devices(2) [OF _ load] ok by (auto simp: address_book_ok_def distinct_map)
  then have full: "length bs = 256"
    using bs card_image [OF inj_on_subset [OF inj], of "{..<256}"] distinct_card [of bs] by simp
  obtain sealed where sealed: "seal_trusted_device_binding sample_provider sample_profile sample_nonce
      (numbered_sample 256) = Inr sealed"
    using sample_sealing_works numbered_wf [of 256] unfolding sealing_works_def by fastforce
  have new: "\<forall>b \<in> set bs. tb_alias b \<noteq> tb_alias (numbered_sample 256) \<and>
      tb_device_id b \<noteq> tb_device_id (numbered_sample 256)"
    using numbered_inject [of _ 256] by (auto simp: bs)
  have "length bs = MAX_TRUSTED_DEVICE_BINDINGS" using full by (simp add: MAX_TRUSTED_DEVICE_BINDINGS_def)
  from trusted_device_capacity_error_unreachable [OF ok load this numbered_wf sealed new numbered_resolves]
  show ?thesis using load full by auto
qed

end
