(* ===== verification/Local_Framing.thy ===== *)
theory Local_Framing
  imports Konclave_Prelude
begin

text \<open>
  \<open>crates/Konclave.LocalFraming\<close>: the length-prefixed frames both local channels use.
  A stream is the byte list the peer sends before it closes; \<open>read_exact\<close> fails when
  fewer bytes are left than asked for.
\<close>

unbundle bit_operations_syntax

section \<open>Big-endian headers\<close>

definition FRAME_HEADER_LENGTH :: usize where "FRAME_HEADER_LENGTH = 4"

definition u32_to_be_bytes :: "u32 \<Rightarrow> bytes" where
  "u32_to_be_bytes w = map (\<lambda>k. ucast (drop_bit (8 * k) w)) [3, 2, 1, 0]"

definition u32_from_be_bytes :: "bytes \<Rightarrow> u32" where
  "u32_from_be_bytes bs = foldl (\<lambda>acc b. push_bit 8 acc OR ucast b) 0 bs"

lemma length_u32_to_be_bytes [simp]: "length (u32_to_be_bytes w) = 4"
  by (simp add: u32_to_be_bytes_def)

lemma u32_be_roundtrip [simp]: "u32_from_be_bytes (u32_to_be_bytes w) = w"
proof (rule bit_word_eqI)
  fix n assume n: "n < LENGTH(32)"
  have "n < 8 \<or> 8 \<le> n \<and> n < 16 \<or> 16 \<le> n \<and> n < 24 \<or> 24 \<le> n \<and> n < 32" using n by auto
  then show "bit (u32_from_be_bytes (u32_to_be_bytes w)) n = bit w n"
    by (elim disjE)
      (auto simp: u32_from_be_bytes_def u32_to_be_bytes_def bit_simps)
qed

lemma u8_high_bit: "8 \<le> n \<Longrightarrow> \<not> bit (x :: u8) n"
  using bit_imp_le_length [of x n] by auto

lemma u32_be_inverse:
  assumes "length bs = 4"
  shows "u32_to_be_bytes (u32_from_be_bytes bs) = bs"
proof -
  from assms obtain a b c d where bs: "bs = [a, b, c, d]"
    by (auto simp: numeral_eq_Suc length_Suc_conv)
  show ?thesis
    unfolding bs u32_to_be_bytes_def u32_from_be_bytes_def
    by (auto intro!: bit_word_eqI simp: bit_simps u8_high_bit)
qed

section \<open>Frames\<close>

datatype frame_error = TooLarge | Malformed | Closed

definition decode_frame_length :: "bytes \<Rightarrow> usize \<Rightarrow> frame_error + usize" where
  "decode_frame_length header limit =
     (let declared = unat (u32_from_be_bytes header) in
      if declared = 0 then Inl Malformed
      else if declared > limit then Inl TooLarge
      else Inr declared)"

definition encode_frame :: "bytes \<Rightarrow> usize \<Rightarrow> frame_error + bytes" where
  "encode_frame payload limit =
     (if payload = [] then Inl Malformed
      else if length payload > limit then Inl TooLarge
      else if length payload \<ge> 2 ^ 32 then Inl TooLarge
      else Inr (u32_to_be_bytes (of_nat (length payload)) @ payload))"

definition read_exact :: "bytes \<Rightarrow> usize \<Rightarrow> (bytes \<times> bytes) option" where
  "read_exact stream n = (if n \<le> length stream then Some (take n stream, drop n stream) else None)"

definition read_frame :: "bytes \<Rightarrow> usize \<Rightarrow> frame_error + (bytes \<times> bytes)" where
  "read_frame stream limit =
     and_then (ok_or Closed (read_exact stream FRAME_HEADER_LENGTH)) (\<lambda>(header, rest).
     and_then (decode_frame_length header limit) (\<lambda>n.
     ok_or Closed (read_exact rest n)))"

text \<open>
  The written side of \<open>write_frame\<close>: the bytes that reach the peer when the write and the
  flush succeed, which \<open>peer_open\<close> says.
\<close>

definition write_frame :: "bytes \<Rightarrow> bytes \<Rightarrow> usize \<Rightarrow> bool \<Rightarrow> frame_error + bytes" where
  "write_frame stream payload limit peer_open =
     and_then (encode_frame payload limit)
       (\<lambda>frame. if peer_open then Inr (stream @ frame) else Inl Closed)"

lemma unat_of_nat_u32 [simp]: "n < 2 ^ 32 \<Longrightarrow> unat (of_nat n :: u32) = n"
  by (simp add: unsigned_of_nat take_bit_nat_eq_self)

lemma encode_frame_eq_Inr:
  "encode_frame p l = Inr f \<longleftrightarrow>
     1 \<le> length p \<and> length p \<le> l \<and> length p < 2 ^ 32 \<and>
     f = u32_to_be_bytes (of_nat (length p)) @ p"
  by (cases p) (auto simp: encode_frame_def)

lemma read_frame_eq_Inr:
  "read_frame s l = Inr (p, rest) \<longleftrightarrow>
     (\<exists>h. s = h @ p @ rest \<and> length h = 4 \<and> unat (u32_from_be_bytes h) = length p \<and>
        1 \<le> length p \<and> length p \<le> l)"
  (is "?L \<longleftrightarrow> ?R")
proof
  assume ?L
  then have "4 \<le> length s" and d: "unat (u32_from_be_bytes (take 4 s)) = length p"
    "1 \<le> length p" "length p \<le> l" "p @ rest = drop 4 s"
    by (auto simp: read_frame_def read_exact_def decode_frame_length_def Let_def
          FRAME_HEADER_LENGTH_def append_take_drop_id [of _ "drop 4 s", simplified]
          split: if_splits)
  moreover have "s = take 4 s @ p @ rest" unfolding d(4) by simp
  ultimately have "s = take 4 s @ p @ rest" "length (take 4 s) = 4" by simp_all
  with d show ?R by blast
next
  assume ?R
  then show ?L
    by (auto simp: read_frame_def read_exact_def decode_frame_length_def Let_def
          FRAME_HEADER_LENGTH_def)
qed

text \<open>
  A frame written under one stage's limit is read back exactly, with whatever follows it
  left on the stream, by a reader whose limit admits the payload.
\<close>

lemma frame_roundtrip:
  assumes "encode_frame payload limit = Inr frame" and "length payload \<le> reader_limit"
  shows "read_frame (frame @ rest) reader_limit = Inr (payload, rest)"
  using assms by (auto simp: encode_frame_eq_Inr read_frame_eq_Inr)

text \<open>
  A successful read yields a payload of one to \<open>limit\<close> bytes, and the bytes consumed
  are the one frame that encodes it, so a byte stream has at most one decomposition.
\<close>

lemma read_frame_sound:
  assumes "read_frame stream limit = Inr (payload, rest)"
  shows "1 \<le> length payload \<and> length payload \<le> limit \<and>
    (\<exists>frame. encode_frame payload limit = Inr frame \<and> stream = frame @ rest)"
proof -
  from assms obtain h where h: "stream = h @ payload @ rest" "length h = 4"
    "unat (u32_from_be_bytes h) = length payload" "1 \<le> length payload" "length payload \<le> limit"
    by (auto simp: read_frame_eq_Inr)
  have "length payload < 2 ^ 32" using unat_u32_less [of "u32_from_be_bytes h"] h(3) by simp
  moreover have "u32_to_be_bytes (of_nat (length payload)) = h"
    using u32_be_inverse [OF h(2)] by (simp flip: h(3))
  ultimately show ?thesis using h by (auto simp: encode_frame_eq_Inr)
qed

text \<open>
  A header that declares more than the limit is refused from its four bytes alone,
  whatever follows, and a declared length of zero is refused as malformed.
\<close>

lemma oversized_header_refused:
  assumes "length header = 4"
    and "unat (u32_from_be_bytes header) = 0 \<or> limit < unat (u32_from_be_bytes header)"
  shows "read_frame (header @ rest) limit =
    Inl (if unat (u32_from_be_bytes header) = 0 then Malformed else TooLarge)"
  using assms
  by (auto simp: read_frame_def read_exact_def decode_frame_length_def FRAME_HEADER_LENGTH_def)

section \<open>Streams of frames\<close>

text \<open>
  Each frame is written by one call of \<open>write_frame\<close> on an open channel and read by one
  call of \<open>read_frame\<close>, which leaves the rest of the stream to the next call.
\<close>

lemma write_frame_eq:
  assumes "1 \<le> length p" "length p \<le> limit" "length p < 2 ^ 32"
  obtains frame where "encode_frame p limit = Inr frame" "\<And>s. write_frame s p limit True = Inr (s @ frame)"
proof -
  have "encode_frame p limit = Inr (u32_to_be_bytes (of_nat (length p)) @ p)"
    using assms by (simp add: encode_frame_eq_Inr)
  then show thesis using that by (simp add: write_frame_def)
qed

lemma frames_written:
  assumes "\<forall>p \<in> set ps. 1 \<le> length p \<and> length p \<le> limit \<and> length p < 2 ^ 32"
  shows "\<exists>stream. (\<forall>before. try_fold (\<lambda>s p. write_frame s p limit True) before ps = Inr (before @ stream)) \<and>
    (\<forall>got rest. try_fold (\<lambda>(got, s) _. and_then (read_frame s limit) (\<lambda>(p, s). Inr (got @ [p], s)))
       (got, stream @ rest) ps = Inr (got @ ps, rest))"
  using assms
proof (induction ps)
  case (Cons p ps)
  obtain frame where frame: "encode_frame p limit = Inr frame" "\<And>s. write_frame s p limit True = Inr (s @ frame)"
    using write_frame_eq [of p limit] Cons.prems by auto
  obtain stream where stream: "\<And>before. try_fold (\<lambda>s p. write_frame s p limit True) before ps = Inr (before @ stream)"
    "\<And>got rest. try_fold (\<lambda>(got, s) _. and_then (read_frame s limit) (\<lambda>(p, s). Inr (got @ [p], s)))
       (got, stream @ rest) ps = Inr (got @ ps, rest)"
    using Cons by auto
  have "read_frame (frame @ rest) limit = Inr (p, rest)" for rest
    using frame_roundtrip [OF frame(1)] Cons.prems by simp
  then show ?case using frame(2) stream by (intro exI [of _ "frame @ stream"]) simp
qed simp

text \<open>
  C40: Frames written one after another by \<open>write_frame\<close> are read back by as many calls of
  \<open>read_frame\<close> as the same payloads in the same order, and what follows them on the stream
  is left untouched: message boundaries survive a stream that carries none. The payloads
  have at least one byte, at most the limit that both sides use, and less than 4 GiB, and
  the channel stays open while they are written.
\<close>

theorem frames_reassemble:
  assumes "\<forall>p \<in> set ps. 1 \<le> length p \<and> length p \<le> limit \<and> length p < 2 ^ 32"
  shows "\<exists>stream. try_fold (\<lambda>s p. write_frame s p limit True) [] ps = Inr stream \<and>
    try_fold (\<lambda>(got, s) _. and_then (read_frame s limit) (\<lambda>(p, s). Inr (got @ [p], s))) ([], stream @ rest) ps =
      Inr (ps, rest)"
  using frames_written [OF assms] by fastforce

theorem frames_reassemble_witness:
  "write_frame [0, 0, 0, 2, 7, 8] [1] 64 True = Inr [0, 0, 0, 2, 7, 8, 0, 0, 0, 1, 1] \<and>
   try_fold (\<lambda>(got, s) _. and_then (read_frame s 64) (\<lambda>(p, s). Inr (got @ [p], s)))
     ([], [0, 0, 0, 2, 7, 8, 0, 0, 0, 1, 1] @ [9]) [[7, 8], [1 :: u8]] = Inr ([[7, 8], [1]], [9])"
proof -
  have written: "write_frame [] [7, 8] 64 True = Inr [0, 0, 0, 2, 7, 8]"
    "write_frame [0, 0, 0, 2, 7, 8] [1] 64 True = Inr [0, 0, 0, 2, 7, 8, 0, 0, 0, 1, 1]"
    by (simp_all add: write_frame_def encode_frame_def u32_to_be_bytes_def)
  have "\<exists>stream. try_fold (\<lambda>s p. write_frame s p 64 True) [] [[7, 8], [1 :: u8]] = Inr stream \<and>
    try_fold (\<lambda>(got, s) _. and_then (read_frame s 64) (\<lambda>(p, s). Inr (got @ [p], s))) ([], stream @ [9]) [[7, 8], [1 :: u8]] =
      Inr ([[7, 8], [1]], [9])"
    by (rule frames_reassemble) simp
  then show ?thesis using written by (auto simp del: append.simps)
qed

end
