(* ===== verification/Protobuf_Wire.thy ===== *)
theory Protobuf_Wire
  imports Konclave_Prelude
begin

text \<open>
  The hand-written Protocol Buffers writer of
  \<open>crates/Konclave.ProtocolContracts/src/v1/relay.rs\<close>: varints, keys and
  length-delimited fields, with the length formulas used to size them. The reference
  reader below is the wire format's own rule (base-128 groups, key = field * 8 + type) and
  says what the written bytes mean.
\<close>

unbundle bit_operations_syntax

section \<open>Varints\<close>

lemma drop_bit_7_less: "0x80 \<le> (v :: u64) \<Longrightarrow> unat (drop_bit 7 v) < unat v"
  by (simp add: drop_bit_eq_div word_le_nat_alt unat_div)

function append_varint :: "u64 \<Rightarrow> bytes \<Rightarrow> bytes" where
  "append_varint value output =
     (if value \<ge> 0x80
      then append_varint (drop_bit 7 value) (output @ [(ucast value AND 0x7f) OR 0x80])
      else output @ [ucast value])"
  by pat_completeness auto
termination
  by (relation "measure (\<lambda>(v, _). unat v)") (auto simp: drop_bit_7_less)

function varint_length_from :: "u64 \<Rightarrow> usize \<Rightarrow> usize" where
  "varint_length_from value len =
     (if value \<ge> 0x80 then varint_length_from (drop_bit 7 value) (len + 1) else len)"
  by pat_completeness auto
termination
  by (relation "measure (\<lambda>(v, _). unat v)") (auto simp: drop_bit_7_less)

definition varint_length :: "u64 \<Rightarrow> usize" where
  "varint_length value = varint_length_from value 1"

declare append_varint.simps [simp del] varint_length_from.simps [simp del]

definition varint_field_length :: "u64 \<Rightarrow> usize" where
  "varint_field_length value = 1 + varint_length value"

definition append_key :: "u32 \<Rightarrow> u8 \<Rightarrow> bytes \<Rightarrow> bytes" where
  "append_key field_number wire_type output =
     append_varint (push_bit 3 (ucast field_number) OR ucast wire_type) output"

definition append_length_delimited :: "u32 \<Rightarrow> bytes \<Rightarrow> bytes \<Rightarrow> bytes" where
  "append_length_delimited field_number value output =
     append_varint (of_nat (length value)) (append_key field_number 2 output) @ value"

definition append_varint_field :: "u32 \<Rightarrow> u64 \<Rightarrow> bytes \<Rightarrow> bytes" where
  "append_varint_field field_number value output =
     append_varint value (append_key field_number 0 output)"

lemma append_varint_acc: "append_varint v out = out @ append_varint v []"
proof (induction "unat v" arbitrary: v out rule: less_induct)
  case less
  show ?case
  proof (cases "v \<ge> 0x80")
    case True
    note IH = less [OF drop_bit_7_less [OF True]]
    show ?thesis
      using True by (simp add: append_varint.simps [of v] IH [of "_ # _"] IH [of "_ @ _"])
  next
    case False
    then show ?thesis by (simp add: append_varint.simps [of v])
  qed
qed

lemma varint_length_from_acc: "varint_length_from v n = n + length (append_varint v []) - 1"
proof (induction "unat v" arbitrary: v n rule: less_induct)
  case less
  show ?case
  proof (cases "v \<ge> 0x80")
    case True
    then show ?thesis
      using less [OF drop_bit_7_less [OF True]]
      by (simp add: append_varint.simps [of v] varint_length_from.simps [of v]
          append_varint_acc [of "drop_bit 7 v" "[_]"])
  next
    case False
    then show ?thesis by (simp add: append_varint.simps [of v] varint_length_from.simps [of v])
  qed
qed

lemma varint_length_append: "length (append_varint v out) = length out + varint_length v"
proof -
  have "append_varint v [] \<noteq> []"
    by (subst append_varint.simps) (simp add: append_varint_acc [of "drop_bit 7 v" "[_]"])
  then show ?thesis
    by (subst append_varint_acc) (simp add: varint_length_def varint_length_from_acc)
qed

section \<open>The reference reader\<close>

fun read_varint :: "bytes \<Rightarrow> (nat \<times> bytes) option" where
  "read_varint [] = None"
| "read_varint (b # bs) =
     (if unat b < 128 then Some (unat b, bs)
      else map_option (\<lambda>(v, rest). (unat b mod 128 + 128 * v, rest)) (read_varint bs))"

lemma low_group: "unat ((ucast (v :: u64) AND 0x7f) OR 0x80 :: u8) = unat v mod 128 + 128"
proof -
  have mask: "(x :: nat) AND 127 = x mod 128" for x
    using take_bit_eq_mask [of 7 x]
    by (simp add: mask_eq_exp_minus_1 take_bit_eq_mod)
  have top: "(x mod 128) OR 128 = x mod 128 + 128" for x :: nat
  proof -
    have "take_bit 7 x + 2 ^ 7 = take_bit 7 x OR 2 ^ 7"
      by (rule disjunctive_add) (simp only: bit_take_bit_iff bit_exp_iff, blast)
    then show ?thesis by (simp add: take_bit_eq_mod)
  qed
  have "unat ((ucast v AND 0x7f) OR 0x80 :: u8) = (unat (ucast v :: u8) AND 127) OR 128"
    by (simp add: unsigned_or_eq unsigned_and_eq)
  also have "unat (ucast v :: u8) = unat v mod 256"
    by (simp add: unsigned_ucast_eq take_bit_eq_mod)
  finally show ?thesis
    by (simp add: mask top mod_mod_cancel)
qed

lemma read_append_varint: "read_varint (append_varint v [] @ rest) = Some (unat v, rest)"
proof (induction "unat v" arbitrary: v rule: less_induct)
  case less
  show ?case
  proof (cases "v \<ge> 0x80")
    case True
    have "unat (drop_bit 7 v) = unat v div 128"
      by (simp add: drop_bit_eq_div unat_div)
    then show ?thesis
      using less [OF drop_bit_7_less [OF True]] True
      by (simp add: append_varint.simps [of v] append_varint_acc [of "drop_bit 7 v" "[_]"]
          low_group)
  next
    case False
    then have "unat (ucast v :: u8) = unat v"
      by (simp add: word_le_nat_alt unsigned_ucast_eq take_bit_nat_eq_self)
    with False show ?thesis by (simp add: append_varint.simps [of v] word_le_nat_alt)
  qed
qed

lemma varint_length_bound: "unat v < 128 ^ Suc n \<Longrightarrow> varint_length v \<le> Suc n"
proof (induction n arbitrary: v)
  case 0
  then show ?case
    by (simp add: varint_length_def varint_length_from.simps [of v] word_le_nat_alt)
next
  case (Suc n)
  have "unat (drop_bit 7 v) < 128 ^ Suc n"
    using Suc.prems by (simp add: drop_bit_eq_div unat_div less_mult_imp_div_less)
  from Suc.IH [OF this] show ?case
    using varint_length_from_acc [of "drop_bit 7 v" 2] varint_length_from_acc [of "drop_bit 7 v" 1]
    by (auto simp: varint_length_def varint_length_from.simps [of v] numeral_2_eq_2)
qed

lemma varint_length_le_10: "varint_length v \<le> 10"
  using varint_length_bound [of v 9] unat_u64_less [of v] by simp

lemma varint_length_pos: "1 \<le> varint_length v"
proof (cases "append_varint v []")
  case Nil
  then show ?thesis using read_append_varint [of v "[]"] by simp
next
  case Cons
  then show ?thesis using varint_length_append [of v "[]"] by simp
qed

text \<open>
  A varint written for any 64-bit value takes exactly the number of bytes the length
  formula announces, between one and ten, and the wire format's base-128 reader gets the
  value back from it whatever bytes follow.
\<close>
lemma varint_roundtrip:
  "length (append_varint v out) = length out + varint_length v
   \<and> 1 \<le> varint_length v \<and> varint_length v \<le> 10
   \<and> (\<exists>written. append_varint v out = out @ written
        \<and> read_varint (written @ rest) = Some (unat v, rest))"
  using varint_length_append varint_length_le_10 varint_length_pos append_varint_acc
    read_append_varint by blast

section \<open>Keys and fields\<close>

datatype wire_field = Varint_field nat | Bytes_field bytes

definition read_field :: "bytes \<Rightarrow> ((nat \<times> wire_field) \<times> bytes) option" where
  "read_field bs =
     (case read_varint bs of None \<Rightarrow> None
      | Some (key, rest) \<Rightarrow>
          (if key mod 8 = 0 then map_option (\<lambda>(v, rest'). ((key div 8, Varint_field v), rest')) (read_varint rest)
           else if key mod 8 = 2 then
             (case read_varint rest of None \<Rightarrow> None
              | Some (n, rest') \<Rightarrow>
                  if n \<le> length rest' then Some ((key div 8, Bytes_field (take n rest')), drop n rest')
                  else None)
           else None))"

lemma read_varint_shorter: "read_varint bs = Some (v, rest) \<Longrightarrow> length rest < length bs"
  by (induction bs arbitrary: v rest) (auto split: if_splits)

lemma read_field_shorter: "read_field bs = Some (f, rest) \<Longrightarrow> length rest < length bs"
  by (auto simp: read_field_def split: option.splits if_splits prod.splits
      dest!: read_varint_shorter)

function read_fields :: "bytes \<Rightarrow> (nat \<times> wire_field) list option" where
  "read_fields bs =
     (if bs = [] then Some []
      else case read_field bs of None \<Rightarrow> None
           | Some (f, rest) \<Rightarrow> map_option (\<lambda>fs. f # fs) (read_fields rest))"
  by pat_completeness auto
termination
  by (relation "measure length") (auto dest: read_field_shorter)

declare read_fields.simps [simp del]

lemma read_fields_Nil [simp]: "read_fields [] = Some []"
  by (simp add: read_fields.simps)

lemma read_fields_step:
  "read_field bs = Some (f, rest) \<Longrightarrow> read_fields bs = map_option (\<lambda>fs. f # fs) (read_fields rest)"
  using read_varint.simps(1) by (auto simp: read_fields.simps [of bs] read_field_def)

lemma unat_key:
  assumes "unat t < 8"
  shows "unat (push_bit 3 (ucast (f :: u32)) OR ucast (t :: u8) :: u64) = unat f * 8 + unat t"
proof -
  have f: "unat f < 2 ^ 32" using unsigned_less [of f] by simp
  have shifted: "unat (push_bit 3 (ucast f) :: u64) = push_bit 3 (unat f)"
    using f by (subst unsigned_push_bit_eq)
      (simp add: unsigned_ucast_eq push_bit_eq_mult take_bit_nat_eq_self)
  have small: "unat (ucast t :: u64) = take_bit 3 (unat t)"
    using assms by (simp add: unsigned_ucast_eq take_bit_nat_eq_self)
  have "push_bit 3 (unat f) + take_bit 3 (unat t) = push_bit 3 (unat f) OR take_bit 3 (unat t)"
    by (rule disjunctive_add) (auto simp: bit_push_bit_iff bit_take_bit_iff)
  then show ?thesis
    unfolding unsigned_or_eq shifted small
    using assms by (simp add: push_bit_eq_mult take_bit_nat_eq_self)
qed

lemma key_mod: "Suc (Suc (n * 8)) mod 8 = 2" and key_div: "Suc (Suc (n * 8)) div 8 = n"
  by presburger+

lemma append_key_acc: "append_key f t out = out @ append_key f t []"
  by (simp add: append_key_def append_varint_acc [of _ out])

lemma read_append_key:
  "unat t < 8 \<Longrightarrow> read_varint (append_key f t [] @ rest) = Some (unat f * 8 + unat t, rest)"
  by (simp add: append_key_def read_append_varint unat_key)

lemma append_varint_field_acc:
  "append_varint_field f v out = out @ append_key f 0 [] @ append_varint v []"
  by (simp add: append_varint_field_def append_key_acc [of f 0 out]
      append_varint_acc [of v "out @ _"])

lemma append_length_delimited_acc:
  "append_length_delimited f value out
     = out @ append_key f 2 [] @ append_varint (of_nat (length value)) [] @ value"
  by (simp add: append_length_delimited_def append_key_acc [of f 2 out]
      append_varint_acc [of _ "out @ _"])

lemma read_append_varint_field:
  "read_field (append_varint_field f v [] @ rest) = Some ((unat f, Varint_field (unat v)), rest)"
  by (simp add: append_varint_field_acc read_field_def read_append_key read_append_varint)

lemma read_append_length_delimited:
  assumes "length value < 2 ^ 64"
  shows "read_field (append_length_delimited f value [] @ rest)
     = Some ((unat f, Bytes_field value), rest)"
proof -
  have "unat (of_nat (length value) :: u64) = length value"
    using assms by (simp add: unsigned_of_nat take_bit_nat_eq_self)
  then show ?thesis
    by (simp add: append_length_delimited_acc read_field_def read_append_key read_append_varint
        key_mod key_div)
qed

lemma length_append_key: "unat f < 16 \<Longrightarrow> unat t < 8 \<Longrightarrow> length (append_key f t out) = length out + 1"
  using varint_length_bound [of "push_bit 3 (ucast f) OR ucast t" 0]
    varint_length_pos [of "push_bit 3 (ucast f) OR ucast t"]
  by (simp add: append_key_def varint_length_append unat_key)

lemma length_append_varint_field:
  "unat f < 16 \<Longrightarrow> length (append_varint_field f v out) = length out + varint_field_length v"
  by (simp add: append_varint_field_def varint_length_append length_append_key
      varint_field_length_def)

lemma length_append_length_delimited:
  "unat f < 16 \<Longrightarrow> length (append_length_delimited f value out)
     = length out + 1 + varint_length (of_nat (length value)) + length value"
  by (simp add: append_length_delimited_def varint_length_append length_append_key)

end
