(* ===== verification/Protocol_Relay.thy ===== *)
theory Protocol_Relay
  imports Domain_Core Protobuf_Wire
begin

text \<open>
  The relay codec of \<open>crates/Konclave.ProtocolContracts\<close>: the bounds that
  \<open>v1/common.rs\<close> puts around the Protocol Buffers library and the relay contracts of
  \<open>v1/relay.rs\<close>. The library itself (the crate \<open>prost\<close> and the message types it
  generates from \<open>proto/konclave/protocol/v1\<close>) is the argument \<open>px\<close> of the
  definitions that call it: key decoding, field skipping, and decoding, sizing and
  encoding of each message.
\<close>

section \<open>Errors\<close>

datatype relay_authentication_error = AuthInvalidLength string nat nat

datatype konclave_protocol_error =
    EncodedMessageTooLarge string nat nat
  | Decode string string
  | MissingField string
  | UnsupportedEnum string int
  | MissingVariant string
  | NonCanonicalEncoding string
  | UnsupportedMajor string u32
  | Domain konclave_domain_error
  | RelayAuthentication relay_authentication_error

section \<open>Generated message types and the library that encodes them\<close>

record wire_version =
  wv_major :: u32
  wv_minor :: u32

record wire_relay_envelope =
  we_version :: "wire_version option"
  we_routing_id :: "bytes option"
  we_envelope_id :: "bytes option"
  we_delivery_class :: int
  we_expected_parent_epoch :: "u64 option"
  we_expires_at_unix_seconds :: u64
  we_payload :: bytes

record wire_stored_relay_envelope =
  ws_envelope :: "wire_relay_envelope option"
  ws_cursor :: u64

record wire_replay_request =
  wr_routing_id :: "bytes option"
  wr_after_cursor :: u64
  wr_limit :: u32

record wire_replay_page =
  wp_envelopes :: "wire_stored_relay_envelope list"
  wp_next_cursor :: u64
  wp_has_more :: bool

record wire_acknowledge_request =
  wa_routing_id :: "bytes option"
  wa_cursor :: u64

datatype wire_type = Varint | SixtyFourBit | LengthDelimited | StartGroup | EndGroup | ThirtyTwoBit

record 'm message_codec =
  mc_decode :: "bytes \<Rightarrow> string + 'm"
  mc_encoded_len :: "'m \<Rightarrow> usize"
  mc_encode_to_vec :: "'m \<Rightarrow> bytes"

record prost =
  px_decode_key :: "bytes \<Rightarrow> ((u32 \<times> wire_type) \<times> bytes) option"
  px_skip_field :: "wire_type \<Rightarrow> u32 \<Rightarrow> bytes \<Rightarrow> bytes option"
  px_relay_envelope :: "wire_relay_envelope message_codec"
  px_stored_relay_envelope :: "wire_stored_relay_envelope message_codec"
  px_replay_request :: "wire_replay_request message_codec"
  px_replay_page :: "wire_replay_page message_codec"
  px_acknowledge_request :: "wire_acknowledge_request message_codec"

section \<open>Bounds around the library\<close>

definition malformed_wire :: "string \<Rightarrow> konclave_protocol_error" where
  "malformed_wire contract = Decode contract ''invalid Protocol Buffers framing''"

definition require_input_size :: "bytes \<Rightarrow> usize \<Rightarrow> string \<Rightarrow> konclave_protocol_error + unit" where
  "require_input_size bs maximum contract =
     ensure (length bs \<le> maximum) (EncodedMessageTooLarge contract maximum (length bs))"

definition require_field_count :: "usize \<Rightarrow> konclave_protocol_error + unit" where
  "require_field_count actual =
     ensure (actual \<le> MAX_PROTOBUF_TOP_LEVEL_FIELDS)
       (Domain (OutOfRange ''protobuf_top_level_fields'' 0 MAX_PROTOBUF_TOP_LEVEL_FIELDS actual))"

definition reject_group :: "wire_type \<Rightarrow> string \<Rightarrow> konclave_protocol_error + unit" where
  "reject_group wt contract = ensure (wt \<noteq> StartGroup \<and> wt \<noteq> EndGroup) (malformed_wire contract)"

text \<open>A limit is a field number, its maximal number of occurrences and the field's name.\<close>

type_synonym field_limit = "u32 \<times> usize \<times> string"

fun count_field :: "u32 \<Rightarrow> field_limit list \<Rightarrow> usize list \<Rightarrow> konclave_protocol_error + usize list" where
  "count_field tag ((field_number, maximum, field) # limits) (c # counts) =
     and_then
       (if tag = field_number
        then and_then (ensure (c + 1 \<le> maximum) (Domain (OutOfRange field 0 maximum (c + 1))))
               (\<lambda>_. Inr (c + 1))
        else Inr c)
       (\<lambda>c'. and_then (count_field tag limits counts) (\<lambda>cs. Inr (c' # cs)))"
| "count_field tag _ _ = Inr []"

function scan_fields ::
    "prost \<Rightarrow> string \<Rightarrow> field_limit list \<Rightarrow> usize list \<Rightarrow> usize \<Rightarrow> bytes \<Rightarrow>
     konclave_protocol_error + unit" where
  "scan_fields px contract limits counts field_count remaining =
     (if remaining = [] then Inr ()
      else
        and_then (require_field_count (field_count + 1)) (\<lambda>_.
        and_then (ok_or (malformed_wire contract) (px_decode_key px remaining)) (\<lambda>((tag, wt), rest).
        and_then (reject_group wt contract) (\<lambda>_.
        and_then (if wt = LengthDelimited then count_field tag limits counts else Inr counts) (\<lambda>counts'.
        and_then (ok_or (malformed_wire contract) (px_skip_field px wt tag rest)) (\<lambda>rest'.
        scan_fields px contract limits counts' (field_count + 1) rest'))))))"
  by pat_completeness auto
termination
  by (relation "measure (\<lambda>(_, _, _, _, n, _). Suc MAX_PROTOBUF_TOP_LEVEL_FIELDS - n)")
    (auto simp: require_field_count_def)

declare scan_fields.simps [simp del]

definition require_repeated_field_limits ::
    "prost \<Rightarrow> bytes \<Rightarrow> usize \<Rightarrow> string \<Rightarrow> field_limit list \<Rightarrow> konclave_protocol_error + unit" where
  "require_repeated_field_limits px bs maximum_bytes contract limits =
     and_then (require_input_size bs maximum_bytes contract) (\<lambda>_.
     scan_fields px contract limits (replicate (length limits) 0) 0 bs)"

definition decode_bounded ::
    "prost \<Rightarrow> 'm message_codec \<Rightarrow> bytes \<Rightarrow> usize \<Rightarrow> string \<Rightarrow> konclave_protocol_error + 'm" where
  "decode_bounded px codec bs maximum contract =
     and_then (require_repeated_field_limits px bs maximum contract []) (\<lambda>_.
     map_err (Decode contract) (mc_decode codec bs))"

definition require_encoded_size ::
    "'m message_codec \<Rightarrow> 'm \<Rightarrow> usize \<Rightarrow> string \<Rightarrow> konclave_protocol_error + unit" where
  "require_encoded_size codec wire maximum contract =
     (let actual = mc_encoded_len codec wire in
      ensure (actual \<le> maximum) (EncodedMessageTooLarge contract maximum actual))"

definition encode_bounded ::
    "'m message_codec \<Rightarrow> 'm \<Rightarrow> usize \<Rightarrow> string \<Rightarrow> konclave_protocol_error + bytes" where
  "encode_bounded codec message maximum contract =
     (let actual = mc_encoded_len codec message in
      if actual > maximum then Inl (EncodedMessageTooLarge contract maximum actual)
      else Inr (mc_encode_to_vec codec message))"

definition required :: "'a option \<Rightarrow> string \<Rightarrow> konclave_protocol_error + 'a" where
  "required v field = ok_or (MissingField field) v"

definition version_to_wire :: "protocol_version \<Rightarrow> wire_version" where
  "version_to_wire v = \<lparr>wv_major = major v, wv_minor = minor v\<rparr>"

definition version_from_wire ::
    "wire_version option \<Rightarrow> string \<Rightarrow> konclave_protocol_error + protocol_version" where
  "version_from_wire value contract =
     and_then (required value ''version'') (\<lambda>v.
     if wv_major v \<noteq> 1 then Inl (UnsupportedMajor contract (wv_major v))
     else map_err Domain (ProtocolVersion_new (wv_major v) (wv_minor v)))"

definition routing_id_to_wire :: "routing_id \<Rightarrow> bytes" where
  "routing_id_to_wire v = routing_id_bytes v"

definition routing_id_from_wire :: "bytes option \<Rightarrow> konclave_protocol_error + routing_id" where
  "routing_id_from_wire value =
     and_then (required value ''routing_id'') (\<lambda>v. map_err Domain (RoutingId_from_slice v))"

definition envelope_id_to_wire :: "envelope_id \<Rightarrow> bytes" where
  "envelope_id_to_wire v = envelope_id_bytes v"

definition envelope_id_from_wire :: "bytes option \<Rightarrow> konclave_protocol_error + envelope_id" where
  "envelope_id_from_wire value =
     and_then (required value ''envelope_id'') (\<lambda>v. map_err Domain (EnvelopeId_from_slice v))"

section \<open>Relay contracts\<close>

definition RELAY_CONTRACT :: string where "RELAY_CONTRACT = ''RelayEnvelope''"

definition STORED_RELAY_ENVELOPE_MAX_BYTES :: usize where
  "STORED_RELAY_ENVELOPE_MAX_BYTES = MAX_RELAY_ENVELOPE_BYTES + 32"

fun delivery_class_to_wire :: "delivery_class \<Rightarrow> int" where
  "delivery_class_to_wire KeyPackage = 1"
| "delivery_class_to_wire Welcome = 2"
| "delivery_class_to_wire GroupProposal = 3"
| "delivery_class_to_wire GroupCommit = 4"
| "delivery_class_to_wire GroupApplication = 5"
| "delivery_class_to_wire Pairing = 6"

definition delivery_class_from_wire :: "int \<Rightarrow> konclave_protocol_error + delivery_class" where
  "delivery_class_from_wire value =
     (if value = 1 then Inr KeyPackage
      else if value = 2 then Inr Welcome
      else if value = 3 then Inr GroupProposal
      else if value = 4 then Inr GroupCommit
      else if value = 5 then Inr GroupApplication
      else if value = 6 then Inr Pairing
      else Inl (UnsupportedEnum ''delivery_class'' value))"

definition relay_to_wire :: "relay_envelope \<Rightarrow> wire_relay_envelope" where
  "relay_to_wire value =
     \<lparr>we_version = Some (version_to_wire (env_version value)),
      we_routing_id = Some (routing_id_to_wire (env_routing_id value)),
      we_envelope_id = Some (envelope_id_to_wire (env_envelope_id value)),
      we_delivery_class = delivery_class_to_wire (env_delivery_class value),
      we_expected_parent_epoch = env_expected_parent_epoch value,
      we_expires_at_unix_seconds = env_expires_at_unix_seconds value,
      we_payload = env_payload value\<rparr>"

definition relay_from_wire ::
    "prost \<Rightarrow> wire_relay_envelope \<Rightarrow> konclave_protocol_error + relay_envelope" where
  "relay_from_wire px wire =
     and_then (require_encoded_size (px_relay_envelope px) wire MAX_RELAY_ENVELOPE_BYTES RELAY_CONTRACT) (\<lambda>_.
     if we_payload wire = [] \<or> length (we_payload wire) > MAX_RELAY_PAYLOAD_BYTES
     then Inl (Domain (OutOfRange ''relay_payload'' 1 MAX_RELAY_PAYLOAD_BYTES (length (we_payload wire))))
     else
       and_then (version_from_wire (we_version wire) RELAY_CONTRACT) (\<lambda>version.
       and_then (routing_id_from_wire (we_routing_id wire)) (\<lambda>routing_id.
       and_then (envelope_id_from_wire (we_envelope_id wire)) (\<lambda>envelope_id.
       and_then (delivery_class_from_wire (we_delivery_class wire)) (\<lambda>delivery_class.
       map_err Domain
         (RelayEnvelope_new version routing_id envelope_id delivery_class
            (we_expected_parent_epoch wire) (we_expires_at_unix_seconds wire) (we_payload wire)))))))"

definition stored_to_wire :: "stored_relay_envelope \<Rightarrow> wire_stored_relay_envelope" where
  "stored_to_wire value =
     \<lparr>ws_envelope = Some (relay_to_wire (stored_envelope value)), ws_cursor = stored_cursor value\<rparr>"

definition stored_from_wire ::
    "prost \<Rightarrow> wire_stored_relay_envelope \<Rightarrow> konclave_protocol_error + stored_relay_envelope" where
  "stored_from_wire px wire =
     and_then (require_encoded_size (px_stored_relay_envelope px) wire
                 STORED_RELAY_ENVELOPE_MAX_BYTES ''StoredRelayEnvelope'') (\<lambda>_.
     and_then (required (ws_envelope wire) ''stored_relay_envelope.envelope'') (\<lambda>envelope_wire.
     and_then (relay_from_wire px envelope_wire) (\<lambda>envelope.
     map_err Domain (StoredRelayEnvelope_new envelope (ws_cursor wire)))))"

definition encode_relay_envelope ::
    "prost \<Rightarrow> relay_envelope \<Rightarrow> konclave_protocol_error + bytes" where
  "encode_relay_envelope px value =
     encode_bounded (px_relay_envelope px) (relay_to_wire value) MAX_RELAY_ENVELOPE_BYTES RELAY_CONTRACT"

definition decode_relay_envelope ::
    "prost \<Rightarrow> bytes \<Rightarrow> konclave_protocol_error + relay_envelope" where
  "decode_relay_envelope px bs =
     and_then (decode_bounded px (px_relay_envelope px) bs MAX_RELAY_ENVELOPE_BYTES RELAY_CONTRACT)
       (relay_from_wire px)"

definition encode_stored_relay_envelope ::
    "prost \<Rightarrow> stored_relay_envelope \<Rightarrow> konclave_protocol_error + bytes" where
  "encode_stored_relay_envelope px value =
     encode_bounded (px_stored_relay_envelope px) (stored_to_wire value)
       STORED_RELAY_ENVELOPE_MAX_BYTES ''StoredRelayEnvelope''"

definition decode_stored_relay_envelope ::
    "prost \<Rightarrow> bytes \<Rightarrow> konclave_protocol_error + stored_relay_envelope" where
  "decode_stored_relay_envelope px bs =
     and_then (decode_bounded px (px_stored_relay_envelope px) bs
                 STORED_RELAY_ENVELOPE_MAX_BYTES ''StoredRelayEnvelope'')
       (stored_from_wire px)"

definition encode_replay_request ::
    "prost \<Rightarrow> replay_request \<Rightarrow> konclave_protocol_error + bytes" where
  "encode_replay_request px value =
     encode_bounded (px_replay_request px)
       \<lparr>wr_routing_id = Some (routing_id_to_wire (rr_routing_id value)),
        wr_after_cursor = rr_after_cursor value, wr_limit = rr_limit value\<rparr>
       MAX_RELAY_CONTROL_MESSAGE_BYTES ''ReplayRequest''"

definition decode_replay_request ::
    "prost \<Rightarrow> bytes \<Rightarrow> konclave_protocol_error + replay_request" where
  "decode_replay_request px bs =
     and_then (decode_bounded px (px_replay_request px) bs MAX_RELAY_CONTROL_MESSAGE_BYTES ''ReplayRequest'')
       (\<lambda>wire. and_then (routing_id_from_wire (wr_routing_id wire)) (\<lambda>routing_id.
          map_err Domain (ReplayRequest_new routing_id (wr_after_cursor wire) (wr_limit wire))))"

definition encode_replay_page :: "prost \<Rightarrow> replay_page \<Rightarrow> konclave_protocol_error + bytes" where
  "encode_replay_page px value =
     encode_bounded (px_replay_page px)
       \<lparr>wp_envelopes = map stored_to_wire (page_envelopes value),
        wp_next_cursor = page_next_cursor value, wp_has_more = page_has_more value\<rparr>
       MAX_REPLAY_PAGE_BYTES ''ReplayPage''"

definition decode_replay_page :: "prost \<Rightarrow> bytes \<Rightarrow> konclave_protocol_error + replay_page" where
  "decode_replay_page px bs =
     and_then (require_repeated_field_limits px bs MAX_REPLAY_PAGE_BYTES ''ReplayPage''
                 [(1, MAX_REPLAY_PAGE_SIZE, ''replay_envelopes'')]) (\<lambda>_.
     and_then (decode_bounded px (px_replay_page px) bs MAX_REPLAY_PAGE_BYTES ''ReplayPage'') (\<lambda>wire.
     if length (wp_envelopes wire) > MAX_REPLAY_PAGE_SIZE
     then Inl (Domain (OutOfRange ''replay_envelopes'' 0 MAX_REPLAY_PAGE_SIZE (length (wp_envelopes wire))))
     else
       and_then (collect (stored_from_wire px) (wp_envelopes wire)) (\<lambda>envelopes.
       map_err Domain (ReplayPage_new envelopes (wp_next_cursor wire) (wp_has_more wire)))))"

definition encode_acknowledge_request ::
    "prost \<Rightarrow> acknowledge_request \<Rightarrow> konclave_protocol_error + bytes" where
  "encode_acknowledge_request px value =
     encode_bounded (px_acknowledge_request px)
       \<lparr>wa_routing_id = Some (routing_id_to_wire (ack_routing_id value)), wa_cursor = ack_cursor value\<rparr>
       MAX_RELAY_CONTROL_MESSAGE_BYTES ''AcknowledgeRequest''"

definition decode_acknowledge_request ::
    "prost \<Rightarrow> bytes \<Rightarrow> konclave_protocol_error + acknowledge_request" where
  "decode_acknowledge_request px bs =
     and_then (decode_bounded px (px_acknowledge_request px) bs
                 MAX_RELAY_CONTROL_MESSAGE_BYTES ''AcknowledgeRequest'')
       (\<lambda>wire. and_then (routing_id_from_wire (wa_routing_id wire)) (\<lambda>routing_id.
          map_err Domain (AcknowledgeRequest_new routing_id (wa_cursor wire))))"

section \<open>Forwarding-safe encoders\<close>

definition usize_MAX :: usize where "usize_MAX = 2 ^ 64 - 1"

definition length_delimited_length :: "usize \<Rightarrow> konclave_protocol_error + usize" where
  "length_delimited_length payload_length =
     ok_or (EncodedMessageTooLarge ''ProtocolBuffers'' usize_MAX usize_MAX)
       (Option.bind (checked_add_usize 1 (varint_length (of_nat payload_length)))
          (\<lambda>len. checked_add_usize len payload_length))"

definition stored_preserving_length :: "usize \<Rightarrow> u64 \<Rightarrow> konclave_protocol_error + usize" where
  "stored_preserving_length encoded_envelope_length cursor =
     and_then (length_delimited_length encoded_envelope_length) (\<lambda>len.
     ok_or (EncodedMessageTooLarge ''StoredRelayEnvelope'' STORED_RELAY_ENVELOPE_MAX_BYTES usize_MAX)
       (checked_add_usize len (varint_field_length cursor)))"

definition encode_stored_relay_envelope_preserving ::
    "prost \<Rightarrow> bytes \<Rightarrow> u64 \<Rightarrow> konclave_protocol_error + bytes" where
  "encode_stored_relay_envelope_preserving px encoded_envelope cursor =
     and_then (decode_relay_envelope px encoded_envelope) (\<lambda>envelope.
     and_then (map_err Domain (StoredRelayEnvelope_new envelope cursor)) (\<lambda>_.
     and_then (stored_preserving_length (length encoded_envelope) cursor) (\<lambda>encoded_length.
     if encoded_length > STORED_RELAY_ENVELOPE_MAX_BYTES
     then Inl (EncodedMessageTooLarge ''StoredRelayEnvelope'' STORED_RELAY_ENVELOPE_MAX_BYTES encoded_length)
     else Inr (append_varint_field 2 cursor (append_length_delimited 1 encoded_envelope [])))))"

definition page_too_large :: konclave_protocol_error where
  "page_too_large = EncodedMessageTooLarge ''ReplayPage'' MAX_REPLAY_PAGE_BYTES usize_MAX"

text \<open>
  The validating loop of \<open>encode_replay_page_preserving\<close>: the previous cursor, the
  length so far, and the stored lengths pushed for the second loop.
\<close>

fun preserving_lengths ::
    "prost \<Rightarrow> u64 option \<Rightarrow> usize \<Rightarrow> (bytes \<times> u64) list \<Rightarrow>
     konclave_protocol_error + (u64 option \<times> usize \<times> usize list)" where
  "preserving_lengths px previous_cursor encoded_length [] = Inr (previous_cursor, encoded_length, [])"
| "preserving_lengths px previous_cursor encoded_length ((encoded_envelope, cursor) # envelopes) =
     and_then (decode_relay_envelope px encoded_envelope) (\<lambda>_.
     if cursor = 0 \<or> (case previous_cursor of None \<Rightarrow> False | Some p \<Rightarrow> p \<ge> cursor)
     then Inl (Domain InvalidReplayOrder)
     else
       and_then (stored_preserving_length (length encoded_envelope) cursor) (\<lambda>stored_length.
       and_then (length_delimited_length stored_length) (\<lambda>len.
       and_then (ok_or page_too_large (checked_add_usize encoded_length len)) (\<lambda>encoded_length'.
       and_then (preserving_lengths px (Some cursor) encoded_length' envelopes) (\<lambda>(p, l, ls).
       Inr (p, l, stored_length # ls))))))"

text \<open>The writing loop: each entry with the stored length computed for it.\<close>

fun write_entries :: "((bytes \<times> u64) \<times> usize) list \<Rightarrow> bytes \<Rightarrow> bytes" where
  "write_entries [] output = output"
| "write_entries (((encoded_envelope, cursor), stored_length) # entries) output =
     write_entries entries
       (append_varint_field 2 cursor
         (append_length_delimited 1 encoded_envelope
           (append_varint (of_nat stored_length) (append_key 1 2 output))))"

definition encode_replay_page_preserving ::
    "prost \<Rightarrow> (bytes \<times> u64) list \<Rightarrow> u64 \<Rightarrow> bool \<Rightarrow> konclave_protocol_error + bytes" where
  "encode_replay_page_preserving px envelopes next_cursor has_more =
     (if length envelopes > MAX_REPLAY_PAGE_SIZE
      then Inl (Domain (OutOfRange ''replay_envelopes'' 0 MAX_REPLAY_PAGE_SIZE (length envelopes)))
      else
        and_then (preserving_lengths px None 0 envelopes) (\<lambda>(previous_cursor, encoded_length, stored_lengths).
        if (case previous_cursor of None \<Rightarrow> False | Some cursor \<Rightarrow> next_cursor < cursor)
        then Inl (Domain InvalidReplayOrder)
        else
          and_then (if next_cursor \<noteq> 0
                    then ok_or page_too_large (checked_add_usize encoded_length (varint_field_length next_cursor))
                    else Inr encoded_length) (\<lambda>encoded_length.
          and_then (if has_more then ok_or page_too_large (checked_add_usize encoded_length 2)
                    else Inr encoded_length) (\<lambda>encoded_length.
          if encoded_length > MAX_REPLAY_PAGE_BYTES
          then Inl (EncodedMessageTooLarge ''ReplayPage'' MAX_REPLAY_PAGE_BYTES encoded_length)
          else
            let output = write_entries (zip envelopes stored_lengths) [];
                output = (if next_cursor \<noteq> 0 then append_varint_field 2 next_cursor output else output)
            in Inr (if has_more then append_varint_field 3 1 output else output)))))"

section \<open>What the framing scan establishes\<close>

text \<open>The top-level fields of a message, read with the library's own primitives.\<close>

inductive fields_of :: "prost \<Rightarrow> bytes \<Rightarrow> (u32 \<times> wire_type) list \<Rightarrow> bool" for px where
  fields_done: "fields_of px [] []"
| fields_next:
    "remaining \<noteq> [] \<Longrightarrow> px_decode_key px remaining = Some ((tag, wt), rest) \<Longrightarrow>
     wt \<noteq> StartGroup \<Longrightarrow> wt \<noteq> EndGroup \<Longrightarrow> px_skip_field px wt tag rest = Some rest' \<Longrightarrow>
     fields_of px rest' fs \<Longrightarrow> fields_of px remaining ((tag, wt) # fs)"

inductive_simps fields_of_Nil [simp]: "fields_of px [] fs"
inductive_cases fields_of_consE: "fields_of px bs fs"

definition occurrences :: "u32 \<Rightarrow> (u32 \<times> wire_type) list \<Rightarrow> nat" where
  "occurrences tag fs = length (filter (\<lambda>f. f = (tag, LengthDelimited)) fs)"

definition within_limits :: "field_limit list \<Rightarrow> usize list \<Rightarrow> (u32 \<times> wire_type) list \<Rightarrow> bool" where
  "within_limits limits counts fs \<longleftrightarrow>
     list_all2 (\<lambda>(tag, maximum, _) c. c + occurrences tag fs \<le> maximum) limits counts"

lemma within_limits_Nil [simp]: "within_limits [] counts fs \<longleftrightarrow> counts = []"
  by (simp add: within_limits_def)

lemma within_limits_mono: "within_limits limits counts (f # fs) \<Longrightarrow> within_limits limits counts fs"
  unfolding within_limits_def
  by (erule list_all2_mono) (auto simp: occurrences_def split: if_splits)

lemma within_limits_other:
  "wt \<noteq> LengthDelimited \<Longrightarrow> within_limits limits counts ((tag, wt) # fs) = within_limits limits counts fs"
  by (simp add: within_limits_def occurrences_def)

lemma count_field_within:
  assumes "within_limits limits counts []"
  shows "within_limits limits counts ((tag, LengthDelimited) # fs) \<longleftrightarrow>
    (\<exists>counts'. count_field tag limits counts = Inr counts' \<and> within_limits limits counts' [] \<and>
      within_limits limits counts' fs)"
  using assms
proof (induction tag limits counts rule: count_field.induct)
  case (1 tag field_number maximum field limits c counts)
  then show ?case
    by (auto simp: within_limits_def occurrences_def split: if_splits)
qed (auto simp: within_limits_def)

lemma count_field_keeps:
  assumes "count_field tag limits counts = Inr counts'" and "within_limits limits counts []"
  shows "within_limits limits counts' []"
  using assms
proof (induction tag limits counts arbitrary: counts' rule: count_field.induct)
  case (1 tag field_number maximum field limits c counts)
  then show ?case
    by (auto simp: within_limits_def occurrences_def split: if_splits)
qed (auto simp: within_limits_def)

lemma scan_fields_accepts:
  assumes "fields_of px bs fs" and "n + length fs \<le> MAX_PROTOBUF_TOP_LEVEL_FIELDS"
    and "within_limits limits counts []" and "within_limits limits counts fs"
  shows "scan_fields px contract limits counts n bs = Inr ()"
  using assms
proof (induction arbitrary: n counts rule: fields_of.induct)
  case fields_done
  then show ?case by (simp add: scan_fields.simps)
next
  case (fields_next remaining tag wt rest rest' fs)
  obtain counts' where counts':
    "(if wt = LengthDelimited then count_field tag limits counts else Inr counts) = Inr counts'"
    "within_limits limits counts' []" "within_limits limits counts' fs"
  proof (cases "wt = LengthDelimited")
    case True
    with fields_next.prems count_field_within [of limits counts tag fs] that show ?thesis by auto
  next
    case False
    with fields_next.prems that show ?thesis by (auto simp: within_limits_other)
  qed
  from fields_next counts' show ?case
    by (subst scan_fields.simps) (simp add: require_field_count_def reject_group_def)
qed

lemma scan_fields_accepted:
  assumes "scan_fields px contract limits counts n bs = Inr ()"
    and "within_limits limits counts []" and "n \<le> MAX_PROTOBUF_TOP_LEVEL_FIELDS"
  shows "\<exists>fs. fields_of px bs fs \<and> n + length fs \<le> MAX_PROTOBUF_TOP_LEVEL_FIELDS \<and>
      within_limits limits counts fs"
  using assms
proof (induction px contract limits counts n bs rule: scan_fields.induct)
  case (1 px contract limits counts n bs)
  show ?case
  proof (cases "bs = []")
    case True
    then show ?thesis using "1.prems" by auto
  next
    case False
    with "1.prems"(1) obtain tag wt rest counts' rest' where step:
      "require_field_count (n + 1) = Inr ()" "px_decode_key px bs = Some ((tag, wt), rest)"
      "reject_group wt contract = Inr ()"
      "(if wt = LengthDelimited then count_field tag limits counts else Inr counts) = Inr counts'"
      "px_skip_field px wt tag rest = Some rest'"
      "scan_fields px contract limits counts' (n + 1) rest' = Inr ()"
      by (subst (asm) scan_fields.simps) (auto split: prod.splits)
    have ok': "within_limits limits counts' []"
      using step(4) "1.prems"(2) by (auto split: if_splits intro: count_field_keeps)
    have "\<exists>fs. fields_of px rest' fs \<and> n + 1 + length fs \<le> MAX_PROTOBUF_TOP_LEVEL_FIELDS \<and>
        within_limits limits counts' fs"
      using step
      by (intro "1.IH" [OF False step(1) _ refl refl step(3,4) _ step(6) ok', of rest rest])
        (simp_all add: require_field_count_def)
    then obtain fs where fs: "fields_of px rest' fs"
      "n + 1 + length fs \<le> MAX_PROTOBUF_TOP_LEVEL_FIELDS" "within_limits limits counts' fs"
      by blast
    have "within_limits limits counts ((tag, wt) # fs)"
    proof (cases "wt = LengthDelimited")
      case True
      then show ?thesis
        using count_field_within [OF "1.prems"(2), of tag fs] step(4) ok' fs(3) by auto
    next
      case False
      then show ?thesis using step(4) fs(3) by (simp add: within_limits_other)
    qed
    moreover have "fields_of px bs ((tag, wt) # fs)"
      using False step fs(1) by (auto simp: reject_group_def intro: fields_next)
    ultimately show ?thesis using fs(2) by (intro exI [of _ "(tag, wt) # fs"]) simp
  qed
qed

section \<open>Exactness of the relay envelope codec\<close>

lemma delivery_class_from_wire_eq_Inr:
  "delivery_class_from_wire v = Inr c \<longleftrightarrow> v = delivery_class_to_wire c"
  by (cases c) (auto simp: delivery_class_from_wire_def)

lemma version_from_wire_eq_Inr:
  "version_from_wire v contract = Inr p \<longleftrightarrow> v = Some (version_to_wire p) \<and> major p = 1"
  by (cases p; cases v) (auto simp: version_from_wire_def version_to_wire_def required_def
      ProtocolVersion_new_def split: if_splits intro: wire_version.equality)

lemma routing_id_from_wire_eq_Inr:
  "routing_id_from_wire v = Inr r \<longleftrightarrow> v = Some (routing_id_to_wire r) \<and> length (routing_id_bytes r) = 32"
  by (cases r) (auto simp: routing_id_from_wire_def routing_id_to_wire_def required_def
      id_from_slice_defs)

lemma envelope_id_from_wire_eq_Inr:
  "envelope_id_from_wire v = Inr r \<longleftrightarrow> v = Some (envelope_id_to_wire r) \<and> length (envelope_id_bytes r) = 16"
  by (cases r) (auto simp: envelope_id_from_wire_def envelope_id_to_wire_def required_def
      id_from_slice_defs)

lemmas from_wire_eq_Inr =
  delivery_class_from_wire_eq_Inr version_from_wire_eq_Inr routing_id_from_wire_eq_Inr
  envelope_id_from_wire_eq_Inr

lemma RelayEnvelope_new_eq_Inr:
  assumes "major v \<noteq> 0" "length (routing_id_bytes r) = 32" "length (envelope_id_bytes i) = 16"
  shows "RelayEnvelope_new v r i c p x b = Inr e \<longleftrightarrow>
    relay_envelope_ok e \<and> e = \<lparr>env_version = v, env_routing_id = r, env_envelope_id = i,
      env_delivery_class = c, env_expected_parent_epoch = p, env_expires_at_unix_seconds = x,
      env_payload = b\<rparr>"
  using assms by (auto simp: RelayEnvelope_new_def relay_envelope_ok_def split: if_splits)

lemma relay_to_wire_fields:
  "w = relay_to_wire e \<longleftrightarrow>
     we_version w = Some (version_to_wire (env_version e)) \<and>
     we_routing_id w = Some (routing_id_to_wire (env_routing_id e)) \<and>
     we_envelope_id w = Some (envelope_id_to_wire (env_envelope_id e)) \<and>
     we_delivery_class w = delivery_class_to_wire (env_delivery_class e) \<and>
     we_expected_parent_epoch w = env_expected_parent_epoch e \<and>
     we_expires_at_unix_seconds w = env_expires_at_unix_seconds e \<and>
     we_payload w = env_payload e"
  by (cases w) (auto simp: relay_to_wire_def)

lemma relay_from_wire_eq_Inr:
  "relay_from_wire px w = Inr e \<longleftrightarrow>
     mc_encoded_len (px_relay_envelope px) w \<le> MAX_RELAY_ENVELOPE_BYTES \<and>
     relay_envelope_ok e \<and> major (env_version e) = 1 \<and> w = relay_to_wire e" (is "?l \<longleftrightarrow> ?r")
proof
  assume ?l
  then obtain v r i c where parts:
    "mc_encoded_len (px_relay_envelope px) w \<le> MAX_RELAY_ENVELOPE_BYTES"
    "we_version w = Some (version_to_wire v)" "major v = 1"
    "we_routing_id w = Some (routing_id_to_wire r)" "length (routing_id_bytes r) = 32"
    "we_envelope_id w = Some (envelope_id_to_wire i)" "length (envelope_id_bytes i) = 16"
    "we_delivery_class w = delivery_class_to_wire c"
    "RelayEnvelope_new v r i c (we_expected_parent_epoch w) (we_expires_at_unix_seconds w)
       (we_payload w) = Inr e"
    by (auto simp: relay_from_wire_def require_encoded_size_def from_wire_eq_Inr Let_def
        split: if_splits)
  then show ?r
    unfolding relay_to_wire_fields by (auto simp: RelayEnvelope_new_eq_Inr)
next
  assume r: ?r
  then have "RelayEnvelope_new (env_version e) (env_routing_id e) (env_envelope_id e)
      (env_delivery_class e) (we_expected_parent_epoch w) (we_expires_at_unix_seconds w)
      (we_payload w) = Inr e"
    using RelayEnvelope_new_complete [of e] by (simp add: relay_to_wire_def)
  with r show ?l
    unfolding relay_from_wire_def relay_to_wire_fields
    by (auto simp: require_encoded_size_def from_wire_eq_Inr Let_def relay_envelope_ok_def)
qed

lemma decode_bounded_eq_Inr:
  "decode_bounded px codec bs maximum contract = Inr m \<longleftrightarrow>
     length bs \<le> maximum \<and>
     (\<exists>fs. fields_of px bs fs \<and> length fs \<le> MAX_PROTOBUF_TOP_LEVEL_FIELDS) \<and>
     mc_decode codec bs = Inr m"
  using scan_fields_accepts [of px bs _ 0 "[]" "[]" contract]
    scan_fields_accepted [of px contract "[]" "[]" 0 bs]
  by (auto simp: decode_bounded_def require_repeated_field_limits_def require_input_size_def)

lemma decode_relay_envelope_eq_Inr:
  "decode_relay_envelope px bs = Inr e \<longleftrightarrow>
     length bs \<le> MAX_RELAY_ENVELOPE_BYTES \<and>
     (\<exists>fs. fields_of px bs fs \<and> length fs \<le> MAX_PROTOBUF_TOP_LEVEL_FIELDS) \<and>
     mc_decode (px_relay_envelope px) bs = Inr (relay_to_wire e) \<and>
     mc_encoded_len (px_relay_envelope px) (relay_to_wire e) \<le> MAX_RELAY_ENVELOPE_BYTES \<and>
     relay_envelope_ok e \<and> major (env_version e) = 1"
  by (auto simp: decode_relay_envelope_def decode_bounded_eq_Inr relay_from_wire_eq_Inr)

section \<open>Exactness of the forwarding encoders\<close>

text \<open>The bytes written for one stored envelope.\<close>

definition stored_bytes :: "bytes \<times> u64 \<Rightarrow> bytes" where
  "stored_bytes = (\<lambda>(encoded_envelope, cursor).
     append_varint_field 2 cursor (append_length_delimited 1 encoded_envelope []))"

lemma length_delimited_length_eq_Inr:
  "length_delimited_length n = Inr l \<longleftrightarrow>
     l = 1 + varint_length (of_nat n) + n \<and> 1 + varint_length (of_nat n) + n < 2 ^ 64"
  using varint_length_le_10 [of "of_nat n"]
  by (auto simp: length_delimited_length_def bind_eq_Some_conv)

lemma stored_preserving_length_eq_Inr:
  "stored_preserving_length (length e) c = Inr l \<longleftrightarrow> l = length (stored_bytes (e, c)) \<and> l < 2 ^ 64"
  by (auto simp: stored_preserving_length_def length_delimited_length_eq_Inr stored_bytes_def
      length_append_varint_field length_append_length_delimited varint_field_length_def)

lemma length_stored_bytes:
  "length (stored_bytes (e, c)) \<le> length e + 22"
  using varint_length_le_10 [of "of_nat (length e)"] varint_length_le_10 [of c]
  by (simp add: stored_bytes_def length_append_varint_field length_append_length_delimited
      varint_field_length_def)

lemma read_stored_bytes:
  "length e < 2 ^ 64 \<Longrightarrow>
   read_fields (stored_bytes (e, c)) = Some [(1, Bytes_field e), (2, Varint_field (unat c))]"
  unfolding stored_bytes_def
  using read_append_length_delimited [of e 1] read_append_varint_field [of 2 c "[]"]
  by (auto simp: append_varint_field_acc [of 2 c "append_length_delimited _ _ _"]
      append_varint_field_acc [of 2 c "[]"] read_fields_step)

lemma write_entries_acc:
  assumes "\<forall>(x, l) \<in> set entries. l = length (stored_bytes x)"
  shows "write_entries entries out =
    out @ concat (map (\<lambda>(x, l). append_length_delimited 1 (stored_bytes x) []) entries)"
  using assms
proof (induction entries out rule: write_entries.induct)
  case (2 e c l entries out)
  have "append_varint_field 2 c (append_length_delimited 1 e
          (append_varint (of_nat l) (append_key 1 2 out)))
      = out @ append_length_delimited 1 (stored_bytes (e, c)) []"
    using "2.prems"
    by (simp add: stored_bytes_def append_varint_field_acc append_length_delimited_acc
        append_key_acc [of 1 2 out] append_varint_acc [of _ "out @ _"])
  then show ?case using 2 by simp
qed simp

lemma preserving_lengths_eq_Inr:
  assumes "preserving_lengths px previous len es = Inr (last_cursor, len', ls)"
  shows "(\<forall>(e, c) \<in> set es. \<exists>v. decode_relay_envelope px e = Inr v) \<and>
    ls = map (\<lambda>x. length (stored_bytes x)) es \<and>
    len' = len + (\<Sum>x\<leftarrow>es. length (append_length_delimited 1 (stored_bytes x) [])) \<and>
    last_cursor = (if es = [] then previous else Some (snd (last es))) \<and>
    sorted_wrt (<) (case previous of None \<Rightarrow> map snd es | Some p \<Rightarrow> p # map snd es) \<and>
    0 \<notin> snd ` set es"
  using assms
proof (induction px previous len es arbitrary: last_cursor len' ls rule: preserving_lengths.induct)
  case (2 px previous len e c es)
  let ?sl = "length (stored_bytes (e, c))"
  let ?len = "len + length (append_length_delimited 1 (stored_bytes (e, c)) [])"
  from "2.prems" obtain v ls' where step: "decode_relay_envelope px e = Inr v" "c \<noteq> 0"
      "\<not> (case previous of None \<Rightarrow> False | Some p \<Rightarrow> p \<ge> c)"
      "stored_preserving_length (length e) c = Inr ?sl"
      "length_delimited_length ?sl = Inr (length (append_length_delimited 1 (stored_bytes (e, c)) []))"
      "ok_or page_too_large (checked_add_usize len
         (length (append_length_delimited 1 (stored_bytes (e, c)) []))) = Inr ?len"
      "preserving_lengths px (Some c) ?len es = Inr (last_cursor, len', ls')" "ls = ?sl # ls'"
    by (auto simp: length_delimited_length_eq_Inr stored_preserving_length_eq_Inr
        length_append_length_delimited ac_simps split: if_splits)
  note IH = "2.IH" [OF step(1) _ step(4-7)]
  show ?case
    using IH step(1,2,3,8) by (auto split: option.splits if_splits)
qed (auto split: option.splits)

lemma decode_relay_envelope_length:
  "decode_relay_envelope px e = Inr v \<Longrightarrow> length e \<le> 1048576"
  by (simp add: decode_relay_envelope_eq_Inr MAX_RELAY_ENVELOPE_BYTES_def)

lemma length_delimited_stored_bytes:
  assumes "decode_relay_envelope px e = Inr v"
  shows "length (append_length_delimited 1 (stored_bytes (e, c)) []) \<le> length e + 32"
proof -
  have e: "length e \<le> 1048576"
    by (rule decode_relay_envelope_length [OF assms])
  have s: "length (stored_bytes (e, c)) \<le> length e + 22"
    by (rule length_stored_bytes)
  then have "unat (of_nat (length (stored_bytes (e, c))) :: u64) < 128 ^ Suc 2"
    using e by (simp add: unsigned_of_nat take_bit_nat_eq_self)
  from varint_length_bound [OF this] s show ?thesis
    by (simp add: length_append_length_delimited)
qed

lemma preserving_lengths_ok:
  assumes "\<forall>(e, c) \<in> set es. \<exists>v. decode_relay_envelope px e = Inr v"
    and "sorted_wrt (<) (case previous of None \<Rightarrow> map snd es | Some p \<Rightarrow> p # map snd es)"
    and "0 \<notin> snd ` set es" and "len + (\<Sum>(e, c)\<leftarrow>es. length e + 32) < 2 ^ 64"
  shows "\<exists>r. preserving_lengths px previous len es = Inr r"
  using assms
proof (induction px previous len es rule: preserving_lengths.induct)
  case (2 px previous len e c es)
  let ?sl = "length (stored_bytes (e, c))"
  let ?l = "length (append_length_delimited 1 (stored_bytes (e, c)) [])"
  from "2.prems"(1) obtain v where v: "decode_relay_envelope px e = Inr v" by auto
  have l: "?l \<le> length e + 32" by (rule length_delimited_stored_bytes [OF v])
  have order: "\<not> (c = 0 \<or> (case previous of None \<Rightarrow> False | Some p \<Rightarrow> p \<ge> c))"
    using "2.prems"(2,3) by (auto split: option.splits)
  have stored: "stored_preserving_length (length e) c = Inr ?sl"
    using l "2.prems"(4) by (simp add: stored_preserving_length_eq_Inr length_append_length_delimited)
  have delimited: "length_delimited_length ?sl = Inr ?l"
    using l "2.prems"(4) by (simp add: length_delimited_length_eq_Inr length_append_length_delimited)
  have add: "ok_or page_too_large (checked_add_usize len ?l) = Inr (len + ?l)"
    using l "2.prems"(4) by simp
  have "\<exists>r. preserving_lengths px (Some c) (len + ?l) es = Inr r"
    using "2.prems" l
    by (intro "2.IH" [OF v order stored delimited add]) (auto split: option.splits)
  then show ?case
    using v order stored delimited add by auto
qed simp

lemma encode_replay_page_preserving_ok:
  assumes "length es \<le> 100"
    and "\<forall>(e, c) \<in> set es. \<exists>v. decode_relay_envelope px e = Inr v"
    and "sorted_wrt (<) (map snd es)" and "0 \<notin> snd ` set es"
    and "es \<noteq> [] \<Longrightarrow> snd (last es) \<le> next_cursor"
    and "64 + (\<Sum>(e, c)\<leftarrow>es. length e + 32) \<le> 16 * 1024 * 1024"
  shows "\<exists>out. encode_replay_page_preserving px es next_cursor has_more = Inr out"
proof -
  have "\<exists>r. preserving_lengths px None 0 es = Inr r"
    using assms by (intro preserving_lengths_ok) auto
  then obtain lc len ls where r: "preserving_lengths px None 0 es = Inr (lc, len, ls)" by auto
  note facts = preserving_lengths_eq_Inr [OF r]
  have "(\<Sum>x\<leftarrow>es. length (append_length_delimited 1 (stored_bytes x) []))
      \<le> (\<Sum>(e, c)\<leftarrow>es. length e + 32)"
    using assms(2) length_delimited_stored_bytes by (intro sum_list_mono) fastforce
  then have len: "len + 64 \<le> 16 * 1024 * 1024"
    using facts assms(6) by simp
  have cursor: "\<not> (case lc of None \<Rightarrow> False | Some cursor \<Rightarrow> next_cursor < cursor)"
    using facts assms(5) by (auto split: if_splits)
  have small: "varint_field_length next_cursor \<le> 11"
    using varint_length_le_10 [of next_cursor] by (simp add: varint_field_length_def)
  show ?thesis
    unfolding encode_replay_page_preserving_def
    using assms(1) r cursor len small
    by (simp add: MAX_REPLAY_PAGE_SIZE_def MAX_REPLAY_PAGE_BYTES_def checked_add_usize_def Let_def)
qed

lemma read_fields_stored:
  assumes "\<forall>s \<in> set ss. length s < 2 ^ 64"
  shows "read_fields (concat (map (\<lambda>s. append_length_delimited 1 s []) ss) @ rest) =
    map_option (\<lambda>fs. map (\<lambda>s. (1, Bytes_field s)) ss @ fs) (read_fields rest)"
  using assms
proof (induction ss)
  case (Cons s ss)
  then show ?case
    using read_fields_step [OF read_append_length_delimited [of s 1]]
    by (simp add: option.map_comp comp_def)
qed (cases "read_fields rest"; simp)

lemma read_fields_varint_field:
  "read_fields (append_varint_field f v [] @ rest) =
     map_option (\<lambda>fs. (unat f, Varint_field (unat v)) # fs) (read_fields rest)"
  by (rule read_fields_step [OF read_append_varint_field])

lemma encode_replay_page_preserving_eq_Inr:
  assumes "encode_replay_page_preserving px es next_cursor has_more = Inr out"
  shows "(\<forall>(e, c) \<in> set es. \<exists>v. decode_relay_envelope px e = Inr v) \<and>
    length out \<le> MAX_REPLAY_PAGE_BYTES \<and>
    out = concat (map (\<lambda>s. append_length_delimited 1 s []) (map stored_bytes es)) @
      (if next_cursor \<noteq> 0 then append_varint_field 2 next_cursor [] else []) @
      (if has_more then append_varint_field 3 1 [] else [])"
proof -
  from assms obtain lc len ls where r: "preserving_lengths px None 0 es = Inr (lc, len, ls)"
    by (auto simp: encode_replay_page_preserving_def split: if_splits)
  note facts = preserving_lengths_eq_Inr [OF r]
  have zipped: "zip es ls = map (\<lambda>x. (x, length (stored_bytes x))) es"
    using facts by (simp add: zip_map2 zip_same_conv_map)
  have entries: "write_entries (zip es ls) [] =
      concat (map (\<lambda>s. append_length_delimited 1 s []) (map stored_bytes es))"
    unfolding zipped by (subst write_entries_acc) (auto simp: comp_def)
  have out: "out = concat (map (\<lambda>s. append_length_delimited 1 s []) (map stored_bytes es)) @
      (if next_cursor \<noteq> 0 then append_varint_field 2 next_cursor [] else []) @
      (if has_more then append_varint_field 3 1 [] else [])"
    using assms r entries append_varint_field_acc [of 2 next_cursor]
      append_varint_field_acc [of 3 1]
    by (auto simp: encode_replay_page_preserving_def Let_def split: if_splits)
  have "varint_field_length 1 = 2"
    by (simp add: varint_field_length_def varint_length_def varint_length_from.simps [of 1]
        word_le_nat_alt)
  then have "length out = len + (if next_cursor \<noteq> 0 then varint_field_length next_cursor else 0)
      + (if has_more then 2 else 0)"
    unfolding out using facts
    by (simp add: length_append_varint_field length_concat comp_def)
  then have "length out \<le> MAX_REPLAY_PAGE_BYTES"
    using assms r
    by (auto simp: encode_replay_page_preserving_def Let_def split: if_splits)
  with out facts show ?thesis by blast
qed

lemma sorted_last_greatest:
  fixes f :: "'a \<Rightarrow> 'b :: linorder"
  shows "sorted_wrt (<) (map f xs) \<Longrightarrow> x \<in> set xs \<Longrightarrow> f x \<le> f (last xs)"
  by (induction xs) (auto simp: less_imp_le)

section \<open>Properties\<close>

text \<open>
  C38: What the validating decoder accepts, in both directions. A byte string is decoded to
  envelope \<open>e\<close> if and only if it has at most 1 MiB and at most 4096 top-level fields,
  none of them a group, the library decodes it to the message that represents \<open>e\<close>, that
  message would itself encode to at most 1 MiB, and \<open>e\<close> is valid: the major version is
  1, the identifiers have their exact lengths, the payload is 1 to 1,023 KiB long, the expiry
  is not zero, and the parent epoch is present exactly for proposals and commits. The bytes
  need not be the ones the encoder writes: unknown fields are admitted.
\<close>
theorem decode_relay_envelope_exact:
  "decode_relay_envelope px bs = Inr e \<longleftrightarrow>
    length bs \<le> 1024 * 1024 \<and> (\<exists>fs. fields_of px bs fs \<and> length fs \<le> 4096) \<and>
    mc_decode (px_relay_envelope px) bs = Inr (relay_to_wire e) \<and>
    mc_encoded_len (px_relay_envelope px) (relay_to_wire e) \<le> 1024 * 1024 \<and>
    major (env_version e) = 1 \<and>
    length (routing_id_bytes (env_routing_id e)) = 32 \<and>
    length (envelope_id_bytes (env_envelope_id e)) = 16 \<and>
    1 \<le> length (env_payload e) \<and> length (env_payload e) \<le> 1023 * 1024 \<and>
    env_expires_at_unix_seconds e \<noteq> 0 \<and>
    (env_expected_parent_epoch e \<noteq> None \<longleftrightarrow>
       env_delivery_class e = GroupProposal \<or> env_delivery_class e = GroupCommit)"
proof -
  have parent: "requires_parent_epoch c \<longleftrightarrow> c = GroupProposal \<or> c = GroupCommit" for c
    by (cases c) simp_all
  have bounds: "MAX_RELAY_ENVELOPE_BYTES = 1024 * 1024" "MAX_PROTOBUF_TOP_LEVEL_FIELDS = 4096"
    "MAX_RELAY_PAYLOAD_BYTES = 1023 * 1024"
    by (simp_all add: domain_bounds MAX_PROTOBUF_TOP_LEVEL_FIELDS_def)
  have "major (env_version e) = 1 \<Longrightarrow> major (env_version e) \<noteq> 0" by simp
  then show ?thesis
    unfolding decode_relay_envelope_eq_Inr relay_envelope_ok_def parent bounds by argo
qed

lemma unsupported_major_refused:
  assumes "relay_envelope_ok e" "major (env_version e) \<noteq> 1"
    and "mc_encoded_len (px_relay_envelope px) (relay_to_wire e) \<le> MAX_RELAY_ENVELOPE_BYTES"
  shows "relay_from_wire px (relay_to_wire e) = Inl (UnsupportedMajor RELAY_CONTRACT (major (env_version e)))"
  using assms by (auto simp: relay_from_wire_def relay_to_wire_def relay_envelope_ok_def require_encoded_size_def
      version_from_wire_def version_to_wire_def required_def)

text \<open>
  C37: A valid envelope that the encoder accepts is decoded back to itself when its major
  version is 1, and refused as an unsupported major version otherwise, because envelopes of
  any positive major version can be built and written but only version 1 is read. The
  library is assumed to read back the message it wrote and to announce its length, and the
  bytes it writes are a sequence of at most 4096 ordinary fields.
\<close>
theorem relay_envelope_roundtrip:
  assumes "relay_envelope_ok e"
    and "encode_relay_envelope px e = Inr bs"
    and library_reads_back: "mc_decode (px_relay_envelope px) (mc_encode_to_vec (px_relay_envelope px) (relay_to_wire e)) = Inr (relay_to_wire e)"
    and library_length: "length (mc_encode_to_vec (px_relay_envelope px) (relay_to_wire e)) = mc_encoded_len (px_relay_envelope px) (relay_to_wire e)"
    and library_framing: "fields_of px (mc_encode_to_vec (px_relay_envelope px) (relay_to_wire e)) fs" "length fs \<le> 4096"
  shows "decode_relay_envelope px bs =
    (if major (env_version e) = 1 then Inr e else Inl (UnsupportedMajor RELAY_CONTRACT (major (env_version e))))"
proof -
  have size: "mc_encoded_len (px_relay_envelope px) (relay_to_wire e) \<le> MAX_RELAY_ENVELOPE_BYTES"
    and bs: "bs = mc_encode_to_vec (px_relay_envelope px) (relay_to_wire e)"
    using assms(2) by (auto simp: encode_relay_envelope_def encode_bounded_def Let_def split: if_splits)
  have "decode_bounded px (px_relay_envelope px) bs MAX_RELAY_ENVELOPE_BYTES RELAY_CONTRACT = Inr (relay_to_wire e)"
    using assms(3-6) size by (auto simp: decode_bounded_eq_Inr bs MAX_PROTOBUF_TOP_LEVEL_FIELDS_def)
  moreover have "relay_from_wire px (relay_to_wire e) = Inr e" if "major (env_version e) = 1"
    using assms(1) size that by (simp add: relay_from_wire_eq_Inr)
  ultimately show ?thesis
    using unsupported_major_refused [OF assms(1) _ size] by (simp add: decode_relay_envelope_def)
qed

text \<open>
  A decoded replay page has at most 100 envelopes in strictly increasing cursor order,
  the last one not beyond the page's next cursor, and every envelope is valid. The limit is
  enforced on the raw framing first: the bytes hold at most 100 occurrences of the envelope
  field, so no larger page is ever materialised.
\<close>
lemma decode_replay_page_sound:
  assumes "decode_replay_page px bs = Inr page"
  shows "length bs \<le> 16 * 1024 * 1024 \<and>
    (\<exists>fs. fields_of px bs fs \<and> length fs \<le> 4096 \<and> occurrences 1 fs \<le> 100) \<and>
    length (page_envelopes page) \<le> 100 \<and>
    sorted_wrt (<) (map stored_cursor (page_envelopes page)) \<and>
    (\<forall>s \<in> set (page_envelopes page). relay_envelope_ok (stored_envelope s) \<and>
       0 < stored_cursor s \<and> stored_cursor s \<le> page_next_cursor page)"
proof -
  from assms obtain w :: wire_replay_page and es where w: "require_repeated_field_limits px bs MAX_REPLAY_PAGE_BYTES ''ReplayPage''
        [(1, MAX_REPLAY_PAGE_SIZE, ''replay_envelopes'')] = Inr ()"
      "collect (stored_from_wire px) (wp_envelopes w) = Inr es"
      "ReplayPage_new es (wp_next_cursor w) (wp_has_more w) = Inr page"
    by (simp add: decode_replay_page_def split: if_splits) blast
  have es: "es = page_envelopes page" using w(3) by (auto simp: ReplayPage_new_eq_Inr)
  have framing: "length bs \<le> 16 * 1024 * 1024 \<and>
      (\<exists>fs. fields_of px bs fs \<and> length fs \<le> 4096 \<and> occurrences 1 fs \<le> 100)"
    using w(1) scan_fields_accepted [of px "''ReplayPage''" "[(1, MAX_REPLAY_PAGE_SIZE, ''replay_envelopes'')]" "[0]" 0 bs]
    by (auto simp: require_repeated_field_limits_def require_input_size_def domain_bounds
        within_limits_def occurrences_def)
  have each: "relay_envelope_ok (stored_envelope s) \<and> stored_cursor s \<noteq> 0"
    if "s \<in> set (page_envelopes page)" for s
    using w(2) that unfolding es
    by (auto simp: collect_eq_Inr list_all2_conv_all_nth in_set_conv_nth stored_from_wire_def
        relay_from_wire_eq_Inr)
  have order: "length (page_envelopes page) \<le> 100"
      "sorted_wrt (<) (map stored_cursor (page_envelopes page))"
      "page_envelopes page \<noteq> [] \<longrightarrow> stored_cursor (last (page_envelopes page)) \<le> page_next_cursor page"
    using w(3) by (auto simp: ReplayPage_new_eq_Inr)
  have "stored_cursor s \<le> page_next_cursor page" if "s \<in> set (page_envelopes page)" for s
    using sorted_last_greatest [OF order(2) that] order(3) that by fastforce
  with framing each order show ?thesis by (auto simp: word_neq_0_conv)
qed

text \<open>
  C39: The forwarding encoder writes a page of at most 16 MiB whose wire content is exactly
  one field 1 per envelope, then the next cursor and the continuation flag when they are
  not the default; and each of these fields holds the exact validated envelope bytes it was
  given, unknown fields included, with the envelope's cursor.
\<close>
theorem encode_replay_page_preserving_exact:
  assumes "encode_replay_page_preserving px es next_cursor has_more = Inr out"
  shows "length out \<le> 16 * 1024 * 1024 \<and>
    (\<exists>stored. read_fields out = Some (map (\<lambda>s. (1, Bytes_field s)) stored @
        (if next_cursor \<noteq> 0 then [(2, Varint_field (unat next_cursor))] else []) @
        (if has_more then [(3, Varint_field 1)] else [])) \<and>
      list_all2 (\<lambda>s (e, c). read_fields s = Some [(1, Bytes_field e), (2, Varint_field (unat c))])
        stored es)"
proof -
  note facts = encode_replay_page_preserving_eq_Inr [OF assms]
  have small: "length e \<le> 1048576" if "(e, c) \<in> set es" for e c
    using facts that decode_relay_envelope_length by fastforce
  have "\<forall>s \<in> set (map stored_bytes es). length s < 2 ^ 64"
  proof safe
    fix s assume "s \<in> set (map stored_bytes es)"
    then obtain e c where "(e, c) \<in> set es" "s = stored_bytes (e, c)" by auto
    with small [of e c] length_stored_bytes [of e c] show "length s < 2 ^ 64" by simp
  qed
  note stored = read_fields_stored [OF this]
  let ?tail = "(if next_cursor \<noteq> 0 then append_varint_field 2 next_cursor [] else []) @
      (if has_more then append_varint_field 3 1 [] else [])"
  have "read_fields ?tail = Some ((if next_cursor \<noteq> 0 then [(2, Varint_field (unat next_cursor))] else []) @
      (if has_more then [(3, Varint_field 1)] else []))"
    using read_fields_varint_field [of 2 next_cursor]
      read_fields_varint_field [of 2 next_cursor "[]"] read_fields_varint_field [of 3 1 "[]"]
    by simp
  moreover have "out = concat (map (\<lambda>s. append_length_delimited 1 s []) (map stored_bytes es)) @ ?tail"
    using facts by blast
  ultimately have "read_fields out = Some (map (\<lambda>s. (1, Bytes_field s)) (map stored_bytes es) @
      (if next_cursor \<noteq> 0 then [(2, Varint_field (unat next_cursor))] else []) @
      (if has_more then [(3, Varint_field 1)] else []))"
    by (simp only: stored option.map)
  moreover have "list_all2 (\<lambda>s (e, c). read_fields s = Some [(1, Bytes_field e), (2, Varint_field (unat c))])
      (map stored_bytes es) es"
  proof -
    have "read_fields (stored_bytes (e, c)) = Some [(1, Bytes_field e), (2, Varint_field (unat c))]"
      if "(e, c) \<in> set es" for e c
      using small [OF that] by (intro read_stored_bytes) simp
    then show ?thesis by (fastforce simp: list_all2_map1 list_all2_same)
  qed
  moreover have "length out \<le> 16 * 1024 * 1024"
    using facts unfolding MAX_REPLAY_PAGE_BYTES_def by blast
  ultimately show ?thesis by blast
qed

section \<open>A concrete library instance\<close>

text \<open>
  A small library with the real key and field framing. Its envelope messages carry only
  the payload on the wire: the first byte names the envelope, the second its class (4 for a
  commit, whose parent epoch is the third byte), and the other fields are constant.
\<close>

definition sample_wire :: "bytes \<Rightarrow> wire_relay_envelope" where
  "sample_wire payload =
     \<lparr>we_version = Some \<lparr>wv_major = 1, wv_minor = 0\<rparr>, we_routing_id = Some (replicate 32 1),
      we_envelope_id = Some (replicate 16 (payload ! 0)),
      we_delivery_class = (if payload ! 1 = 4 then 4 else 5),
      we_expected_parent_epoch = (if payload ! 1 = 4 then Some (ucast (payload ! 2)) else None),
      we_expires_at_unix_seconds = 100, we_payload = payload\<rparr>"

definition sample_envelope :: "bytes \<Rightarrow> relay_envelope" where
  "sample_envelope payload =
     \<lparr>env_version = application_v1, env_routing_id = RoutingId (replicate 32 1),
      env_envelope_id = EnvelopeId (replicate 16 (payload ! 0)),
      env_delivery_class = (if payload ! 1 = 4 then GroupCommit else GroupApplication),
      env_expected_parent_epoch = (if payload ! 1 = 4 then Some (ucast (payload ! 2)) else None),
      env_expires_at_unix_seconds = 100, env_payload = payload\<rparr>"

definition sample_encoding :: "bytes \<Rightarrow> bytes" where
  "sample_encoding payload = append_length_delimited 7 payload []"

definition sample_codec :: "wire_relay_envelope message_codec" where
  "sample_codec =
     \<lparr>mc_decode = (\<lambda>bs. case read_fields bs of Some [(_, Bytes_field p)] \<Rightarrow> Inr (sample_wire p)
        | _ \<Rightarrow> Inl ''malformed''),
      mc_encoded_len = (\<lambda>m. length (sample_encoding (we_payload m))),
      mc_encode_to_vec = (\<lambda>m. sample_encoding (we_payload m))\<rparr>"

definition silent_codec :: "'m \<Rightarrow> 'm message_codec" where
  "silent_codec m = \<lparr>mc_decode = (\<lambda>_. Inr m), mc_encoded_len = (\<lambda>_. 0), mc_encode_to_vec = (\<lambda>_. [])\<rparr>"

definition sample_prost :: prost where
  "sample_prost =
     \<lparr>px_decode_key = (\<lambda>bs. map_option
        (\<lambda>(key, rest). ((of_nat (key div 8), if key mod 8 = 2 then LengthDelimited else Varint), rest))
        (read_varint bs)),
      px_skip_field = (\<lambda>wt tag bs. case read_varint bs of None \<Rightarrow> None
        | Some (n, rest) \<Rightarrow> if wt = LengthDelimited then
              if n \<le> length rest then Some (drop n rest) else None
            else Some rest),
      px_relay_envelope = sample_codec,
      px_stored_relay_envelope = silent_codec \<lparr>ws_envelope = None, ws_cursor = 0\<rparr>,
      px_replay_request = silent_codec \<lparr>wr_routing_id = None, wr_after_cursor = 0, wr_limit = 0\<rparr>,
      px_replay_page = silent_codec
        \<lparr>wp_envelopes = [\<lparr>ws_envelope = Some (sample_wire [9, 5]), ws_cursor = 3\<rparr>],
         wp_next_cursor = 4, wp_has_more = True\<rparr>,
      px_acknowledge_request = silent_codec \<lparr>wa_routing_id = None, wa_cursor = 0\<rparr>\<rparr>"

lemma relay_to_wire_sample: "relay_to_wire (sample_envelope p) = sample_wire p"
  by (simp add: relay_to_wire_def sample_envelope_def sample_wire_def version_to_wire_def
      application_v1_def routing_id_to_wire_def envelope_id_to_wire_def
      APPLICATION_PROTOCOL_MAJOR_def APPLICATION_PROTOCOL_MINOR_def)

lemma read_sample_encoding:
  "length p < 2 ^ 64 \<Longrightarrow> read_fields (sample_encoding p) = Some [(7, Bytes_field p)]"
  using read_fields_step [OF read_append_length_delimited [of p 7 "[]"]]
  by (simp add: sample_encoding_def)

lemma fields_of_sample:
  assumes "length p < 2 ^ 64"
  shows "fields_of sample_prost (sample_encoding p) [(7, LengthDelimited)]"
proof (rule fields_next)
  have unat: "unat (of_nat (length p) :: u64) = length p"
    using assms by (simp add: unsigned_of_nat take_bit_nat_eq_self)
  show "sample_encoding p \<noteq> []"
    using read_sample_encoding [OF assms] by auto
  show "px_decode_key sample_prost (sample_encoding p) =
      Some ((7, LengthDelimited), append_varint (of_nat (length p)) [] @ p)"
    by (simp add: sample_prost_def sample_encoding_def append_length_delimited_acc read_append_key)
  show "px_skip_field sample_prost LengthDelimited 7 (append_varint (of_nat (length p)) [] @ p) = Some []"
    by (simp add: sample_prost_def read_append_varint unat)
qed (auto intro: fields_done)

lemma sample_envelope_ok:
  "1 \<le> length p \<Longrightarrow> length p \<le> 1000 \<Longrightarrow>
   relay_envelope_ok (sample_envelope p) \<and> major (env_version (sample_envelope p)) = 1"
  by (simp add: relay_envelope_ok_def sample_envelope_def application_v1_def
      APPLICATION_PROTOCOL_MAJOR_def domain_bounds)

lemma length_sample_encoding: "length (sample_encoding p) \<le> length p + 11"
  using varint_length_le_10 [of "of_nat (length p)"]
  by (simp add: sample_encoding_def length_append_length_delimited)

lemma decode_sample:
  assumes "1 \<le> length p" and "length p \<le> 1000"
  shows "decode_relay_envelope sample_prost (sample_encoding p) = Inr (sample_envelope p)"
proof -
  have "mc_decode sample_codec (sample_encoding p) = Inr (sample_wire p)"
    using assms by (simp add: sample_codec_def read_sample_encoding)
  moreover have "px_relay_envelope sample_prost = sample_codec"
    by (simp add: sample_prost_def)
  moreover have "mc_encoded_len sample_codec (sample_wire p) = length (sample_encoding p)"
    by (simp add: sample_codec_def sample_wire_def)
  moreover have "\<exists>fs. fields_of sample_prost (sample_encoding p) fs \<and> length fs \<le> MAX_PROTOBUF_TOP_LEVEL_FIELDS"
    using fields_of_sample [of p] assms by (auto simp: MAX_PROTOBUF_TOP_LEVEL_FIELDS_def)
  ultimately show ?thesis
    using assms sample_envelope_ok [OF assms] length_sample_encoding [of p]
    by (simp add: decode_relay_envelope_eq_Inr relay_to_wire_sample MAX_RELAY_ENVELOPE_BYTES_def)
qed

text \<open>The sample codec with the version read from the payload: an envelope of major version 2.\<close>

definition future_envelope :: relay_envelope where
  "future_envelope = (sample_envelope [7, 5])\<lparr>env_version := \<lparr>major = 2, minor = 0\<rparr>\<rparr>"

definition future_prost :: prost where
  "future_prost = sample_prost\<lparr>px_relay_envelope := sample_codec\<lparr>mc_decode := (\<lambda>_. Inr (relay_to_wire future_envelope))\<rparr>\<rparr>"

lemma fields_of_future: "fields_of sample_prost bs fs \<Longrightarrow> fields_of future_prost bs fs"
proof (induction rule: fields_of.induct)
  case fields_done
  show ?case by (rule fields_of.fields_done)
next
  case (fields_next bs tag wt rest rest' fs)
  then show ?case by (intro fields_of.fields_next) (simp_all add: future_prost_def)
qed

theorem relay_envelope_roundtrip_witness:
  "decode_relay_envelope sample_prost (sample_encoding [7, 4, 2]) = Inr (sample_envelope [7, 4, 2]) \<and>
   decode_relay_envelope future_prost (sample_encoding [7, 5]) = Inl (UnsupportedMajor RELAY_CONTRACT 2)"
proof
  have sample: "encode_relay_envelope sample_prost (sample_envelope [7, 4, 2]) = Inr (sample_encoding [7, 4, 2])"
    using length_sample_encoding [of "[7, 4, 2]"]
    by (simp add: encode_relay_envelope_def encode_bounded_def relay_to_wire_sample sample_prost_def
        sample_codec_def sample_wire_def domain_bounds)
  have "decode_relay_envelope sample_prost (sample_encoding [7, 4, 2]) =
      (if major (env_version (sample_envelope [7, 4, 2])) = 1 then Inr (sample_envelope [7, 4, 2])
       else Inl (UnsupportedMajor RELAY_CONTRACT (major (env_version (sample_envelope [7, 4, 2])))))"
    by (rule relay_envelope_roundtrip [OF _ sample, where fs = "[(7, LengthDelimited)]"])
      (use sample_envelope_ok [of "[7, 4, 2]"] fields_of_sample [of "[7, 4, 2]"] in
       \<open>simp_all add: relay_to_wire_sample sample_prost_def sample_codec_def sample_wire_def read_sample_encoding\<close>)
  then show "decode_relay_envelope sample_prost (sample_encoding [7, 4, 2]) = Inr (sample_envelope [7, 4, 2])"
    using sample_envelope_ok [of "[7, 4, 2]"] by simp
  have payload: "we_payload (relay_to_wire future_envelope) = [7, 5]"
    by (simp add: relay_to_wire_def future_envelope_def sample_envelope_def)
  have future: "encode_relay_envelope future_prost future_envelope = Inr (sample_encoding [7, 5])"
    using length_sample_encoding [of "[7, 5]"]
    by (simp add: encode_relay_envelope_def encode_bounded_def future_prost_def sample_codec_def payload domain_bounds)
  have "decode_relay_envelope future_prost (sample_encoding [7, 5]) =
      (if major (env_version future_envelope) = 1 then Inr future_envelope
       else Inl (UnsupportedMajor RELAY_CONTRACT (major (env_version future_envelope))))"
    by (rule relay_envelope_roundtrip [OF _ future, where fs = "[(7, LengthDelimited)]"])
      (use sample_envelope_ok [of "[7, 5]"] fields_of_future [OF fields_of_sample [of "[7, 5]"]] in
       \<open>simp_all add: future_prost_def sample_codec_def payload\<close>,
       simp_all add: future_envelope_def relay_envelope_ok_def)
  then show "decode_relay_envelope future_prost (sample_encoding [7, 5]) = Inl (UnsupportedMajor RELAY_CONTRACT 2)"
    by (simp add: future_envelope_def)
qed

theorem encode_replay_page_preserving_exact_witness:
  "\<exists>out. encode_replay_page_preserving sample_prost [(sample_encoding [7, 4, 2], 1), (sample_encoding [8, 5], 2)] 2 True = Inr out
     \<and> length out \<le> 16 * 1024 * 1024"
proof -
  have "\<exists>out. encode_replay_page_preserving sample_prost [(sample_encoding [7, 4, 2], 1), (sample_encoding [8, 5], 2)] 2 True = Inr out"
    using decode_sample [of "[7, 4, 2]"] decode_sample [of "[8, 5]"]
      length_sample_encoding [of "[7, 4, 2]"] length_sample_encoding [of "[8, 5]"]
    by (intro encode_replay_page_preserving_ok) simp_all
  then show ?thesis using encode_replay_page_preserving_exact by blast
qed

end
