(* ===== verification/Relay_Base.thy ===== *)
theory Relay_Base
  imports Protocol_Relay
begin

text \<open>
  What the relay's storage operations share (\<open>crates/Konclave.RelayCore/src/error.rs\<close>
  and the column conversions of \<open>sqlite.rs\<close>): the error type, principal identifiers, and
  the conversions between unsigned values and the signed 64-bit INTEGER columns. A table is
  the list of its rows; INTEGER columns are \<open>int\<close>, BLOB columns byte lists.
\<close>

datatype relay_error =
    Unauthorized
  | ExpiredEnvelope
  | IdempotencyConflict
  | EnvelopeEncodingMismatch
  | StaleEpoch
  | SequenceExhausted
  | InvalidAcknowledgment
  | EnrollmentConflict
  | PrincipalCapacityExceeded
  | ExpiredPairingRendezvous
  | PairingRendezvousConflict
  | PairingRendezvousUnavailable
  | PairingRendezvousGlobalCapacityExceeded
  | PairingRendezvousPrincipalCapacityExceeded
  | InvalidShortCodeDeadline
  | ExpiredShortCodeAttempt
  | ShortCodeAttemptConflict
  | ShortCodeAttemptUnavailable
  | ShortCodeClaimRateLimited
  | ShortCodeGlobalCapacityExceeded
  | ShortCodeCreatorCapacityExceeded
  | InvalidShortCodeStage
  | PrincipalRevoked
  | UnsupportedEnrollmentVersion
  | ClockUnavailable
  | StorageFailure string
  | UnsupportedSchemaVersion u32
  | InvalidStoredData
  | RelayProtocol konclave_protocol_error
  | RelayDomain konclave_domain_error

datatype relay_principal_id = RelayPrincipalId (principal_id_bytes: bytes)

definition RelayPrincipalId_from_slice :: "bytes \<Rightarrow> relay_authentication_error + relay_principal_id" where
  "RelayPrincipalId_from_slice value =
     (if length value = 32 then Inr (RelayPrincipalId value)
      else Inl (AuthInvalidLength ''relay_principal_id'' 32 (length value)))"

section \<open>INTEGER and BLOB columns\<close>

definition i64_MAX :: int where "i64_MAX = 2 ^ 63 - 1"

definition to_sql_integer :: "u64 \<Rightarrow> relay_error + int" where
  "to_sql_integer value = (if unat value < 2 ^ 63 then Inr (int (unat value)) else Inl SequenceExhausted)"

definition from_sql_integer :: "int \<Rightarrow> relay_error + u64" where
  "from_sql_integer value = (if 0 \<le> value then Inr (of_int value) else Inl InvalidStoredData)"

definition from_sql_u32 :: "int \<Rightarrow> relay_error + u32" where
  "from_sql_u32 value = (if 0 \<le> value \<and> value < 2 ^ 32 then Inr (of_int value) else Inl InvalidStoredData)"

text \<open>\<open>CASE WHEN length(column) = n THEN column END\<close>, and reading it as a non-null blob.\<close>

definition sized_blob :: "nat \<Rightarrow> bytes \<Rightarrow> relay_error + bytes" where
  "sized_blob n column = (if length column = n then Inr column else Inl InvalidStoredData)"

text \<open>\<open>a? == x && rest\<close>: the rest is only evaluated when the first test holds.\<close>

definition and_also :: "'e + bool \<Rightarrow> 'e + bool \<Rightarrow> 'e + bool" where
  "and_also a b = and_then a (\<lambda>t. if t then b else Inr False)"

definition equals :: "'e + 'a \<Rightarrow> 'a \<Rightarrow> 'e + bool" where
  "equals r x = and_then r (\<lambda>v. Inr (v = x))"

lemma to_sql_integer_eq_Inr [simp]:
  "to_sql_integer v = Inr i \<longleftrightarrow> unat v < 2 ^ 63 \<and> i = int (unat v)"
  by (auto simp: to_sql_integer_def)

lemma from_sql_integer_nat [simp]: "from_sql_integer (int n) = Inr (of_nat n)"
  by (simp add: from_sql_integer_def)

lemma from_sql_integer_eq_Inr [simp]: "from_sql_integer i = Inr v \<longleftrightarrow> 0 \<le> i \<and> v = of_int i"
  by (auto simp: from_sql_integer_def)

lemma sql_integer_roundtrip: "to_sql_integer v = Inr i \<Longrightarrow> from_sql_integer i = Inr v"
  by auto

lemma unat_of_sql: "0 \<le> i \<Longrightarrow> i < 2 ^ 63 \<Longrightarrow> unat (of_int i :: u64) = nat i"
  by (simp add: unsigned_of_int nat_take_bit_eq take_bit_nat_eq_self)

lemma from_sql_u32_unat [simp]: "from_sql_u32 (int (unat (v :: u32))) = Inr v"
  using unsigned_less [of v] by (simp add: from_sql_u32_def)

lemma from_sql_u32_uint [simp]: "from_sql_u32 (uint (v :: u32)) = Inr v"
  using from_sql_u32_unat [of v] by simp

lemma sized_blob_eq_Inr [simp]: "sized_blob n c = Inr b \<longleftrightarrow> length c = n \<and> b = c"
  by (auto simp: sized_blob_def)

lemma equals_True: "equals r x = Inr True \<longleftrightarrow> r = Inr x"
  by (auto simp: equals_def)

lemma and_also_True: "and_also a b = Inr True \<longleftrightarrow> a = Inr True \<and> b = Inr True"
  by (cases a) (auto simp: and_also_def)

end
