(* ===== verification/Relay_Principals.thy ===== *)
theory Relay_Principals
  imports Relay_Base
begin

text \<open>
  The registry of dynamically enrolled relay principals: the enrollment values of
  \<open>crates/Konclave.RelayAuthentication/src/lib.rs\<close> and the three operations of
  \<open>RelayPrincipalRegistry for SqliteRelayRepository\<close> (\<open>crates/Konclave.RelayCore/src/sqlite.rs\<close>).
  Registration is two SQL statements outside a transaction, an insert and a
  classification of its refusal, so both are definitions of their own.
\<close>

section \<open>Enrollment values\<close>

datatype enrollment_request_id = EnrollmentRequestId (enrollment_request_id_bytes: bytes)

definition EnrollmentRequestId_from_slice :: "bytes \<Rightarrow> relay_authentication_error + enrollment_request_id" where
  "EnrollmentRequestId_from_slice value =
     (if length value = 16 then Inr (EnrollmentRequestId value)
      else Inl (AuthInvalidLength ''enrollment_request_id'' 16 (length value)))"

record relay_enrollment_request =
  en_version :: protocol_version
  en_request_id :: enrollment_request_id
  en_principal_id :: relay_principal_id

datatype relay_enrollment_outcome = Registered | AlreadyRegistered

record relay_enrollment_response =
  eo_version :: protocol_version
  eo_request_id :: enrollment_request_id
  eo_principal_id :: relay_principal_id
  eo_outcome :: relay_enrollment_outcome

section \<open>The registry table\<close>

definition MAX_ACTIVE_DYNAMIC_PRINCIPALS :: int where "MAX_ACTIVE_DYNAMIC_PRINCIPALS = 1024"
definition MAX_DYNAMIC_PRINCIPAL_RECORDS :: int where "MAX_DYNAMIC_PRINCIPAL_RECORDS = 4096"

record principal_row =
  pr_principal_id :: bytes
  pr_request_id :: bytes
  pr_status :: int

type_synonym registry_db = "principal_row list"

definition principal_row_check :: "principal_row \<Rightarrow> bool" where
  "principal_row_check row \<longleftrightarrow>
     length (pr_principal_id row) = 32 \<and> length (pr_request_id row) = 16 \<and>
     1 \<le> pr_status row \<and> pr_status row \<le> 2"

text \<open>\<open>count(*) FILTER (WHERE status = 1)\<close> and \<open>count(*)\<close>.\<close>

definition active_count :: "registry_db \<Rightarrow> int" where
  "active_count rows = int (length (filter (\<lambda>row. pr_status row = 1) rows))"

definition record_count :: "registry_db \<Rightarrow> int" where
  "record_count rows = int (length rows)"

definition same_identity :: "relay_enrollment_request \<Rightarrow> principal_row \<Rightarrow> bool" where
  "same_identity request row \<longleftrightarrow>
     pr_principal_id row = principal_id_bytes (en_principal_id request) \<or>
     pr_request_id row = enrollment_request_id_bytes (en_request_id request)"

section \<open>Registration\<close>

definition insert_principal :: "relay_enrollment_request \<Rightarrow> registry_db \<Rightarrow> relay_error + (nat \<times> registry_db)" where
  "insert_principal request rows =
     (let row = \<lparr>pr_principal_id = principal_id_bytes (en_principal_id request),
                 pr_request_id = enrollment_request_id_bytes (en_request_id request),
                 pr_status = 1\<rparr> in
      if active_count rows < MAX_ACTIVE_DYNAMIC_PRINCIPALS
         \<and> record_count rows < MAX_DYNAMIC_PRINCIPAL_RECORDS
      then if \<not> principal_row_check row then Inl (StorageFailure ''dynamic principal registration'')
           else if list_ex (same_identity request) rows then Inr (0, rows)
           else Inr (1, row # rows)
      else Inr (0, rows))"

text \<open>The loop over the conflicting rows: it leaves at the row of the exact request.\<close>

fun classify_rows ::
    "relay_enrollment_request \<Rightarrow> principal_row list \<Rightarrow> relay_error + relay_enrollment_outcome option" where
  "classify_rows request [] = Inr None"
| "classify_rows request (row # rows) =
     and_then (and_then (sized_blob 32 (pr_principal_id row)) (\<lambda>b.
        map_err (\<lambda>_. InvalidStoredData) (RelayPrincipalId_from_slice b))) (\<lambda>registered.
     and_then (and_then (sized_blob 16 (pr_request_id row)) (\<lambda>b.
        map_err (\<lambda>_. InvalidStoredData) (EnrollmentRequestId_from_slice b))) (\<lambda>request_id.
     if registered = en_principal_id request \<and> request_id = en_request_id request
     then if pr_status row = 1 then Inr (Some AlreadyRegistered)
          else if pr_status row = 2 then Inl PrincipalRevoked
          else Inl InvalidStoredData
     else classify_rows request rows))"

definition classify_principal_registration ::
    "relay_enrollment_request \<Rightarrow> registry_db \<Rightarrow> relay_error + relay_enrollment_outcome" where
  "classify_principal_registration request db =
     (let rows = take 2 (filter (same_identity request) db) in
      and_then (classify_rows request rows) (\<lambda>found.
      case found of
        Some outcome \<Rightarrow> Inr outcome
      | None \<Rightarrow>
          if rows \<noteq> [] then Inl EnrollmentConflict
          else if active_count db \<ge> MAX_ACTIVE_DYNAMIC_PRINCIPALS
                  \<or> record_count db \<ge> MAX_DYNAMIC_PRINCIPAL_RECORDS
          then Inl PrincipalCapacityExceeded
          else Inl (StorageFailure ''dynamic principal registration outcome'')))"

definition enrollment_response ::
    "relay_enrollment_request \<Rightarrow> relay_enrollment_outcome \<Rightarrow> relay_enrollment_response" where
  "enrollment_response request outcome =
     \<lparr>eo_version = en_version request, eo_request_id = en_request_id request,
      eo_principal_id = en_principal_id request, eo_outcome = outcome\<rparr>"

definition register_principal ::
    "relay_enrollment_request \<Rightarrow> registry_db \<Rightarrow> (relay_error + relay_enrollment_response) \<times> registry_db" where
  "register_principal request rows =
     (if major (en_version request) \<noteq> 1 then (Inl UnsupportedEnrollmentVersion, rows)
      else case insert_principal request rows of
        Inl e \<Rightarrow> (Inl e, rows)
      | Inr (inserted, rows') \<Rightarrow>
          (and_then (if inserted = 1 then Inr Registered
                     else classify_principal_registration request rows') (\<lambda>outcome.
           Inr (enrollment_response request outcome)), rows'))"

section \<open>Status and revocation\<close>

definition is_principal_active :: "relay_principal_id \<Rightarrow> registry_db \<Rightarrow> relay_error + bool" where
  "is_principal_active who rows =
     (case List.find (\<lambda>row. pr_principal_id row = principal_id_bytes who) rows of
        None \<Rightarrow> Inr False
      | Some row \<Rightarrow>
          if pr_status row = 2 then Inr False
          else if pr_status row = 1 then Inr True
          else Inl InvalidStoredData)"

definition revocable :: "relay_principal_id \<Rightarrow> principal_row \<Rightarrow> bool" where
  "revocable who row \<longleftrightarrow> pr_principal_id row = principal_id_bytes who \<and> pr_status row = 1"

definition revoke_principal :: "relay_principal_id \<Rightarrow> registry_db \<Rightarrow> (relay_error + bool) \<times> registry_db" where
  "revoke_principal who rows =
     (Inr (length (filter (revocable who) rows) = 1),
      map (\<lambda>row. if revocable who row then row\<lparr>pr_status := 2\<rparr> else row) rows)"

section \<open>The registry as a store that only moves forward\<close>

definition registry_inv :: "registry_db \<Rightarrow> bool" where
  "registry_inv rows \<longleftrightarrow>
     list_all principal_row_check rows \<and>
     distinct (map pr_principal_id rows) \<and> distinct (map pr_request_id rows) \<and>
     active_count rows \<le> MAX_ACTIVE_DYNAMIC_PRINCIPALS \<and>
     record_count rows \<le> MAX_DYNAMIC_PRINCIPAL_RECORDS"

text \<open>A registration is never dropped or rebound, and its status only goes from 1 to 2.\<close>

definition principal_row_le :: "principal_row \<Rightarrow> principal_row \<Rightarrow> bool" where
  "principal_row_le r r' \<longleftrightarrow>
     pr_principal_id r' = pr_principal_id r \<and> pr_request_id r' = pr_request_id r \<and>
     pr_status r \<le> pr_status r'"

definition registry_le :: "registry_db \<Rightarrow> registry_db \<Rightarrow> bool" where
  "registry_le rows rows' \<longleftrightarrow> (\<forall>r\<in>set rows. \<exists>r'\<in>set rows'. principal_row_le r r')"

datatype registry_op =
    RegisterPrincipal relay_enrollment_request
  | RevokePrincipal relay_principal_id

fun registry_step :: "registry_op \<Rightarrow> registry_db \<Rightarrow> (relay_error + bool) \<times> registry_db" where
  "registry_step (RegisterPrincipal request) rows =
     (let (r, rows') = register_principal request rows in
      (and_then r (\<lambda>response. Inr (eo_outcome response = Registered)), rows'))"
| "registry_step (RevokePrincipal who) rows = revoke_principal who rows"

definition row_of_request :: "relay_enrollment_request \<Rightarrow> principal_row" where
  "row_of_request request =
     \<lparr>pr_principal_id = principal_id_bytes (en_principal_id request),
      pr_request_id = enrollment_request_id_bytes (en_request_id request), pr_status = 1\<rparr>"

definition revoke_row :: "relay_principal_id \<Rightarrow> principal_row \<Rightarrow> principal_row" where
  "revoke_row who row = (if revocable who row then row\<lparr>pr_status := 2\<rparr> else row)"

lemma revoke_row_simps [simp]:
  "pr_principal_id (revoke_row who row) = pr_principal_id row"
  "pr_request_id (revoke_row who row) = pr_request_id row"
  "pr_status (revoke_row who row) = 1 \<longleftrightarrow> pr_status row = 1 \<and> pr_principal_id row \<noteq> principal_id_bytes who"
  by (auto simp: revoke_row_def revocable_def)

lemma revoke_row_check: "principal_row_check row \<Longrightarrow> principal_row_check (revoke_row who row)"
  by (auto simp: revoke_row_def principal_row_check_def)

lemma revoke_principal_eq: "snd (revoke_principal who rows) = map (revoke_row who) rows"
  by (simp add: revoke_principal_def revoke_row_def)

lemma insert_principal_cases:
  assumes "insert_principal request rows = Inr (n, rows')"
  obtains (inserted) "n = 1" "rows' = row_of_request request # rows"
      "active_count rows < MAX_ACTIVE_DYNAMIC_PRINCIPALS" "record_count rows < MAX_DYNAMIC_PRINCIPAL_RECORDS"
      "principal_row_check (row_of_request request)" "\<not> list_ex (same_identity request) rows"
    | (kept) "n = 0" "rows' = rows"
  using assms by (auto simp: insert_principal_def row_of_request_def Let_def split: if_splits)

lemma registry_inv_insert:
  assumes "registry_inv rows"
    and "active_count rows < MAX_ACTIVE_DYNAMIC_PRINCIPALS" "record_count rows < MAX_DYNAMIC_PRINCIPAL_RECORDS"
    and "principal_row_check (row_of_request request)" "\<not> list_ex (same_identity request) rows"
  shows "registry_inv (row_of_request request # rows)"
  using assms
  by (auto simp: registry_inv_def active_count_def record_count_def row_of_request_def
      same_identity_def list_ex_iff)

lemma register_principal_rows:
  obtains "snd (register_principal request rows) = rows"
  | "snd (register_principal request rows) = row_of_request request # rows"
    "active_count rows < MAX_ACTIVE_DYNAMIC_PRINCIPALS" "record_count rows < MAX_DYNAMIC_PRINCIPAL_RECORDS"
    "principal_row_check (row_of_request request)" "\<not> list_ex (same_identity request) rows"
proof (cases "insert_principal request rows")
  case (Inl e)
  then show ?thesis using that(1) by (simp add: register_principal_def)
next
  case (Inr p)
  obtain n rows' where p: "p = (n, rows')" by (cases p)
  with Inr have ins: "insert_principal request rows = Inr (n, rows')" by simp
  then show ?thesis
  proof (cases rule: insert_principal_cases)
    case inserted
    show ?thesis
    proof (cases "major (en_version request) = 1")
      case True
      then show ?thesis using that(2) inserted ins by (simp add: register_principal_def)
    next
      case False
      then show ?thesis using that(1) by (simp add: register_principal_def)
    qed
  next
    case kept
    then show ?thesis using that(1) ins by (simp add: register_principal_def)
  qed
qed

lemma register_principal_inv:
  "registry_inv rows \<Longrightarrow> registry_inv (snd (register_principal request rows))"
  by (cases rule: register_principal_rows [of request rows]) (auto intro: registry_inv_insert)

lemma active_count_revoke: "active_count (map (revoke_row who) rows) \<le> active_count rows"
  by (induction rows) (auto simp: active_count_def)

lemma revoke_principal_inv:
  assumes "registry_inv rows"
  shows "registry_inv (snd (revoke_principal who rows))"
  using assms active_count_revoke [of who rows]
  by (auto simp: registry_inv_def revoke_principal_eq record_count_def list_all_iff comp_def
      intro: revoke_row_check)

lemma principal_row_le_refl [simp]: "principal_row_le r r"
  by (simp add: principal_row_le_def)

lemma principal_row_le_trans: "principal_row_le a b \<Longrightarrow> principal_row_le b c \<Longrightarrow> principal_row_le a c"
  by (simp add: principal_row_le_def)

lemma principal_row_le_revoke [simp]: "principal_row_le r (revoke_row who r)"
  by (simp add: principal_row_le_def revoke_row_def revocable_def)

lemma registry_le_refl [simp]: "registry_le rows rows"
  by (auto simp: registry_le_def intro: principal_row_le_refl)

lemma registry_le_trans: "registry_le a b \<Longrightarrow> registry_le b c \<Longrightarrow> registry_le a c"
  unfolding registry_le_def by (meson principal_row_le_trans)

lemma register_principal_le: "registry_le rows (snd (register_principal request rows))"
  by (cases rule: register_principal_rows [of request rows])
    (auto simp: registry_le_def intro: principal_row_le_refl)

lemma revoke_principal_le: "registry_le rows (snd (revoke_principal who rows))"
  by (auto simp: registry_le_def revoke_principal_eq intro: principal_row_le_revoke)

interpretation relay_registry: monotone_store registry_step registry_inv registry_le
proof
  fix op rows
  show "registry_inv rows \<Longrightarrow> registry_inv (snd (registry_step op rows))"
    by (cases op) (auto simp: register_principal_inv revoke_principal_inv split_beta Let_def)
  show "registry_le rows (snd (registry_step op rows))"
    by (cases op) (auto simp: register_principal_le revoke_principal_le split_beta Let_def)
qed (auto intro: registry_le_trans)

section \<open>What registration decides\<close>

definition exact_identity :: "relay_enrollment_request \<Rightarrow> principal_row \<Rightarrow> bool" where
  "exact_identity request row \<longleftrightarrow>
     pr_principal_id row = principal_id_bytes (en_principal_id request) \<and>
     pr_request_id row = enrollment_request_id_bytes (en_request_id request)"

definition enrollment_request_ok :: "relay_enrollment_request \<Rightarrow> bool" where
  "enrollment_request_ok request \<longleftrightarrow>
     length (principal_id_bytes (en_principal_id request)) = 32 \<and>
     length (enrollment_request_id_bytes (en_request_id request)) = 16"

definition registry_full :: "registry_db \<Rightarrow> bool" where
  "registry_full rows \<longleftrightarrow>
     active_count rows \<ge> MAX_ACTIVE_DYNAMIC_PRINCIPALS \<or> record_count rows \<ge> MAX_DYNAMIC_PRINCIPAL_RECORDS"

lemma filter_key_length:
  assumes "distinct (map f xs)"
  shows "length (filter (\<lambda>x. f x = k) xs) \<le> 1"
  using assms
proof (induction xs)
  case (Cons x xs)
  show ?case
  proof (cases "f x = k")
    case True
    then have "filter (\<lambda>x. f x = k) xs = []"
      using Cons.prems by (auto simp: filter_empty_conv) (metis image_eqI)
    then show ?thesis by simp
  next
    case False
    then show ?thesis using Cons by simp
  qed
qed simp

lemma length_filter_or: "length (filter (\<lambda>x. P x \<or> Q x) xs) \<le> length (filter P xs) + length (filter Q xs)"
  by (induction xs) auto

lemma conflicting_rows_at_most_two:
  assumes "registry_inv rows"
  shows "length (filter (same_identity request) rows) \<le> 2"
proof -
  have "length (filter (same_identity request) rows) \<le>
      length (filter (\<lambda>r. pr_principal_id r = principal_id_bytes (en_principal_id request)) rows) +
      length (filter (\<lambda>r. pr_request_id r = enrollment_request_id_bytes (en_request_id request)) rows)"
    unfolding same_identity_def by (rule length_filter_or)
  moreover have "length (filter (\<lambda>r. pr_principal_id r = principal_id_bytes (en_principal_id request)) rows) \<le> 1"
    "length (filter (\<lambda>r. pr_request_id r = enrollment_request_id_bytes (en_request_id request)) rows) \<le> 1"
    using assms unfolding registry_inv_def by (blast intro: filter_key_length)+
  ultimately show ?thesis by linarith
qed

lemma find_Some_member: "List.find P xs = Some x \<Longrightarrow> x \<in> set xs \<and> P x"
  by (auto simp: find_Some_iff)

lemma find_filter:
  assumes "\<And>x. P x \<Longrightarrow> Q x"
  shows "List.find P (filter Q xs) = List.find P xs"
  using assms by (induction xs) auto

lemma classify_rows_eq:
  assumes "list_all principal_row_check rows"
  shows "classify_rows request rows =
    (case List.find (exact_identity request) rows of
       None \<Rightarrow> Inr None
     | Some r \<Rightarrow> if pr_status r = 1 then Inr (Some AlreadyRegistered) else Inl PrincipalRevoked)"
  using assms
proof (induction rows)
  case (Cons row rows)
  obtain p i where request: "en_principal_id request = RelayPrincipalId p" "en_request_id request = EnrollmentRequestId i"
    by (metis relay_principal_id.exhaust enrollment_request_id.exhaust)
  from Cons request show ?case
    by (auto simp: principal_row_check_def exact_identity_def sized_blob_def
        RelayPrincipalId_from_slice_def EnrollmentRequestId_from_slice_def)
qed simp

lemma classify_eq:
  assumes "registry_inv rows"
  shows "classify_principal_registration request rows =
    (case List.find (exact_identity request) rows of
       Some r \<Rightarrow> if pr_status r = 1 then Inr AlreadyRegistered else Inl PrincipalRevoked
     | None \<Rightarrow>
         if list_ex (same_identity request) rows then Inl EnrollmentConflict
         else if registry_full rows then Inl PrincipalCapacityExceeded
         else Inl (StorageFailure ''dynamic principal registration outcome''))"
proof -
  let ?rows = "filter (same_identity request) rows"
  have take: "take 2 ?rows = ?rows"
    using conflicting_rows_at_most_two [OF assms] by simp
  have "List.find (exact_identity request) ?rows = List.find (exact_identity request) rows"
    by (rule find_filter) (simp add: exact_identity_def same_identity_def)
  moreover have "list_all principal_row_check ?rows"
    using assms by (simp add: registry_inv_def list_all_iff)
  ultimately show ?thesis
    by (auto simp: classify_principal_registration_def take classify_rows_eq Let_def registry_full_def
        filter_empty_conv list_ex_iff split: option.splits)
qed

lemma register_principal_eq:
  assumes "registry_inv rows" and "enrollment_request_ok request" and "major (en_version request) = 1"
  shows "register_principal request rows =
    (case List.find (exact_identity request) rows of
       Some r \<Rightarrow>
         (if pr_status r = 1 then Inr (enrollment_response request AlreadyRegistered)
          else Inl PrincipalRevoked, rows)
     | None \<Rightarrow>
         if list_ex (same_identity request) rows then (Inl EnrollmentConflict, rows)
         else if registry_full rows then (Inl PrincipalCapacityExceeded, rows)
         else (Inr (enrollment_response request Registered), row_of_request request # rows))"
proof -
  have check: "principal_row_check (row_of_request request)"
    using assms(2) by (simp add: principal_row_check_def row_of_request_def enrollment_request_ok_def)
  have ins: "insert_principal request rows =
      Inr (if registry_full rows \<or> list_ex (same_identity request) rows then (0, rows)
           else (1, row_of_request request # rows))"
    using check
    by (auto simp: insert_principal_def row_of_request_def [symmetric] Let_def registry_full_def)
  have exact: "List.find (exact_identity request) rows = Some r \<Longrightarrow> list_ex (same_identity request) rows" for r
    by (auto simp: find_Some_iff list_ex_iff exact_identity_def same_identity_def intro!: bexI [of _ r])
  show ?thesis
    using assms(3) exact
    by (auto simp: register_principal_def ins classify_eq [OF assms(1)] split: option.splits)
qed

text \<open>
  On a registry that satisfies its constraints, registering a well-formed
  version-1 request has exactly one outcome: an identical earlier registration is
  confirmed, or refused as revoked; a request that shares its principal or its request
  identifier with a different registration is a conflict; otherwise a full registry
  refuses for capacity and a registry with room stores one active row. Only the last
  case changes the registry, and the \<open>storage failure\<close> outcome of the classification
  is unreachable when no other statement runs in between.
\<close>
lemma registration_decided:
  assumes "registry_inv rows" and "enrollment_request_ok request" and "major (en_version request) = 1"
  shows "register_principal request rows =
    (case List.find (exact_identity request) rows of
       Some r \<Rightarrow>
         (if pr_status r = 1 then Inr (enrollment_response request AlreadyRegistered)
          else Inl PrincipalRevoked, rows)
     | None \<Rightarrow>
         if list_ex (same_identity request) rows then (Inl EnrollmentConflict, rows)
         else if registry_full rows then (Inl PrincipalCapacityExceeded, rows)
         else (Inr (enrollment_response request Registered), row_of_request request # rows))"
  using assms by (rule register_principal_eq)

section \<open>Bounds and revocation over any history\<close>

text \<open>
  Whatever requests and revocations the registry has served, it holds at most
  1,024 active principals and 4,096 records, and no principal and no enrollment request
  identifier is registered twice.
\<close>
lemma registry_bounded:
  "let rows = run_ops registry_step ops [] in
     length (filter (\<lambda>row. pr_status row = 1) rows) \<le> 1024 \<and> length rows \<le> 4096 \<and>
     distinct (map pr_principal_id rows) \<and> distinct (map pr_request_id rows)"
proof -
  have "registry_inv (run_ops registry_step ops [])"
    by (rule relay_registry.run_invar)
      (simp add: registry_inv_def active_count_def record_count_def
        MAX_ACTIVE_DYNAMIC_PRINCIPALS_def MAX_DYNAMIC_PRINCIPAL_RECORDS_def)
  then show ?thesis
    by (simp add: registry_inv_def Let_def active_count_def record_count_def
        MAX_ACTIVE_DYNAMIC_PRINCIPALS_def MAX_DYNAMIC_PRINCIPAL_RECORDS_def)
qed

lemma registry_unique:
  assumes "registry_inv rows" "r \<in> set rows" "r' \<in> set rows" "pr_principal_id r = pr_principal_id r'"
  shows "r = r'"
  using assms unfolding registry_inv_def distinct_map by (blast dest: inj_onD)

lemma registry_find:
  assumes "registry_inv rows" and "r \<in> set rows"
  shows "List.find (\<lambda>row. pr_principal_id row = pr_principal_id r) rows = Some r"
proof -
  have "distinct (map pr_principal_id rows)" using assms(1) by (simp add: registry_inv_def)
  then show ?thesis using assms(2) by (induction rows) auto
qed

lemma is_principal_active_eq:
  assumes "registry_inv rows"
  shows "is_principal_active who rows = Inr (\<exists>r\<in>set rows. revocable who r)"
proof (cases "\<exists>r\<in>set rows. pr_principal_id r = principal_id_bytes who")
  case True
  then obtain r where r: "r \<in> set rows" "pr_principal_id r = principal_id_bytes who" by blast
  have "List.find (\<lambda>row. pr_principal_id row = principal_id_bytes who) rows = Some r"
    using registry_find [OF assms r(1)] r(2) by simp
  moreover have "pr_status r = 1 \<or> pr_status r = 2"
    using assms r(1) by (force simp: registry_inv_def list_all_iff principal_row_check_def)
  moreover have "(\<exists>r\<in>set rows. revocable who r) \<longleftrightarrow> pr_status r = 1"
  proof
    assume "\<exists>r\<in>set rows. revocable who r"
    then obtain r' where r': "r' \<in> set rows" "revocable who r'" by blast
    then have "r' = r" using registry_unique [OF assms r'(1) r(1)] r(2) by (simp add: revocable_def)
    then show "pr_status r = 1" using r'(2) by (simp add: revocable_def)
  next
    assume "pr_status r = 1"
    then show "\<exists>r\<in>set rows. revocable who r" using r by (auto simp: revocable_def)
  qed
  ultimately show ?thesis by (auto simp: is_principal_active_def)
next
  case False
  then have "List.find (\<lambda>row. pr_principal_id row = principal_id_bytes who) rows = None"
    by (auto simp: find_None_iff)
  with False show ?thesis by (auto simp: is_principal_active_def revocable_def)
qed

text \<open>The row of a revoked principal in every later registry.\<close>

definition revoked :: "relay_principal_id \<Rightarrow> registry_db \<Rightarrow> bool" where
  "revoked who rows \<longleftrightarrow> (\<exists>r\<in>set rows. pr_principal_id r = principal_id_bytes who \<and> pr_status r = 2)"

lemma revoked_mono:
  assumes "revoked who rows" and "registry_le rows rows'" and "registry_inv rows'"
  shows "revoked who rows'"
proof -
  from assms(1) obtain r where r: "r \<in> set rows" "pr_principal_id r = principal_id_bytes who" "pr_status r = 2"
    by (auto simp: revoked_def)
  with assms(2) obtain r' where r': "r' \<in> set rows'" "principal_row_le r r'"
    by (auto simp: registry_le_def)
  moreover have "principal_row_check r'"
    using assms(3) r'(1) by (auto simp: registry_inv_def list_all_iff)
  ultimately show ?thesis
    using r by (auto simp: revoked_def principal_row_le_def principal_row_check_def intro!: bexI [of _ r'])
qed

lemma revoked_later:
  assumes "registry_inv rows" and "revoked who rows"
  shows "revoked who (run_ops registry_step ops rows)"
  using assms(2) relay_registry.run_le [OF assms(1)] relay_registry.run_invar [OF assms(1)] by (rule revoked_mono)

lemma revoked_inactive:
  assumes "registry_inv rows" and "revoked who rows"
  shows "is_principal_active who rows = Inr False"
proof -
  from assms(2) obtain r where r: "r \<in> set rows" "pr_principal_id r = principal_id_bytes who" "pr_status r = 2"
    by (auto simp: revoked_def)
  have "List.find (\<lambda>row. pr_principal_id row = principal_id_bytes who) rows = Some r"
    using registry_find [OF assms(1) r(1)] r(2) by simp
  then show ?thesis using r(3) by (simp add: is_principal_active_def)
qed

lemma revoke_revokes:
  assumes "revoke_principal who rows = (Inr True, rows')"
  shows "revoked who rows'"
proof -
  from assms have "filter (revocable who) rows \<noteq> []" by (auto simp: revoke_principal_def)
  then obtain r where "r \<in> set rows" "revocable who r" by (auto simp: filter_empty_conv)
  moreover have "rows' = map (revoke_row who) rows" using assms revoke_principal_eq [of who rows] by simp
  ultimately show ?thesis
    by (auto simp: revoked_def revoke_row_def revocable_def intro!: bexI [of _ "revoke_row who r"])
qed

text \<open>The row a revocation changed is in every later registry, revoked and with its enrollment identifier.\<close>

lemma revoked_row_later:
  assumes "registry_inv rows" and "revoke_principal who rows = (Inr True, rows')"
    and "r \<in> set rows" "pr_principal_id r = principal_id_bytes who"
  obtains r' where "r' \<in> set (run_ops registry_step ops rows')" "pr_principal_id r' = principal_id_bytes who"
    "pr_request_id r' = pr_request_id r" "pr_status r' = 2"
proof -
  let ?later = "run_ops registry_step ops rows'"
  have inv: "registry_inv rows'" using revoke_principal_inv [OF assms(1), of who] assms(2) by simp
  have "rows' = map (revoke_row who) rows" using assms(2) revoke_principal_eq [of who rows] by simp
  then have "revoke_row who r \<in> set rows'" using assms(3) by simp
  then obtain r' where r': "r' \<in> set ?later" "principal_row_le (revoke_row who r) r'"
    using relay_registry.run_le [OF inv, of ops] unfolding registry_le_def by blast
  have "registry_inv ?later" by (rule relay_registry.run_invar [OF inv])
  moreover obtain q where q: "q \<in> set ?later" "pr_principal_id q = principal_id_bytes who" "pr_status q = 2"
    using revoked_later [OF inv revoke_revokes [OF assms(2)], of ops] by (auto simp: revoked_def)
  moreover have "pr_principal_id r' = principal_id_bytes who" "pr_request_id r' = pr_request_id r"
    using r'(2) assms(4) by (simp_all add: principal_row_le_def)
  ultimately show thesis using that [OF r'(1)] registry_unique [of ?later r' q] r'(1) by simp
qed

text \<open>
  C33: Revocation is final. Once \<open>revoke_principal\<close> has reported a revocation, the
  principal is inactive after any later sequence of registrations and revocations, and every
  attempt to enroll it again is refused and leaves the registry as it was. The error says
  why: a request of another major version than 1 is of an unsupported version; one that
  repeats the enrollment identifier the principal was registered with finds it revoked; one
  with any other enrollment identifier is a conflict.
\<close>
theorem revocation_final:
  assumes "registry_inv rows" and "revoke_principal who rows = (Inr True, rows')"
    and "registered \<in> set rows" "pr_principal_id registered = principal_id_bytes who"
    and "later = run_ops registry_step ops rows'"
    and "enrollment_request_ok request" and "en_principal_id request = who"
  shows "is_principal_active who later = Inr False \<and>
    register_principal request later =
      (Inl (if major (en_version request) \<noteq> 1 then UnsupportedEnrollmentVersion
            else if enrollment_request_id_bytes (en_request_id request) = pr_request_id registered
            then PrincipalRevoked else EnrollmentConflict), later)"
proof (cases "major (en_version request) = 1")
  case True
  obtain r where r: "r \<in> set later" "pr_principal_id r = principal_id_bytes who"
      "pr_request_id r = pr_request_id registered" "pr_status r = 2"
    using revoked_row_later [OF assms(1-4), of ops] assms(5) by blast
  have inv: "registry_inv later"
    using relay_registry.run_invar [of rows' ops] revoke_principal_inv [OF assms(1), of who] assms(2,5) by simp
  have inactive: "is_principal_active who later = Inr False"
    using r by (intro revoked_inactive [OF inv]) (auto simp: revoked_def)
  have same: "list_ex (same_identity request) later"
    using r assms(7) by (auto simp: list_ex_iff same_identity_def)
  have unique: "r' = r" if "r' \<in> set later" "exact_identity request r'" for r'
    using registry_unique [OF inv that(1) r(1)] that(2) r(2) assms(7) by (simp add: exact_identity_def)
  have "List.find (exact_identity request) later =
      (if enrollment_request_id_bytes (en_request_id request) = pr_request_id registered then Some r else None)"
  proof (cases "List.find (exact_identity request) later")
    case None
    then have "\<not> exact_identity request r" using r(1) by (auto simp: find_None_iff)
    then show ?thesis using None r(2,3) assms(7) by (auto simp: exact_identity_def)
  next
    case (Some r')
    then have "exact_identity request r'" "r' = r" using find_Some_member [OF Some] unique by blast+
    then show ?thesis using Some r(3) by (simp add: exact_identity_def)
  qed
  then show ?thesis
    using register_principal_eq [OF inv assms(6) True] same inactive r(4) True by simp
next
  case False
  have "registry_inv later" "revoked who later"
    using relay_registry.run_invar [of rows' ops] revoke_principal_inv [OF assms(1), of who] assms(2,5)
      revoked_later [OF _ revoke_revokes [OF assms(2)]] by simp_all
  then show ?thesis using False revoked_inactive by (simp add: register_principal_def)
qed

section \<open>The properties on a concrete enrollment\<close>

definition sample_enrollment :: relay_enrollment_request where
  "sample_enrollment =
     \<lparr>en_version = application_v1, en_request_id = EnrollmentRequestId (replicate 16 1),
      en_principal_id = RelayPrincipalId (replicate 32 2)\<rparr>"

definition sample_registry :: registry_db where
  "sample_registry = [row_of_request sample_enrollment]"

lemma sample_enrollment_ok [simp]:
  "enrollment_request_ok sample_enrollment" "major (en_version sample_enrollment) = 1"
  by (simp_all add: enrollment_request_ok_def sample_enrollment_def application_v1_def
      APPLICATION_PROTOCOL_MAJOR_def)

lemma registry_inv_Nil [simp]: "registry_inv []"
  by (simp add: registry_inv_def active_count_def record_count_def
      MAX_ACTIVE_DYNAMIC_PRINCIPALS_def MAX_DYNAMIC_PRINCIPAL_RECORDS_def)

lemma sample_registry_inv: "registry_inv sample_registry"
  using registry_inv_insert [of "[]" sample_enrollment]
  by (simp add: sample_registry_def active_count_def record_count_def MAX_ACTIVE_DYNAMIC_PRINCIPALS_def
      MAX_DYNAMIC_PRINCIPAL_RECORDS_def principal_row_check_def row_of_request_def sample_enrollment_def)

theorem revocation_final_witness:
  "let later = run_ops registry_step [RegisterPrincipal sample_enrollment]
       (snd (revoke_principal (en_principal_id sample_enrollment) sample_registry)) in
     is_principal_active (en_principal_id sample_enrollment) later = Inr False \<and>
     register_principal sample_enrollment later = (Inl PrincipalRevoked, later) \<and>
     register_principal (sample_enrollment\<lparr>en_request_id := EnrollmentRequestId (replicate 16 7)\<rparr>) later =
       (Inl EnrollmentConflict, later)"
proof -
  let ?who = "en_principal_id sample_enrollment"
  let ?other = "sample_enrollment\<lparr>en_request_id := EnrollmentRequestId (replicate 16 7)\<rparr>"
  have "fst (revoke_principal ?who sample_registry) = Inr True"
    by (simp add: revoke_principal_def sample_registry_def row_of_request_def revocable_def)
  then have run: "revoke_principal ?who sample_registry =
      (Inr True, snd (revoke_principal ?who sample_registry))"
    by (metis prod.collapse)
  have row: "row_of_request sample_enrollment \<in> set sample_registry"
    "pr_principal_id (row_of_request sample_enrollment) = principal_id_bytes ?who"
    by (simp_all add: sample_registry_def row_of_request_def)
  have other: "enrollment_request_ok ?other" "en_principal_id ?other = ?who"
    using sample_enrollment_ok(1) by (simp_all add: enrollment_request_ok_def)
  note final = revocation_final [OF sample_registry_inv run row refl]
  show ?thesis
    unfolding Let_def
    using final [OF sample_enrollment_ok(1) refl, of "[RegisterPrincipal sample_enrollment]"]
      final [OF other, of "[RegisterPrincipal sample_enrollment]"] sample_enrollment_ok(2)
    by (simp add: row_of_request_def) (simp add: sample_enrollment_def)
qed

end
