(* ===== verification/Relay_Log.thy ===== *)
theory Relay_Log
  imports Relay_Base
begin

text \<open>
  The relay's durable log (\<open>crates/Konclave.RelayCore/src/sqlite.rs\<close>, the
  \<open>RelayRepository\<close> implementation): submission with idempotency and the epoch
  compare-and-set, bounded replay, and monotone acknowledgments, over the tables
  \<open>relay_route\<close>, \<open>relay_envelope\<close> and \<open>relay_acknowledgment\<close>. A statement that
  violates a key, foreign key or CHECK of the schema fails with a storage failure, and a
  transaction that returns early leaves the tables as they were.
\<close>

section \<open>Tables\<close>

record route_row =
  rt_routing_id :: bytes
  rt_next_cursor :: int
  rt_current_epoch :: int

record envelope_row =
  er_routing_id :: bytes
  er_cursor :: int
  er_envelope_id :: bytes
  er_version_major :: int
  er_version_minor :: int
  er_delivery_class :: int
  er_expected_parent_epoch :: "int option"
  er_expires_at_unix_seconds :: int
  er_encoded_envelope :: bytes

record ack_row =
  ar_routing_id :: bytes
  ar_principal_id :: bytes
  ar_cursor :: int

record log_db =
  db_routes :: "route_row list"
  db_envelopes :: "envelope_row list"
  db_acks :: "ack_row list"

definition empty_log :: log_db where
  "empty_log = \<lparr>db_routes = [], db_envelopes = [], db_acks = []\<rparr>"

definition route_row_check :: "route_row \<Rightarrow> bool" where
  "route_row_check r \<longleftrightarrow>
     1 \<le> rt_next_cursor r \<and> 0 \<le> rt_current_epoch r \<and> length (rt_routing_id r) = 32 \<and>
     rt_current_epoch r < rt_next_cursor r"

definition envelope_row_check :: "envelope_row \<Rightarrow> bool" where
  "envelope_row_check r \<longleftrightarrow>
     1 \<le> er_cursor r \<and>
     1 \<le> er_version_major r \<and> er_version_major r \<le> 4294967295 \<and>
     0 \<le> er_version_minor r \<and> er_version_minor r \<le> 4294967295 \<and>
     1 \<le> er_delivery_class r \<and> er_delivery_class r \<le> 6 \<and>
     1 \<le> er_expires_at_unix_seconds r \<and>
     1 \<le> length (er_encoded_envelope r) \<and> length (er_encoded_envelope r) \<le> 1048576 \<and>
     length (er_routing_id r) = 32 \<and> length (er_envelope_id r) = 16 \<and>
     (if er_delivery_class r = 3 \<or> er_delivery_class r = 4
      then (case er_expected_parent_epoch r of None \<Rightarrow> False | Some e \<Rightarrow> 0 \<le> e)
      else er_expected_parent_epoch r = None)"

definition ack_row_check :: "ack_row \<Rightarrow> bool" where
  "ack_row_check r \<longleftrightarrow>
     1 \<le> ar_cursor r \<and> length (ar_routing_id r) = 32 \<and> length (ar_principal_id r) = 32"

definition has_route :: "log_db \<Rightarrow> bytes \<Rightarrow> bool" where
  "has_route db rid \<longleftrightarrow> rid \<in> rt_routing_id ` set (db_routes db)"

definition find_route :: "log_db \<Rightarrow> bytes \<Rightarrow> route_row option" where
  "find_route db rid = List.find (\<lambda>r. rt_routing_id r = rid) (db_routes db)"

section \<open>Column conversions of an envelope row\<close>

fun delivery_class_to_sql :: "delivery_class \<Rightarrow> int" where
  "delivery_class_to_sql KeyPackage = 1"
| "delivery_class_to_sql Welcome = 2"
| "delivery_class_to_sql GroupProposal = 3"
| "delivery_class_to_sql GroupCommit = 4"
| "delivery_class_to_sql GroupApplication = 5"
| "delivery_class_to_sql Pairing = 6"

definition delivery_class_from_sql :: "int \<Rightarrow> relay_error + delivery_class" where
  "delivery_class_from_sql value =
     (if value = 1 then Inr KeyPackage
      else if value = 2 then Inr Welcome
      else if value = 3 then Inr GroupProposal
      else if value = 4 then Inr GroupCommit
      else if value = 5 then Inr GroupApplication
      else if value = 6 then Inr Pairing
      else Inl InvalidStoredData)"

definition optional_epoch_from_row :: "int option \<Rightarrow> relay_error + u64 option" where
  "optional_epoch_from_row column = transpose_map from_sql_integer column"

definition row_metadata_matches :: "envelope_row \<Rightarrow> relay_envelope \<Rightarrow> relay_error + bool" where
  "row_metadata_matches row envelope =
     and_also (equals (and_then (sized_blob 32 (er_routing_id row))
                 (\<lambda>b. map_err RelayDomain (RoutingId_from_slice b))) (env_routing_id envelope))
    (and_also (equals (and_then (sized_blob 16 (er_envelope_id row))
                 (\<lambda>b. map_err RelayDomain (EnvelopeId_from_slice b))) (env_envelope_id envelope))
    (and_also (equals (from_sql_u32 (er_version_major row)) (major (env_version envelope)))
    (and_also (equals (from_sql_u32 (er_version_minor row)) (minor (env_version envelope)))
    (and_also (equals (delivery_class_from_sql (er_delivery_class row)) (env_delivery_class envelope))
    (and_also (equals (optional_epoch_from_row (er_expected_parent_epoch row))
                 (env_expected_parent_epoch envelope))
              (equals (from_sql_integer (er_expires_at_unix_seconds row))
                 (env_expires_at_unix_seconds envelope)))))))"

section \<open>Submission\<close>

record submit_result =
  sr_cursor :: u64
  sr_duplicate :: bool

record existing_submission =
  ex_cursor :: u64
  ex_identical :: bool

definition initialize_route :: "relay_envelope \<Rightarrow> log_db \<Rightarrow> relay_error + log_db" where
  "initialize_route envelope db =
     (let row = \<lparr>rt_routing_id = routing_id_bytes (env_routing_id envelope),
                 rt_next_cursor = 1, rt_current_epoch = 0\<rparr> in
      if \<not> route_row_check row then Inl (StorageFailure ''route initialization'')
      else if has_route db (rt_routing_id row) then Inr db
      else Inr (db\<lparr>db_routes := db_routes db @ [row]\<rparr>))"

definition find_existing ::
    "prost \<Rightarrow> log_db \<Rightarrow> relay_envelope \<Rightarrow> bytes \<Rightarrow> relay_error + existing_submission option" where
  "find_existing px db envelope encoded_envelope =
     (case List.find (\<lambda>r. er_envelope_id r = envelope_id_bytes (env_envelope_id envelope))
             (db_envelopes db) of
        None \<Rightarrow> Inr None
      | Some row \<Rightarrow>
          let envelope_length = length (er_encoded_envelope row);
              stored_encoding = er_encoded_envelope row in
          if \<not> (1 \<le> envelope_length \<and> envelope_length \<le> MAX_RELAY_ENVELOPE_BYTES)
          then Inl InvalidStoredData
          else if length stored_encoding \<noteq> envelope_length then Inl InvalidStoredData
          else
            and_then (map_err (\<lambda>_. InvalidStoredData) (decode_relay_envelope px stored_encoding))
              (\<lambda>stored_envelope.
            and_then (row_metadata_matches row stored_envelope) (\<lambda>matches.
            if \<not> matches then Inl InvalidStoredData
            else
              and_then (from_sql_integer (er_cursor row)) (\<lambda>cursor.
              Inr (Some \<lparr>ex_cursor = cursor,
                ex_identical = (stored_envelope = envelope \<and> stored_encoding = encoded_envelope)\<rparr>)))))"

text \<open>
  \<open>UPDATE relay_route SET ... WHERE routing_id = ? AND <guard> RETURNING next_cursor - 1\<close>:
  the key selects at most one row.
\<close>

fun update_route ::
    "bytes \<Rightarrow> (route_row \<Rightarrow> bool) \<Rightarrow> (route_row \<Rightarrow> route_row) \<Rightarrow> string \<Rightarrow> route_row list \<Rightarrow>
     relay_error + (int option \<times> route_row list)" where
  "update_route rid guard f operation [] = Inr (None, [])"
| "update_route rid guard f operation (r # rs) =
     (if rt_routing_id r = rid then
        if guard r then
          if route_row_check (f r) then Inr (Some (rt_next_cursor (f r) - 1), f r # rs)
          else Inl (StorageFailure operation)
        else Inr (None, r # rs)
      else and_then (update_route rid guard f operation rs) (\<lambda>(c, rs'). Inr (c, r # rs')))"

definition classify_allocation_failure :: "log_db \<Rightarrow> relay_envelope \<Rightarrow> relay_error + relay_error" where
  "classify_allocation_failure db envelope =
     and_then (ok_or (StorageFailure ''missing relay route'')
        (find_route db (routing_id_bytes (env_routing_id envelope)))) (\<lambda>row.
     and_then (from_sql_integer (rt_next_cursor row)) (\<lambda>next_cursor.
     and_then (from_sql_integer (rt_current_epoch row)) (\<lambda>current_epoch.
     if (env_delivery_class envelope = GroupCommit \<or> env_delivery_class envelope = GroupProposal) \<and>
        env_expected_parent_epoch envelope \<noteq> Some current_epoch
     then Inr StaleEpoch
     else if next_cursor \<ge> of_int i64_MAX \<or>
             (env_delivery_class envelope = GroupCommit \<and> current_epoch \<ge> of_int i64_MAX)
     then Inr SequenceExhausted
     else Inr (StorageFailure ''relay sequence allocation''))))"

definition allocate_cursor :: "relay_envelope \<Rightarrow> log_db \<Rightarrow> relay_error + (u64 \<times> log_db)" where
  "allocate_cursor envelope db =
     (let rid = routing_id_bytes (env_routing_id envelope) in
      and_then (transpose_map to_sql_integer (env_expected_parent_epoch envelope)) (\<lambda>expected_epoch.
      and_then
        (case env_delivery_class envelope of
           GroupCommit \<Rightarrow>
             and_then (ok_or StaleEpoch expected_epoch) (\<lambda>expected.
             update_route rid
               (\<lambda>r. rt_current_epoch r = expected \<and> rt_current_epoch r < i64_MAX \<and> rt_next_cursor r < i64_MAX)
               (\<lambda>r. r\<lparr>rt_current_epoch := rt_current_epoch r + 1, rt_next_cursor := rt_next_cursor r + 1\<rparr>)
               ''Commit compare-and-set'' (db_routes db))
         | GroupProposal \<Rightarrow>
             and_then (ok_or StaleEpoch expected_epoch) (\<lambda>expected.
             update_route rid
               (\<lambda>r. rt_current_epoch r = expected \<and> rt_next_cursor r < i64_MAX)
               (\<lambda>r. r\<lparr>rt_current_epoch := rt_current_epoch r, rt_next_cursor := rt_next_cursor r + 1\<rparr>)
               ''Proposal compare-and-set'' (db_routes db))
         | _ \<Rightarrow>
             update_route rid
               (\<lambda>r. rt_next_cursor r < i64_MAX)
               (\<lambda>r. r\<lparr>rt_next_cursor := rt_next_cursor r + 1\<rparr>)
               ''cursor allocation'' (db_routes db))
        (\<lambda>(cursor, routes).
           let db' = db\<lparr>db_routes := routes\<rparr> in
           and_then (transpose_map from_sql_integer cursor) (\<lambda>cursor.
           case cursor of
             Some c \<Rightarrow> Inr (c, db')
           | None \<Rightarrow> and_then (classify_allocation_failure db' envelope) Inl))))"

definition insert_envelope :: "relay_envelope \<Rightarrow> bytes \<Rightarrow> u64 \<Rightarrow> log_db \<Rightarrow> relay_error + log_db" where
  "insert_envelope envelope encoded_envelope cursor db =
     and_then (to_sql_integer cursor) (\<lambda>cursor.
     and_then (transpose_map to_sql_integer (env_expected_parent_epoch envelope)) (\<lambda>expected_parent_epoch.
     and_then (to_sql_integer (env_expires_at_unix_seconds envelope)) (\<lambda>expires.
     let row = \<lparr>er_routing_id = routing_id_bytes (env_routing_id envelope),
                er_cursor = cursor,
                er_envelope_id = envelope_id_bytes (env_envelope_id envelope),
                er_version_major = int (unat (major (env_version envelope))),
                er_version_minor = int (unat (minor (env_version envelope))),
                er_delivery_class = delivery_class_to_sql (env_delivery_class envelope),
                er_expected_parent_epoch = expected_parent_epoch,
                er_expires_at_unix_seconds = expires,
                er_encoded_envelope = encoded_envelope\<rparr> in
     if envelope_row_check row \<and> has_route db (er_routing_id row) \<and>
        (\<forall>r \<in> set (db_envelopes db). er_envelope_id r \<noteq> er_envelope_id row \<and>
           \<not> (er_routing_id r = er_routing_id row \<and> er_cursor r = er_cursor row))
     then Inr (db\<lparr>db_envelopes := db_envelopes db @ [row]\<rparr>)
     else Inl (StorageFailure ''envelope insert''))))"

text \<open>From the begin to the commit of the submission transaction.\<close>

definition submit_transaction ::
    "prost \<Rightarrow> relay_envelope \<Rightarrow> bytes \<Rightarrow> u64 \<Rightarrow> log_db \<Rightarrow> relay_error + ((relay_error + submit_result) \<times> log_db)" where
  "submit_transaction px envelope encoded_envelope now_unix_seconds db =
     and_then (initialize_route envelope db) (\<lambda>db.
     and_then (find_existing px db envelope encoded_envelope) (\<lambda>existing.
     case existing of
       Some existing \<Rightarrow>
         if \<not> ex_identical existing then Inl IdempotencyConflict
         else Inr (Inr \<lparr>sr_cursor = ex_cursor existing, sr_duplicate = True\<rparr>, db)
     | None \<Rightarrow>
         if env_expires_at_unix_seconds envelope \<le> now_unix_seconds then Inl ExpiredEnvelope
         else
           and_then (allocate_cursor envelope db) (\<lambda>(cursor, db).
           and_then (insert_envelope envelope encoded_envelope cursor db) (\<lambda>db.
           Inr (Inr \<lparr>sr_cursor = cursor, sr_duplicate = False\<rparr>, db)))))"

definition submit_encoded ::
    "prost \<Rightarrow> relay_envelope \<Rightarrow> bytes \<Rightarrow> u64 \<Rightarrow> log_db \<Rightarrow> (relay_error + submit_result) \<times> log_db" where
  "submit_encoded px envelope encoded_envelope now_unix_seconds db =
     (case decode_relay_envelope px encoded_envelope of
        Inl e \<Rightarrow> (Inl (RelayProtocol e), db)
      | Inr decoded \<Rightarrow>
          if decoded \<noteq> envelope then (Inl EnvelopeEncodingMismatch, db)
          else transact (submit_transaction px envelope encoded_envelope now_unix_seconds) db)"

definition submit ::
    "prost \<Rightarrow> relay_envelope \<Rightarrow> u64 \<Rightarrow> log_db \<Rightarrow> (relay_error + submit_result) \<times> log_db" where
  "submit px envelope now_unix_seconds db =
     (case encode_relay_envelope px envelope of
        Inl e \<Rightarrow> (Inl (RelayProtocol e), db)
      | Inr encoded \<Rightarrow> submit_encoded px envelope encoded now_unix_seconds db)"

section \<open>Replay\<close>

definition REPLAY_PAGE_FIXED_WIRE_BUDGET :: usize where "REPLAY_PAGE_FIXED_WIRE_BUDGET = 64"
definition STORED_ENVELOPE_WIRE_OVERHEAD_BUDGET :: usize where
  "STORED_ENVELOPE_WIRE_OVERHEAD_BUDGET = 32"

record replay_selection =
  sel_last_cursor :: "u64 option"
  sel_count :: usize
  sel_has_more :: bool

text \<open>The loop over the sizing rows \<open>(cursor, envelope_length)\<close>, stopping at the first that does not fit.\<close>

fun select_rows_from ::
    "usize \<Rightarrow> usize \<Rightarrow> u64 option \<Rightarrow> usize \<Rightarrow> (int \<times> int) list \<Rightarrow> relay_error + replay_selection" where
  "select_rows_from limit used_bytes last_cursor count [] =
     Inr \<lparr>sel_last_cursor = last_cursor, sel_count = count, sel_has_more = False\<rparr>"
| "select_rows_from limit used_bytes last_cursor count ((cursor, len) # rows) =
     (if len < 0 then Inl InvalidStoredData
      else let envelope_length = nat len in
        if \<not> (1 \<le> envelope_length \<and> envelope_length \<le> MAX_RELAY_ENVELOPE_BYTES)
        then Inl InvalidStoredData
        else
          and_then (ok_or InvalidStoredData
             (checked_add_usize envelope_length STORED_ENVELOPE_WIRE_OVERHEAD_BUDGET)) (\<lambda>row_budget.
          and_then (ok_or InvalidStoredData (checked_add_usize used_bytes row_budget)) (\<lambda>next_used_bytes.
          if count = limit \<or> next_used_bytes > MAX_REPLAY_PAGE_BYTES
          then Inr \<lparr>sel_last_cursor = last_cursor, sel_count = count, sel_has_more = True\<rparr>
          else
            and_then (from_sql_integer cursor) (\<lambda>cursor.
            select_rows_from limit next_used_bytes (Some cursor) (count + 1) rows))))"

definition select_replay_rows :: "(int \<times> int) list \<Rightarrow> usize \<Rightarrow> relay_error + replay_selection" where
  "select_replay_rows rows limit =
     and_then (select_rows_from limit REPLAY_PAGE_FIXED_WIRE_BUDGET None 0 rows) (\<lambda>selection.
     if sel_last_cursor selection = None \<and> rows \<noteq> [] then Inl InvalidStoredData
     else Inr selection)"

record replay_entry =
  ent_encoded_envelope :: bytes
  ent_cursor :: u64

record replay_entries =
  ents_entries :: "replay_entry list"
  ents_next_cursor :: u64
  ents_has_more :: bool

definition replay_entry_from_row :: "prost \<Rightarrow> envelope_row \<Rightarrow> relay_error + replay_entry" where
  "replay_entry_from_row px row =
     (let encoded_envelope = er_encoded_envelope row in
      if \<not> (1 \<le> length encoded_envelope \<and> length encoded_envelope \<le> MAX_RELAY_ENVELOPE_BYTES)
      then Inl InvalidStoredData
      else
        and_then (map_err (\<lambda>_. InvalidStoredData) (decode_relay_envelope px encoded_envelope)) (\<lambda>envelope.
        and_then (row_metadata_matches row envelope) (\<lambda>matches.
        if \<not> matches then Inl InvalidStoredData
        else
          and_then (from_sql_integer (er_cursor row)) (\<lambda>cursor.
          Inr \<lparr>ent_encoded_envelope = encoded_envelope, ent_cursor = cursor\<rparr>))))"

text \<open>\<open>... WHERE routing_id = ? AND cursor > ? ORDER BY cursor\<close>\<close>

definition rows_after :: "log_db \<Rightarrow> bytes \<Rightarrow> int \<Rightarrow> envelope_row list" where
  "rows_after db rid after =
     sort_key er_cursor (filter (\<lambda>r. er_routing_id r = rid \<and> after < er_cursor r) (db_envelopes db))"

definition load_replay_entries ::
    "prost \<Rightarrow> log_db \<Rightarrow> replay_request \<Rightarrow> relay_error + replay_entries" where
  "load_replay_entries px db request =
     (let limit = unat (rr_limit request); rid = routing_id_bytes (rr_routing_id request) in
      and_then (to_sql_integer (rr_after_cursor request)) (\<lambda>after.
      and_then (ensure (limit + 1 < 2 ^ 63) SequenceExhausted) (\<lambda>_.
      let size_rows = map (\<lambda>r. (er_cursor r, int (length (er_encoded_envelope r))))
                        (take (limit + 1) (rows_after db rid after)) in
      and_then (select_replay_rows size_rows limit) (\<lambda>selection.
      case sel_last_cursor selection of
        None \<Rightarrow> Inr \<lparr>ents_entries = [], ents_next_cursor = rr_after_cursor request,
                     ents_has_more = False\<rparr>
      | Some last_cursor \<Rightarrow>
          and_then (to_sql_integer last_cursor) (\<lambda>last.
          and_then (ensure (sel_count selection < 2 ^ 63) SequenceExhausted) (\<lambda>_.
          let rows = take (sel_count selection)
                       (filter (\<lambda>r. er_cursor r \<le> last) (rows_after db rid after)) in
          and_then (collect (replay_entry_from_row px) rows) (\<lambda>entries.
          Inr \<lparr>ents_entries = entries,
               ents_next_cursor =
                 (if entries = [] then rr_after_cursor request else ent_cursor (List.last entries)),
               ents_has_more = sel_has_more selection\<rparr>)))))))"

definition replay :: "prost \<Rightarrow> log_db \<Rightarrow> replay_request \<Rightarrow> relay_error + replay_page" where
  "replay px db request =
     and_then (load_replay_entries px db request) (\<lambda>page.
     and_then (collect (\<lambda>entry.
        and_then (map_err (\<lambda>_. InvalidStoredData)
          (decode_relay_envelope px (ent_encoded_envelope entry))) (\<lambda>envelope.
        map_err RelayDomain (StoredRelayEnvelope_new envelope (ent_cursor entry)))) (ents_entries page)) (\<lambda>envelopes.
     map_err RelayDomain (ReplayPage_new envelopes (ents_next_cursor page) (ents_has_more page))))"

record encoded_replay_page =
  erp_bytes :: bytes
  erp_next_cursor :: u64
  erp_has_more :: bool
  erp_envelope_count :: usize

definition EncodedReplayPage_new ::
    "prost \<Rightarrow> bytes \<Rightarrow> u64 \<Rightarrow> u64 \<Rightarrow> bool \<Rightarrow> usize \<Rightarrow> relay_error + encoded_replay_page" where
  "EncodedReplayPage_new px bs after_cursor next_cursor has_more envelope_count =
     (if length bs > MAX_REPLAY_PAGE_BYTES \<or> envelope_count > MAX_REPLAY_PAGE_SIZE
      then Inl InvalidStoredData
      else
        and_then (map_err RelayProtocol (decode_replay_page px bs)) (\<lambda>decoded.
        if page_next_cursor decoded \<noteq> next_cursor \<or> page_has_more decoded \<noteq> has_more \<or>
           length (page_envelopes decoded) \<noteq> envelope_count \<or>
           (has_more \<and> envelope_count = 0) \<or>
           (envelope_count = 0 \<and> next_cursor \<noteq> after_cursor) \<or>
           (envelope_count > 0 \<and> next_cursor \<le> after_cursor)
        then Inl InvalidStoredData
        else Inr \<lparr>erp_bytes = bs, erp_next_cursor = next_cursor, erp_has_more = has_more,
                  erp_envelope_count = envelope_count\<rparr>))"

definition replay_encoded :: "prost \<Rightarrow> log_db \<Rightarrow> replay_request \<Rightarrow> relay_error + encoded_replay_page" where
  "replay_encoded px db request =
     and_then (load_replay_entries px db request) (\<lambda>page.
     let envelopes = map (\<lambda>e. (ent_encoded_envelope e, ent_cursor e)) (ents_entries page) in
     and_then (map_err RelayProtocol
        (encode_replay_page_preserving px envelopes (ents_next_cursor page) (ents_has_more page))) (\<lambda>bs.
     EncodedReplayPage_new px bs (rr_after_cursor request) (ents_next_cursor page)
       (ents_has_more page) (length (ents_entries page))))"

section \<open>Acknowledgment\<close>

text \<open>The two statements run outside a transaction: first the check, then the upsert.\<close>

definition acknowledge_check :: "acknowledge_request \<Rightarrow> log_db \<Rightarrow> relay_error + unit" where
  "acknowledge_check request db =
     and_then (transpose_map from_sql_integer
       (map_option (\<lambda>r. rt_next_cursor r - 1) (find_route db (routing_id_bytes (ack_routing_id request))))) (\<lambda>highest.
     ensure (ack_cursor request \<le> (case highest of None \<Rightarrow> 0 | Some h \<Rightarrow> h)) InvalidAcknowledgment)"

fun upsert_ack :: "ack_row \<Rightarrow> ack_row list \<Rightarrow> int \<times> ack_row list" where
  "upsert_ack row [] = (ar_cursor row, [row])"
| "upsert_ack row (r # rs) =
     (if ar_routing_id r = ar_routing_id row \<and> ar_principal_id r = ar_principal_id row
      then (max (ar_cursor r) (ar_cursor row), r\<lparr>ar_cursor := max (ar_cursor r) (ar_cursor row)\<rparr> # rs)
      else (case upsert_ack row rs of (c, rs') \<Rightarrow> (c, r # rs')))"

definition acknowledge_upsert ::
    "relay_principal_id \<Rightarrow> acknowledge_request \<Rightarrow> log_db \<Rightarrow> (relay_error + u64) \<times> log_db" where
  "acknowledge_upsert p request db =
     transact (\<lambda>db.
       and_then (to_sql_integer (ack_cursor request)) (\<lambda>cursor.
       let row = \<lparr>ar_routing_id = routing_id_bytes (ack_routing_id request),
                  ar_principal_id = principal_id_bytes p, ar_cursor = cursor\<rparr> in
       if ack_row_check row \<and> has_route db (ar_routing_id row)
       then (case upsert_ack row (db_acks db) of (c, acks) \<Rightarrow>
               Inr (from_sql_integer c, db\<lparr>db_acks := acks\<rparr>))
       else Inl (StorageFailure ''acknowledgment update''))) db"

definition acknowledge ::
    "relay_principal_id \<Rightarrow> acknowledge_request \<Rightarrow> log_db \<Rightarrow> (relay_error + u64) \<times> log_db" where
  "acknowledge p request db =
     (case acknowledge_check request db of
        Inl e \<Rightarrow> (Inl e, db)
      | Inr _ \<Rightarrow> acknowledge_upsert p request db)"

section \<open>What a successful submission does\<close>

definition sql_range :: "relay_envelope \<Rightarrow> bool" where
  "sql_range e \<longleftrightarrow>
     unat (env_expires_at_unix_seconds e) < 2 ^ 63 \<and>
     (case env_expected_parent_epoch e of None \<Rightarrow> True | Some p \<Rightarrow> unat p < 2 ^ 63)"

definition envelope_row_of :: "relay_envelope \<Rightarrow> bytes \<Rightarrow> int \<Rightarrow> envelope_row" where
  "envelope_row_of e encoded cursor =
     \<lparr>er_routing_id = routing_id_bytes (env_routing_id e), er_cursor = cursor,
      er_envelope_id = envelope_id_bytes (env_envelope_id e),
      er_version_major = int (unat (major (env_version e))),
      er_version_minor = int (unat (minor (env_version e))),
      er_delivery_class = delivery_class_to_sql (env_delivery_class e),
      er_expected_parent_epoch = map_option (\<lambda>p. int (unat p)) (env_expected_parent_epoch e),
      er_expires_at_unix_seconds = int (unat (env_expires_at_unix_seconds e)),
      er_encoded_envelope = encoded\<rparr>"

definition advance_route :: "relay_envelope \<Rightarrow> route_row \<Rightarrow> route_row" where
  "advance_route e r =
     r\<lparr>rt_current_epoch := rt_current_epoch r + (if env_delivery_class e = GroupCommit then 1 else 0),
       rt_next_cursor := rt_next_cursor r + 1\<rparr>"

definition with_route :: "bytes \<Rightarrow> log_db \<Rightarrow> log_db" where
  "with_route rid db =
     (if has_route db rid then db
      else db\<lparr>db_routes := db_routes db @ [\<lparr>rt_routing_id = rid, rt_next_cursor = 1, rt_current_epoch = 0\<rparr>]\<rparr>)"

lemma transpose_map_to_sql [simp]:
  "transpose_map to_sql_integer p = Inr q \<longleftrightarrow>
     (case p of None \<Rightarrow> True | Some v \<Rightarrow> unat v < 2 ^ 63) \<and> q = map_option (\<lambda>v. int (unat v)) p"
  by (cases p) auto

lemma initialize_route_eq_Inr:
  "initialize_route e db = Inr db' \<longleftrightarrow>
     length (routing_id_bytes (env_routing_id e)) = 32 \<and> db' = with_route (routing_id_bytes (env_routing_id e)) db"
  by (auto simp: initialize_route_def with_route_def route_row_check_def Let_def)

lemma update_route_Some:
  assumes "update_route rid guard f op rs = Inr (Some c, rs')"
  obtains us r vs where "rs = us @ r # vs" "rid \<notin> rt_routing_id ` set us" "rt_routing_id r = rid"
    "guard r" "route_row_check (f r)" "c = rt_next_cursor (f r) - 1" "rs' = us @ f r # vs"
  using assms
proof (induction rs arbitrary: rs' thesis)
  case (Cons x rs)
  show ?case
  proof (cases "rt_routing_id x = rid")
    case True
    with Cons.prems(2) show ?thesis
      by (intro Cons.prems(1) [of "[]" x rs]) (auto split: if_splits)
  next
    case False
    with Cons.prems(2) obtain ts where ts: "update_route rid guard f op rs = Inr (Some c, ts)"
      "rs' = x # ts" by auto
    from ts(1) obtain us r vs where parts: "rs = us @ r # vs" "rid \<notin> rt_routing_id ` set us"
      "rt_routing_id r = rid" "guard r" "route_row_check (f r)" "c = rt_next_cursor (f r) - 1"
      "ts = us @ f r # vs"
      by (rule Cons.IH [rotated])
    with False ts(2) show ?thesis by (intro Cons.prems(1) [of "x # us" r vs]) auto
  qed
qed simp

lemma find_split:
  "List.find P xs = Some x \<longleftrightarrow> (\<exists>us vs. xs = us @ x # vs \<and> P x \<and> (\<forall>u \<in> set us. \<not> P u))"
proof (induction xs)
  case (Cons y xs)
  show ?case
  proof (cases "P y")
    case True
    then show ?thesis by (auto simp: Cons_eq_append_conv)
  next
    case False
    have "(\<exists>us vs. y # xs = us @ x # vs \<and> P x \<and> (\<forall>u \<in> set us. \<not> P u)) \<longleftrightarrow>
        (\<exists>us vs. xs = us @ x # vs \<and> P x \<and> (\<forall>u \<in> set us. \<not> P u))"
      using False by (auto simp: Cons_eq_append_conv) (metis set_ConsD)
    with False Cons.IH show ?thesis by simp
  qed
qed simp

text \<open>The guards and the new row of the three UPDATE statements.\<close>

definition allocation_guard :: "relay_envelope \<Rightarrow> route_row \<Rightarrow> bool" where
  "allocation_guard e r \<longleftrightarrow>
     rt_next_cursor r < i64_MAX \<and>
     (env_delivery_class e = GroupCommit \<longrightarrow> rt_current_epoch r < i64_MAX) \<and>
     (env_delivery_class e = GroupCommit \<or> env_delivery_class e = GroupProposal \<longrightarrow>
        map_option (\<lambda>p. int (unat p)) (env_expected_parent_epoch e) = Some (rt_current_epoch r))"

lemma allocate_cursor_unfold:
  assumes "env_delivery_class e = GroupCommit \<or> env_delivery_class e = GroupProposal \<longrightarrow>
      env_expected_parent_epoch e \<noteq> None"
    and "case env_expected_parent_epoch e of None \<Rightarrow> True | Some v \<Rightarrow> unat v < 2 ^ 63"
  shows "\<exists>op. allocate_cursor e db =
    and_then (update_route (routing_id_bytes (env_routing_id e)) (allocation_guard e) (advance_route e) op (db_routes db))
      (\<lambda>(cursor, routes).
           let db' = db\<lparr>db_routes := routes\<rparr> in
           and_then (transpose_map from_sql_integer cursor) (\<lambda>cursor.
           case cursor of
             Some c \<Rightarrow> Inr (c, db')
           | None \<Rightarrow> and_then (classify_allocation_failure db' e) Inl))"
proof -
  have commit: "allocation_guard e = (\<lambda>r. rt_current_epoch r = int (unat p) \<and> rt_current_epoch r < i64_MAX \<and> rt_next_cursor r < i64_MAX)"
    if "env_delivery_class e = GroupCommit" "env_expected_parent_epoch e = Some p" for p
    using that by (auto simp: allocation_guard_def fun_eq_iff)
  have proposal: "allocation_guard e = (\<lambda>r. rt_current_epoch r = int (unat p) \<and> rt_next_cursor r < i64_MAX)"
    if "env_delivery_class e = GroupProposal" "env_expected_parent_epoch e = Some p" for p
    using that by (auto simp: allocation_guard_def fun_eq_iff)
  have other: "allocation_guard e = (\<lambda>r. rt_next_cursor r < i64_MAX)"
    if "env_delivery_class e \<noteq> GroupCommit" "env_delivery_class e \<noteq> GroupProposal"
    using that by (auto simp: allocation_guard_def fun_eq_iff)
  have adv: "advance_route e = (\<lambda>r. r\<lparr>rt_current_epoch := rt_current_epoch r + 1, rt_next_cursor := rt_next_cursor r + 1\<rparr>)"
    if "env_delivery_class e = GroupCommit"
    using that by (auto simp: advance_route_def fun_eq_iff)
  have keep: "advance_route e = (\<lambda>r. r\<lparr>rt_current_epoch := rt_current_epoch r, rt_next_cursor := rt_next_cursor r + 1\<rparr>)"
      "advance_route e = (\<lambda>r. r\<lparr>rt_next_cursor := rt_next_cursor r + 1\<rparr>)"
    if "env_delivery_class e \<noteq> GroupCommit"
    using that by (auto simp: advance_route_def fun_eq_iff)
  have range: "transpose_map to_sql_integer (env_expected_parent_epoch e)
      = Inr (map_option (\<lambda>v. int (unat v)) (env_expected_parent_epoch e))"
    using assms(2) by simp
  show ?thesis
  proof (cases "env_delivery_class e")
    case GroupCommit
    then obtain p where p: "env_expected_parent_epoch e = Some p" using assms(1) by auto
    show ?thesis
      unfolding allocate_cursor_def range commit [OF GroupCommit p] adv [OF GroupCommit] Let_def
      using GroupCommit p by auto
  next
    case GroupProposal
    then obtain p where p: "env_expected_parent_epoch e = Some p" using assms(1) by auto
    show ?thesis
      unfolding allocate_cursor_def range proposal [OF GroupProposal p] Let_def
      using GroupProposal p keep(1) by auto
  qed (unfold allocate_cursor_def range Let_def, use other keep(2) in auto)
qed

lemma parent_epoch_iff:
  "relay_envelope_ok e \<Longrightarrow>
   (env_expected_parent_epoch e \<noteq> None) = (env_delivery_class e = GroupCommit \<or> env_delivery_class e = GroupProposal)"
  by (cases "env_delivery_class e") (auto simp: relay_envelope_ok_def)

lemma allocate_cursor_eq_Inr:
  assumes "allocate_cursor e db = Inr (cursor, db')" and "relay_envelope_ok e"
  obtains us r vs where "db_routes db = us @ r # vs"
    "rt_routing_id r = routing_id_bytes (env_routing_id e)"
    "routing_id_bytes (env_routing_id e) \<notin> rt_routing_id ` set us"
    "allocation_guard e r" "route_row_check (advance_route e r)"
    "cursor = of_int (rt_next_cursor r)"
    "case env_expected_parent_epoch e of None \<Rightarrow> True | Some v \<Rightarrow> unat v < 2 ^ 63"
    "db' = db\<lparr>db_routes := us @ advance_route e r # vs\<rparr>"
proof -
  have range: "case env_expected_parent_epoch e of None \<Rightarrow> True | Some v \<Rightarrow> unat v < 2 ^ 63"
    using assms(1) by (auto simp: allocate_cursor_def Let_def)
  from allocate_cursor_unfold [OF _ range, of db] obtain op where
    "allocate_cursor e db =
      and_then (update_route (routing_id_bytes (env_routing_id e)) (allocation_guard e) (advance_route e) op (db_routes db))
        (\<lambda>(cursor, routes).
             let db' = db\<lparr>db_routes := routes\<rparr> in
             and_then (transpose_map from_sql_integer cursor) (\<lambda>cursor.
             case cursor of
               Some c \<Rightarrow> Inr (c, db')
             | None \<Rightarrow> and_then (classify_allocation_failure db' e) Inl))"
    using parent_epoch_iff [OF assms(2)] by blast
  with assms(1) obtain c rs where upd:
    "update_route (routing_id_bytes (env_routing_id e)) (allocation_guard e) (advance_route e) op (db_routes db)
       = Inr (Some c, rs)" "from_sql_integer c = Inr cursor" "db' = db\<lparr>db_routes := rs\<rparr>"
    by (auto simp: Let_def transpose_map_eq_Inr split: option.splits)
  from upd(1) show ?thesis
    by (rule update_route_Some) (rule that, use upd range in \<open>auto simp: advance_route_def\<close>)
qed

lemma insert_envelope_eq_Inr:
  assumes "insert_envelope e encoded cursor db = Inr db'"
  shows "sql_range e \<and> unat cursor < 2 ^ 63 \<and>
    envelope_row_check (envelope_row_of e encoded (int (unat cursor))) \<and>
    has_route db (routing_id_bytes (env_routing_id e)) \<and>
    (\<forall>r \<in> set (db_envelopes db). er_envelope_id r \<noteq> envelope_id_bytes (env_envelope_id e)) \<and>
    db' = db\<lparr>db_envelopes := db_envelopes db @ [envelope_row_of e encoded (int (unat cursor))]\<rparr>"
  using assms
  by (auto simp: insert_envelope_def Let_def sql_range_def envelope_row_of_def split: if_splits)

lemma find_existing_None:
  "find_existing px db e encoded = Inr None \<Longrightarrow>
     \<forall>r \<in> set (db_envelopes db). er_envelope_id r \<noteq> envelope_id_bytes (env_envelope_id e)"
  by (auto simp: find_existing_def find_None_iff Let_def split: option.splits if_splits)

lemma find_existing_Some:
  assumes "find_existing px db e encoded = Inr (Some x)"
  obtains row where "row \<in> set (db_envelopes db)"
    "er_envelope_id row = envelope_id_bytes (env_envelope_id e)"
    "ex_cursor x = of_int (er_cursor row)"
    "ex_identical x \<longleftrightarrow> er_encoded_envelope row = encoded \<and> decode_relay_envelope px encoded = Inr e"
proof -
  from assms obtain row d where row:
    "List.find (\<lambda>r. er_envelope_id r = envelope_id_bytes (env_envelope_id e)) (db_envelopes db) = Some row"
    "decode_relay_envelope px (er_encoded_envelope row) = Inr d" "ex_cursor x = of_int (er_cursor row)"
    "ex_identical x \<longleftrightarrow> d = e \<and> er_encoded_envelope row = encoded"
    by (auto simp: find_existing_def Let_def split: option.splits if_splits)
  from row(1) have "row \<in> set (db_envelopes db)"
    "er_envelope_id row = envelope_id_bytes (env_envelope_id e)"
    by (auto simp: find_Some_iff)
  with row(2-) show ?thesis by (intro that) auto
qed

text \<open>The log after a fresh acceptance.\<close>

definition accepted ::
    "relay_envelope \<Rightarrow> bytes \<Rightarrow> route_row list \<Rightarrow> route_row \<Rightarrow> route_row list \<Rightarrow> log_db \<Rightarrow> log_db" where
  "accepted e encoded us r vs db =
     db\<lparr>db_routes := us @ advance_route e r # vs,
        db_envelopes := db_envelopes db @ [envelope_row_of e encoded (rt_next_cursor r)]\<rparr>"

lemma submit_encoded_Inr:
  assumes "submit_encoded px e encoded now db = (Inr res, db')"
  obtains
    (duplicate) row where "decode_relay_envelope px encoded = Inr e" "row \<in> set (db_envelopes db)"
      "er_envelope_id row = envelope_id_bytes (env_envelope_id e)" "er_encoded_envelope row = encoded"
      "res = \<lparr>sr_cursor = of_int (er_cursor row), sr_duplicate = True\<rparr>"
      "db' = with_route (routing_id_bytes (env_routing_id e)) db"
  | (fresh) us r vs where "decode_relay_envelope px encoded = Inr e"
      "\<forall>row \<in> set (db_envelopes db). er_envelope_id row \<noteq> envelope_id_bytes (env_envelope_id e)"
      "now < env_expires_at_unix_seconds e" "sql_range e"
      "db_routes (with_route (routing_id_bytes (env_routing_id e)) db) = us @ r # vs"
      "rt_routing_id r = routing_id_bytes (env_routing_id e)"
      "routing_id_bytes (env_routing_id e) \<notin> rt_routing_id ` set us"
      "allocation_guard e r" "route_row_check (advance_route e r)" "0 \<le> rt_next_cursor r"
      "envelope_row_check (envelope_row_of e encoded (rt_next_cursor r))"
      "res = \<lparr>sr_cursor = of_int (rt_next_cursor r), sr_duplicate = False\<rparr>"
      "db' = accepted e encoded us r vs (with_route (routing_id_bytes (env_routing_id e)) db)"
proof -
  let ?rid = "routing_id_bytes (env_routing_id e)"
  let ?db = "with_route ?rid db"
  have same: "db_envelopes ?db = db_envelopes db" by (simp add: with_route_def)
  from assms have dec: "decode_relay_envelope px encoded = Inr e"
    by (auto simp: submit_encoded_def split: sum.splits if_splits)
  then have ok: "relay_envelope_ok e" by (simp add: decode_relay_envelope_eq_Inr)
  from assms dec have body: "submit_transaction px e encoded now db = Inr (Inr res, db')"
    by (auto simp: submit_encoded_def intro: transact_eq_Inr)
  have init: "initialize_route e db = Inr ?db"
    using ok by (simp add: initialize_route_eq_Inr relay_envelope_ok_def)
  from body init obtain existing where existing: "find_existing px ?db e encoded = Inr existing"
    by (auto simp: submit_transaction_def)
  show ?thesis
  proof (cases existing)
    case (Some x)
    with existing body init have x: "find_existing px ?db e encoded = Inr (Some x)" "ex_identical x"
      "res = \<lparr>sr_cursor = ex_cursor x, sr_duplicate = True\<rparr>" "db' = ?db"
      by (auto simp: submit_transaction_def split: if_splits)
    from x(1) show ?thesis
      by (rule find_existing_Some) (rule duplicate, use x dec same in auto)
  next
    case None
    with existing body init obtain cursor mid where fresh': "now < env_expires_at_unix_seconds e"
      "allocate_cursor e ?db = Inr (cursor, mid)" "insert_envelope e encoded cursor mid = Inr db'"
      "res = \<lparr>sr_cursor = cursor, sr_duplicate = False\<rparr>"
      by (auto simp: submit_transaction_def split: if_splits)
    from fresh'(2) ok obtain us r vs where alloc: "db_routes ?db = us @ r # vs" "rt_routing_id r = ?rid"
      "?rid \<notin> rt_routing_id ` set us" "allocation_guard e r" "route_row_check (advance_route e r)"
      "cursor = of_int (rt_next_cursor r)" "mid = ?db\<lparr>db_routes := us @ advance_route e r # vs\<rparr>"
      by (rule allocate_cursor_eq_Inr)
    have nonneg: "0 \<le> rt_next_cursor r" and "rt_next_cursor r < 2 ^ 63"
      using alloc(4,5) by (auto simp: route_row_check_def advance_route_def allocation_guard_def i64_MAX_def)
    then have cursor: "int (unat cursor) = rt_next_cursor r"
      unfolding alloc(6) by (simp add: unat_of_sql)
    note ins = insert_envelope_eq_Inr [OF fresh'(3), unfolded cursor]
    show ?thesis
    proof (rule fresh)
      show "\<forall>row \<in> set (db_envelopes db). er_envelope_id row \<noteq> envelope_id_bytes (env_envelope_id e)"
        using find_existing_None [of px ?db e encoded] existing None same by auto
      show "db' = accepted e encoded us r vs ?db"
        using ins alloc(7) by (simp add: accepted_def same)
    qed (use fresh' alloc ins nonneg dec in auto)
  qed
qed

end
