(* ===== verification/Relay_Log_Inv.thy ===== *)
theory Relay_Log_Inv
  imports Relay_Log
begin

text \<open>
  The invariant of the relay log and that every operation keeps it: contiguous cursors
  per route, one accepted commit per epoch, unique envelope identifiers, rows that agree
  with the envelope they encode, and acknowledgments below the next cursor.
\<close>

section \<open>The log invariant\<close>

definition route_rows :: "log_db \<Rightarrow> bytes \<Rightarrow> envelope_row list" where
  "route_rows db rid = filter (\<lambda>r. er_routing_id r = rid) (db_envelopes db)"

definition row_ok :: "prost \<Rightarrow> envelope_row \<Rightarrow> bool" where
  "row_ok px row =
     (case decode_relay_envelope px (er_encoded_envelope row) of
        Inl _ \<Rightarrow> False
      | Inr e \<Rightarrow> sql_range e \<and> er_encoded_envelope row \<noteq> [] \<and>
          row = envelope_row_of e (er_encoded_envelope row) (er_cursor row))"

text \<open>
  The cursors of a route are exactly 1, 2, ... below its next cursor, in the order of
  acceptance, and its accepted commits name the parent epochs 0, 1, ... below its epoch.
\<close>

definition route_ok :: "log_db \<Rightarrow> route_row \<Rightarrow> bool" where
  "route_ok db r \<longleftrightarrow>
     route_row_check r \<and> rt_next_cursor r \<le> i64_MAX \<and>
     map er_cursor (route_rows db (rt_routing_id r)) = [1..rt_next_cursor r - 1] \<and>
     map er_expected_parent_epoch
       (filter (\<lambda>x. er_delivery_class x = 4) (route_rows db (rt_routing_id r)))
       = map Some [0..rt_current_epoch r - 1]"

definition ack_key :: "ack_row \<Rightarrow> bytes \<times> bytes" where
  "ack_key a = (ar_routing_id a, ar_principal_id a)"

definition ack_ok :: "log_db \<Rightarrow> ack_row \<Rightarrow> bool" where
  "ack_ok db a \<longleftrightarrow> ack_row_check a \<and>
     (\<exists>r \<in> set (db_routes db). rt_routing_id r = ar_routing_id a \<and> ar_cursor a \<le> rt_next_cursor r - 1)"

definition log_inv :: "prost \<Rightarrow> log_db \<Rightarrow> bool" where
  "log_inv px db \<longleftrightarrow>
     distinct (map rt_routing_id (db_routes db)) \<and>
     (\<forall>r \<in> set (db_routes db). route_ok db r) \<and>
     distinct (map er_envelope_id (db_envelopes db)) \<and>
     (\<forall>row \<in> set (db_envelopes db). row_ok px row \<and> has_route db (er_routing_id row)) \<and>
     distinct (map ack_key (db_acks db)) \<and>
     (\<forall>a \<in> set (db_acks db). ack_ok db a)"

lemma log_inv_empty [simp]: "log_inv px empty_log"
  by (simp add: log_inv_def empty_log_def)

lemma row_okE:
  assumes "row_ok px row"
  obtains e where "decode_relay_envelope px (er_encoded_envelope row) = Inr e" "sql_range e"
    "er_encoded_envelope row \<noteq> []" "row = envelope_row_of e (er_encoded_envelope row) (er_cursor row)"
  using assms by (auto simp: row_ok_def split: sum.splits)

lemma has_route_with_route [simp]:
  "has_route (with_route rid db) rid' \<longleftrightarrow> has_route db rid' \<or> rid' = rid"
  by (auto simp: with_route_def has_route_def)

lemma route_rows_with_route [simp]: "route_rows (with_route rid db) rid' = route_rows db rid'"
  by (simp add: with_route_def route_rows_def)

lemma route_rows_fresh: "log_inv px db \<Longrightarrow> \<not> has_route db rid \<Longrightarrow> route_rows db rid = []"
  by (auto simp: log_inv_def route_rows_def filter_empty_conv)

lemma log_inv_with_route:
  assumes "log_inv px db" and "length rid = 32"
  shows "log_inv px (with_route rid db)"
proof (cases "has_route db rid")
  case True
  then show ?thesis using assms by (simp add: with_route_def)
next
  case False
  let ?db = "with_route rid db"
  have fields: "db_routes ?db = db_routes db @ [\<lparr>rt_routing_id = rid, rt_next_cursor = 1, rt_current_epoch = 0\<rparr>]"
    "db_envelopes ?db = db_envelopes db" "db_acks ?db = db_acks db"
    using False by (simp_all add: with_route_def)
  have "rid \<notin> rt_routing_id ` set (db_routes db)" using False by (simp add: has_route_def)
  moreover have "route_ok ?db r" if "r \<in> set (db_routes db)" for r
    using assms(1) that by (simp add: log_inv_def route_ok_def)
  moreover have "route_ok ?db \<lparr>rt_routing_id = rid, rt_next_cursor = 1, rt_current_epoch = 0\<rparr>"
    using assms route_rows_fresh [OF assms(1) False]
    by (simp add: route_ok_def route_row_check_def i64_MAX_def)
  ultimately show ?thesis
    using assms(1) unfolding log_inv_def fields ack_ok_def by auto
qed

lemma with_route_id: "log_inv px db \<Longrightarrow> row \<in> set (db_envelopes db) \<Longrightarrow> with_route (er_routing_id row) db = db"
  by (simp add: with_route_def log_inv_def)

lemma advance_route_simps [simp]:
  "rt_routing_id (advance_route e r) = rt_routing_id r"
  "rt_next_cursor (advance_route e r) = rt_next_cursor r + 1"
  "rt_current_epoch (advance_route e r) =
     rt_current_epoch r + (if env_delivery_class e = GroupCommit then 1 else 0)"
  by (simp_all add: advance_route_def)

lemma envelope_row_of_simps [simp]:
  "er_routing_id (envelope_row_of e b c) = routing_id_bytes (env_routing_id e)"
  "er_cursor (envelope_row_of e b c) = c"
  "er_envelope_id (envelope_row_of e b c) = envelope_id_bytes (env_envelope_id e)"
  "er_delivery_class (envelope_row_of e b c) = delivery_class_to_sql (env_delivery_class e)"
  "er_expected_parent_epoch (envelope_row_of e b c) = map_option (\<lambda>p. int (unat p)) (env_expected_parent_epoch e)"
  "er_encoded_envelope (envelope_row_of e b c) = b"
  by (simp_all add: envelope_row_of_def)

lemma delivery_class_to_sql_4 [simp]: "delivery_class_to_sql c = 4 \<longleftrightarrow> c = GroupCommit"
  by (cases c) auto

lemma accepted_simps [simp]:
  "db_routes (accepted e b us r vs db) = us @ advance_route e r # vs"
  "db_envelopes (accepted e b us r vs db) = db_envelopes db @ [envelope_row_of e b (rt_next_cursor r)]"
  "db_acks (accepted e b us r vs db) = db_acks db"
  by (simp_all add: accepted_def)

lemma route_rows_accepted:
  "route_rows (accepted e b us r vs db) rid = route_rows db rid @
     (if rid = routing_id_bytes (env_routing_id e) then [envelope_row_of e b (rt_next_cursor r)] else [])"
  by (simp add: route_rows_def)

lemma route_ok_advanced:
  assumes "route_ok db r" and "rt_routing_id r = routing_id_bytes (env_routing_id e)"
    and "allocation_guard e r" and "route_row_check (advance_route e r)"
  shows "route_ok (accepted e b us r vs db) (advance_route e r)"
proof -
  have "1 \<le> rt_next_cursor r" "0 \<le> rt_current_epoch r"
    using assms(1) by (auto simp: route_ok_def route_row_check_def)
  then have "[1..rt_next_cursor r] = [1..rt_next_cursor r - 1] @ [rt_next_cursor r]"
    "[0..rt_current_epoch r] = [0..rt_current_epoch r - 1] @ [rt_current_epoch r]"
    by (simp_all add: upto_rec2)
  then show ?thesis
    using assms by (auto simp: route_ok_def route_rows_accepted allocation_guard_def)
qed

lemma ack_ok_accepted:
  assumes "ack_ok db a" and "db_routes db = us @ r # vs"
  shows "ack_ok (accepted e b us r vs db) a"
  using assms by (auto simp: ack_ok_def)

lemma log_inv_accepted:
  assumes inv: "log_inv px db" and routes: "db_routes db = us @ r # vs"
    and rid: "rt_routing_id r = routing_id_bytes (env_routing_id e)"
    and guard: "allocation_guard e r" "route_row_check (advance_route e r)"
    and dec: "decode_relay_envelope px b = Inr e" "sql_range e"
      "envelope_row_check (envelope_row_of e b (rt_next_cursor r))"
    and new: "\<forall>row \<in> set (db_envelopes db). er_envelope_id row \<noteq> envelope_id_bytes (env_envelope_id e)"
  shows "log_inv px (accepted e b us r vs db)"
  unfolding log_inv_def
proof (intro conjI ballI)
  let ?db = "accepted e b us r vs db"
  have dist: "distinct (map rt_routing_id (us @ r # vs))" using inv routes by (simp add: log_inv_def)
  then show "distinct (map rt_routing_id (db_routes ?db))" by simp
  fix r' assume r': "r' \<in> set (db_routes ?db)"
  show "route_ok ?db r'"
  proof (cases "r' = advance_route e r")
    case True
    have "route_ok db r" using inv routes by (simp add: log_inv_def)
    from route_ok_advanced [OF this rid guard] show ?thesis unfolding True .
  next
    case False
    with r' have other: "r' \<in> set us \<union> set vs" by auto
    with dist have "rt_routing_id r' \<noteq> rt_routing_id r" by (auto simp: rev_image_eqI)
    with other have "r' \<in> set (db_routes db)" "rt_routing_id r' \<noteq> routing_id_bytes (env_routing_id e)"
      using routes rid by auto
    then show ?thesis using inv by (simp add: log_inv_def route_ok_def route_rows_accepted)
  qed
next
  show "distinct (map er_envelope_id (db_envelopes (accepted e b us r vs db)))"
    using inv new by (auto simp: log_inv_def)
next
  fix row assume row: "row \<in> set (db_envelopes (accepted e b us r vs db))"
  have "row_ok px (envelope_row_of e b (rt_next_cursor r))"
    using dec by (auto simp: row_ok_def envelope_row_check_def)
  with row show "row_ok px row" using inv by (auto simp: log_inv_def)
  have "rt_routing_id ` set (db_routes (accepted e b us r vs db)) = rt_routing_id ` set (db_routes db)"
    using routes by simp
  with row show "has_route (accepted e b us r vs db) (er_routing_id row)"
    using inv routes rid by (auto simp: has_route_def log_inv_def)
next
  show "distinct (map ack_key (db_acks (accepted e b us r vs db)))"
    using inv by (simp add: log_inv_def)
next
  fix a assume "a \<in> set (db_acks (accepted e b us r vs db))"
  then show "ack_ok (accepted e b us r vs db) a"
    using inv routes by (auto simp: log_inv_def intro: ack_ok_accepted)
qed

lemma submit_transaction_commits: "submit_transaction px e b now db \<noteq> Inr (Inl err, db')"
  by (auto simp: submit_transaction_def split: option.splits if_splits)

lemma submit_encoded_Inl:
  assumes "submit_encoded px e b now db = (Inl err, db')"
  shows "db' = db"
  using assms submit_transaction_commits [of px e b now db err db']
  by (auto simp: submit_encoded_def transact_def split: sum.splits if_splits)

lemma submit_encoded_inv:
  assumes inv: "log_inv px db"
  shows "log_inv px (snd (submit_encoded px e b now db))"
proof (cases "submit_encoded px e b now db")
  case (Pair r db')
  show ?thesis
  proof (cases r)
    case (Inl err)
    then show ?thesis using Pair inv submit_encoded_Inl by fastforce
  next
    case (Inr res)
    with Pair have "submit_encoded px e b now db = (Inr res, db')" by simp
    then show ?thesis
    proof (cases rule: submit_encoded_Inr)
      case (duplicate row)
      then have "length (routing_id_bytes (env_routing_id e)) = 32"
        by (simp add: decode_relay_envelope_eq_Inr relay_envelope_ok_def)
      with duplicate Pair show ?thesis by (simp add: log_inv_with_route [OF inv])
    next
      case (fresh us r vs)
      then have "length (routing_id_bytes (env_routing_id e)) = 32"
        by (simp add: decode_relay_envelope_eq_Inr relay_envelope_ok_def)
      note inv' = log_inv_with_route [OF inv this]
      have "db_envelopes (with_route (routing_id_bytes (env_routing_id e)) db) = db_envelopes db"
        by (simp add: with_route_def)
      with fresh Pair show ?thesis
        by (auto intro!: log_inv_accepted [OF inv'])
    qed
  qed
qed

definition ack_lookup :: "ack_row list \<Rightarrow> bytes \<Rightarrow> bytes \<Rightarrow> int option" where
  "ack_lookup acks rid pid =
     map_option ar_cursor (List.find (\<lambda>a. ar_routing_id a = rid \<and> ar_principal_id a = pid) acks)"

lemma upsert_ack_lookup:
  assumes "upsert_ack row rs = (c, rs')"
  shows "c = (case ack_lookup rs (ar_routing_id row) (ar_principal_id row) of
      None \<Rightarrow> ar_cursor row | Some old \<Rightarrow> max old (ar_cursor row))" (is ?cursor)
    and "ack_lookup rs' rid pid =
      (if rid = ar_routing_id row \<and> pid = ar_principal_id row then Some c else ack_lookup rs rid pid)" (is ?lookup)
proof -
  show ?cursor
    using assms
    by (induction rs arbitrary: c rs') (auto simp: ack_lookup_def split: if_splits prod.splits)
  show ?lookup
    using assms
    by (induction rs arbitrary: c rs') (auto simp: ack_lookup_def split: if_splits prod.splits)
qed

lemma upsert_ack_Cons:
  "upsert_ack row (r # rs) =
     (if ack_key r = ack_key row
      then (max (ar_cursor r) (ar_cursor row), r\<lparr>ar_cursor := max (ar_cursor r) (ar_cursor row)\<rparr> # rs)
      else map_prod id ((#) r) (upsert_ack row rs))"
  by (simp add: ack_key_def map_prod_def split: prod.splits)

lemma ack_key_update [simp]: "ack_key (r\<lparr>ar_cursor := c\<rparr>) = ack_key r"
  by (simp add: ack_key_def)

lemma upsert_ack_keys: "ack_key ` set (snd (upsert_ack row rs)) = insert (ack_key row) (ack_key ` set rs)"
  by (induction rs) (auto simp del: upsert_ack.simps(2) simp add: upsert_ack_Cons)

lemma upsert_ack_distinct:
  "distinct (map ack_key rs) \<Longrightarrow> distinct (map ack_key (snd (upsert_ack row rs)))"
proof (induction rs)
  case (Cons r rs)
  then show ?case
    using upsert_ack_keys [of row rs] by (auto simp del: upsert_ack.simps(2) simp add: upsert_ack_Cons)
qed simp

lemma upsert_ack_ok:
  assumes "upsert_ack row rs = (c, rs')" and "\<forall>a \<in> set rs. ack_ok db a" and "ack_ok db row"
  shows "\<forall>a \<in> set rs'. ack_ok db a"
  using assms
proof (induction rs arbitrary: c rs')
  case (Cons q rs)
  have "ack_ok db (q\<lparr>ar_cursor := max (ar_cursor q) (ar_cursor row)\<rparr>)"
    if "ar_routing_id q = ar_routing_id row" "ar_principal_id q = ar_principal_id row"
    using Cons.prems that by (cases "ar_cursor q \<le> ar_cursor row") (auto simp: ack_ok_def ack_row_check_def max_def)
  then show ?case using Cons by (auto split: if_splits prod.splits)
qed auto

lemma find_route_Some:
  "find_route db rid = Some r \<Longrightarrow> r \<in> set (db_routes db) \<and> rt_routing_id r = rid"
  by (auto simp: find_route_def find_Some_iff)

lemma acknowledge_check_route:
  assumes "acknowledge_check request db = Inr ()" and "log_inv px db" and "ack_cursor request \<noteq> 0"
  obtains r where "r \<in> set (db_routes db)" "rt_routing_id r = routing_id_bytes (ack_routing_id request)"
    "int (unat (ack_cursor request)) \<le> rt_next_cursor r - 1"
proof (cases "find_route db (routing_id_bytes (ack_routing_id request))")
  case None
  with assms show ?thesis by (simp add: acknowledge_check_def word_le_nat_alt unat_eq_zero)
next
  case (Some r)
  note r = find_route_Some [OF Some]
  with assms(2) have "0 \<le> rt_next_cursor r - 1" "rt_next_cursor r - 1 < 2 ^ 63"
    by (auto simp: log_inv_def route_ok_def route_row_check_def i64_MAX_def)
  then have "unat (of_int (rt_next_cursor r - 1) :: u64) = nat (rt_next_cursor r - 1)"
    by (rule unat_of_sql)
  moreover have "ack_cursor request \<le> of_int (rt_next_cursor r - 1)"
    using assms(1) Some \<open>0 \<le> rt_next_cursor r - 1\<close>
    by (simp add: acknowledge_check_def from_sql_integer_def)
  ultimately have "unat (ack_cursor request) \<le> nat (rt_next_cursor r - 1)"
    by (simp only: word_le_nat_alt)
  then have "int (unat (ack_cursor request)) \<le> rt_next_cursor r - 1"
    using \<open>0 \<le> rt_next_cursor r - 1\<close> by (simp only: le_nat_iff)
  then show ?thesis by (intro that [OF conjunct1 [OF r] conjunct2 [OF r]])
qed

lemma db_acks_update_simps [simp]:
  "route_rows (db\<lparr>db_acks := as\<rparr>) rid = route_rows db rid"
  "route_ok (db\<lparr>db_acks := as\<rparr>) r = route_ok db r"
  "ack_ok (db\<lparr>db_acks := as\<rparr>) a = ack_ok db a"
  "has_route (db\<lparr>db_acks := as\<rparr>) rid = has_route db rid"
  by (simp_all add: route_rows_def route_ok_def ack_ok_def has_route_def)

definition ack_row_of :: "relay_principal_id \<Rightarrow> acknowledge_request \<Rightarrow> ack_row" where
  "ack_row_of p request = \<lparr>ar_routing_id = routing_id_bytes (ack_routing_id request),
     ar_principal_id = principal_id_bytes p, ar_cursor = int (unat (ack_cursor request))\<rparr>"

lemma acknowledge_upsert_unfold:
  "acknowledge_upsert p request db =
     (if \<not> unat (ack_cursor request) < 2 ^ 63 then (Inl SequenceExhausted, db)
      else if ack_row_check (ack_row_of p request) \<and> has_route db (routing_id_bytes (ack_routing_id request))
      then (from_sql_integer (fst (upsert_ack (ack_row_of p request) (db_acks db))),
            db\<lparr>db_acks := snd (upsert_ack (ack_row_of p request) (db_acks db))\<rparr>)
      else (Inl (StorageFailure ''acknowledgment update''), db))"
  by (simp add: acknowledge_upsert_def transact_def Let_def to_sql_integer_def ack_row_of_def
      split: prod.splits)

lemma acknowledge_upsert_cases:
  obtains (refused) err where "acknowledge_upsert p request db = (Inl err, db)"
  | (stored) c acks where "unat (ack_cursor request) < 2 ^ 63" "ack_row_check (ack_row_of p request)"
      "has_route db (routing_id_bytes (ack_routing_id request))"
      "upsert_ack (ack_row_of p request) (db_acks db) = (c, acks)"
      "acknowledge_upsert p request db = (from_sql_integer c, db\<lparr>db_acks := acks\<rparr>)"
proof (cases "unat (ack_cursor request) < 2 ^ 63 \<and> ack_row_check (ack_row_of p request) \<and>
    has_route db (routing_id_bytes (ack_routing_id request))")
  case True
  then show ?thesis
    by (intro stored [of "fst (upsert_ack (ack_row_of p request) (db_acks db))"
          "snd (upsert_ack (ack_row_of p request) (db_acks db))"])
      (simp_all only: acknowledge_upsert_unfold prod.collapse if_True not_True_eq_False if_False simp_thms)
next
  case False
  then consider "\<not> unat (ack_cursor request) < 2 ^ 63" | "unat (ack_cursor request) < 2 ^ 63"
      "\<not> (ack_row_check (ack_row_of p request) \<and> has_route db (routing_id_bytes (ack_routing_id request)))"
    by blast
  then show ?thesis
  proof cases
    case 1
    then show ?thesis by (intro refused [of SequenceExhausted]) (simp only: acknowledge_upsert_unfold if_True simp_thms)
  next
    case 2
    then show ?thesis
      by (intro refused [of "StorageFailure ''acknowledgment update''"])
        (simp only: acknowledge_upsert_unfold if_True if_False simp_thms)
  qed
qed

lemma log_inv_acks:
  assumes "log_inv px db" and "distinct (map ack_key as)" and "\<forall>a \<in> set as. ack_ok db a"
  shows "log_inv px (db\<lparr>db_acks := as\<rparr>)"
  using assms by (simp add: log_inv_def)

lemma acknowledge_upsert_inv:
  assumes inv: "log_inv px db"
    and bound: "\<exists>r \<in> set (db_routes db). rt_routing_id r = routing_id_bytes (ack_routing_id request) \<and>
      int (unat (ack_cursor request)) \<le> rt_next_cursor r - 1"
  shows "log_inv px (snd (acknowledge_upsert p request db))"
proof (cases rule: acknowledge_upsert_cases [of p request db])
  case (refused err)
  then show ?thesis using inv by simp
next
  case (stored c acks)
  have "ar_routing_id (ack_row_of p request) = routing_id_bytes (ack_routing_id request)"
    "ar_cursor (ack_row_of p request) = int (unat (ack_cursor request))"
    by (simp_all only: ack_row_of_def ack_row.simps)
  then have row: "ack_ok db (ack_row_of p request)"
    unfolding ack_ok_def using stored(2) bound by metis
  have old: "\<forall>a \<in> set (db_acks db). ack_ok db a" "distinct (map ack_key (db_acks db))"
    using inv unfolding log_inv_def by blast+
  have "\<forall>a \<in> set acks. ack_ok db a"
    by (rule upsert_ack_ok [OF stored(4) old(1) row])
  moreover have "distinct (map ack_key acks)"
    using upsert_ack_distinct [OF old(2), of "ack_row_of p request"] stored(4) by simp
  ultimately have "log_inv px (db\<lparr>db_acks := acks\<rparr>)"
    by (intro log_inv_acks [OF inv])
  then show ?thesis unfolding stored(5) snd_conv .
qed

lemma acknowledge_inv:
  assumes "log_inv px db"
  shows "log_inv px (snd (acknowledge p request db))"
proof (cases "acknowledge_check request db")
  case (Inl e)
  then show ?thesis using assms by (simp add: acknowledge_def)
next
  case (Inr u)
  show ?thesis
  proof (cases "ack_cursor request = 0")
    case True
    then have "\<not> ack_row_check (ack_row_of p request)" by (simp add: ack_row_check_def ack_row_of_def)
    then show ?thesis using assms Inr by (simp add: acknowledge_def acknowledge_upsert_unfold)
  next
    case False
    have check: "acknowledge_check request db = Inr ()" using Inr by simp
    have "\<exists>r \<in> set (db_routes db). rt_routing_id r = routing_id_bytes (ack_routing_id request) \<and>
      int (unat (ack_cursor request)) \<le> rt_next_cursor r - 1"
      by (rule acknowledge_check_route [OF check assms False]) blast
    from acknowledge_upsert_inv [OF assms this] show ?thesis using Inr by (simp add: acknowledge_def)
  qed
qed

section \<open>Histories of operations\<close>

datatype log_op =
    Submit_encoded relay_envelope bytes u64
  | Acknowledge relay_principal_id acknowledge_request

fun log_step :: "prost \<Rightarrow> log_op \<Rightarrow> log_db \<Rightarrow> (relay_error + u64) \<times> log_db" where
  "log_step px (Submit_encoded envelope encoded now) db =
     apfst (map_sum id sr_cursor) (submit_encoded px envelope encoded now db)"
| "log_step px (Acknowledge p request) db = acknowledge p request db"

definition route_le :: "route_row \<Rightarrow> route_row \<Rightarrow> bool" where
  "route_le r r' \<longleftrightarrow> rt_routing_id r' = rt_routing_id r \<and> rt_next_cursor r \<le> rt_next_cursor r' \<and>
     rt_current_epoch r \<le> rt_current_epoch r'"

definition log_le :: "log_db \<Rightarrow> log_db \<Rightarrow> bool" where
  "log_le db db' \<longleftrightarrow>
     (\<exists>rows. db_envelopes db' = db_envelopes db @ rows) \<and>
     (\<forall>r \<in> set (db_routes db). \<exists>r' \<in> set (db_routes db'). route_le r r') \<and>
     (\<forall>rid pid c. ack_lookup (db_acks db) rid pid = Some c \<longrightarrow>
        (\<exists>c'. ack_lookup (db_acks db') rid pid = Some c' \<and> c \<le> c'))"

lemma route_le_refl [simp]: "route_le r r"
  by (simp add: route_le_def)

lemma route_le_trans: "route_le a b \<Longrightarrow> route_le b c \<Longrightarrow> route_le a c"
  by (auto simp: route_le_def)

lemma routes_le_refl: "r \<in> set rs \<Longrightarrow> Bex (set rs) (route_le r)"
  using route_le_refl by blast

lemma log_le_refl: "log_le db db"
  by (simp add: log_le_def routes_le_refl)

lemma log_le_trans:
  assumes "log_le a b" and "log_le b c"
  shows "log_le a c"
  unfolding log_le_def
proof (intro conjI allI ballI impI)
  show "\<exists>rows. db_envelopes c = db_envelopes a @ rows"
    using assms unfolding log_le_def by auto
  show "\<exists>r' \<in> set (db_routes c). route_le r r'" if "r \<in> set (db_routes a)" for r
    using assms that unfolding log_le_def by (meson route_le_trans)
  show "\<exists>c'. ack_lookup (db_acks c) rid pid = Some c' \<and> x \<le> c'"
    if "ack_lookup (db_acks a) rid pid = Some x" for rid pid x
    using assms that unfolding log_le_def by (meson order_trans)
qed

lemma log_le_with_route: "log_le db (with_route rid db)"
  by (simp add: log_le_def with_route_def routes_le_refl)

lemma log_le_accepted:
  "db_routes db = us @ r # vs \<Longrightarrow> log_le db (accepted e b us r vs db)"
  unfolding log_le_def by (auto simp: route_le_def)

lemma submit_encoded_le: "log_le db (snd (submit_encoded px e b now db))"
proof (cases "submit_encoded px e b now db")
  case (Pair r db')
  show ?thesis
  proof (cases r)
    case (Inl err)
    then show ?thesis using Pair submit_encoded_Inl [of px e b now db err db'] by (simp add: log_le_refl)
  next
    case (Inr res)
    with Pair have "submit_encoded px e b now db = (Inr res, db')" by simp
    then have "log_le db db'"
    proof (cases rule: submit_encoded_Inr)
      case (duplicate row)
      then show ?thesis by (simp add: log_le_with_route)
    next
      case (fresh us r vs)
      show ?thesis
        unfolding fresh(13) by (rule log_le_trans [OF log_le_with_route log_le_accepted [OF fresh(5)]])
    qed
    then show ?thesis using Pair by simp
  qed
qed

lemma acknowledge_upsert_le: "log_le db (snd (acknowledge_upsert p request db))"
proof (cases rule: acknowledge_upsert_cases [of p request db])
  case (refused err)
  then show ?thesis by (simp add: log_le_refl)
next
  case (stored c acks)
  have "\<exists>c'. ack_lookup acks rid pid = Some c' \<and> x \<le> c'"
    if "ack_lookup (db_acks db) rid pid = Some x" for rid pid x
    using upsert_ack_lookup [OF stored(4)] that by (auto split: option.splits)
  then show ?thesis
    unfolding stored(5) snd_conv log_le_def by (simp add: routes_le_refl)
qed

lemma acknowledge_le: "log_le db (snd (acknowledge p request db))"
  using acknowledge_upsert_le by (auto simp: acknowledge_def log_le_refl split: sum.splits)

interpretation relay_log: monotone_store "log_step px" "log_inv px" log_le for px
proof unfold_locales
  fix s op assume "log_inv px s"
  then show "log_inv px (snd (log_step px op s))"
    by (cases op) (simp_all add: submit_encoded_inv acknowledge_inv)
  show "log_le s (snd (log_step px op s))"
    by (cases op) (simp_all add: submit_encoded_le acknowledge_le)
qed (auto intro: log_le_refl log_le_trans)

end
