(* ===== verification/Relay_Log_Props.thy ===== *)
theory Relay_Log_Props
  imports Relay_Log_Inv
begin

text \<open>
  What the relay log promises its clients, on top of the invariant: submission appends to
  the route's log or returns the original cursor, commits are serialised by epoch, replay
  returns the log in order within the page budget, and acknowledgments only move forward.
\<close>

section \<open>Stored rows read back\<close>

lemma delivery_class_sql_roundtrip [simp]: "delivery_class_from_sql (delivery_class_to_sql c) = Inr c"
  by (cases c) (simp_all add: delivery_class_from_sql_def)

lemma row_metadata_of_row:
  assumes "relay_envelope_ok e" and "sql_range e"
  shows "row_metadata_matches (envelope_row_of e b c) e = Inr True"
proof -
  have "transpose_map from_sql_integer (map_option (\<lambda>p. int (unat p)) (env_expected_parent_epoch e))
      = Inr (env_expected_parent_epoch e)"
    by (cases "env_expected_parent_epoch e") simp_all
  moreover have "RoutingId_from_slice (routing_id_bytes (env_routing_id e)) = Inr (env_routing_id e)"
    "EnvelopeId_from_slice (envelope_id_bytes (env_envelope_id e)) = Inr (env_envelope_id e)"
    using assms(1) by (simp_all add: id_from_slice_defs relay_envelope_ok_def)
  ultimately show ?thesis
    using assms unfolding row_metadata_matches_def and_also_True equals_True
    by (simp add: envelope_row_of_def relay_envelope_ok_def optional_epoch_from_row_def
        from_sql_integer_def)
qed

lemma replay_entry_of_row:
  assumes "row_ok px row" and "0 \<le> er_cursor row"
  shows "replay_entry_from_row px row =
    Inr \<lparr>ent_encoded_envelope = er_encoded_envelope row, ent_cursor = of_int (er_cursor row)\<rparr>"
  using assms(1)
proof (rule row_okE)
  fix e assume e: "decode_relay_envelope px (er_encoded_envelope row) = Inr e" "sql_range e"
    "er_encoded_envelope row \<noteq> []" "row = envelope_row_of e (er_encoded_envelope row) (er_cursor row)"
  have "relay_envelope_ok e" using e(1) by (simp add: decode_relay_envelope_eq_Inr)
  from row_metadata_of_row [OF this e(2)] e(4)
  have matches: "row_metadata_matches row e = Inr True" by metis
  have "1 \<le> length (er_encoded_envelope row)" "length (er_encoded_envelope row) \<le> MAX_RELAY_ENVELOPE_BYTES"
    using e(1,3) by (auto simp: decode_relay_envelope_eq_Inr Suc_le_eq)
  then show ?thesis
    using e(1) matches assms(2) by (simp add: replay_entry_from_row_def from_sql_integer_def Let_def)
qed

section \<open>Replay pages\<close>

lemma filter_le_nth:
  fixes f :: "'a \<Rightarrow> 'b :: linorder"
  assumes "sorted_wrt (<) (map f xs)" and "k < length xs"
  shows "filter (\<lambda>x. f x \<le> f (xs ! k)) xs = take (Suc k) xs"
  using assms
proof (induction xs arbitrary: k)
  case (Cons x xs)
  show ?case
  proof (cases k)
    case 0
    then show ?thesis using Cons.prems by (auto simp: filter_empty_conv)
  next
    case (Suc j)
    then have "f x \<le> f (xs ! j)" using Cons.prems by (simp add: less_imp_le)
    then show ?thesis using Suc Cons by simp
  qed
qed simp

declare select_rows_from.simps(2) [simp del]

lemma select_rows_from_step:
  assumes "0 \<le> cursor" "1 \<le> len" "len \<le> 1048576" "used \<le> MAX_REPLAY_PAGE_BYTES"
  shows "select_rows_from limit used lc count ((cursor, len) # rows) =
    (if count = limit \<or> used + (nat len + 32) > MAX_REPLAY_PAGE_BYTES
     then Inr \<lparr>sel_last_cursor = lc, sel_count = count, sel_has_more = True\<rparr>
     else select_rows_from limit (used + (nat len + 32)) (Some (of_int cursor)) (count + 1) rows)"
proof -
  have "Suc 0 \<le> nat len" "nat len \<le> 1048576" using assms by linarith+
  then show ?thesis
    using assms unfolding select_rows_from.simps(2) Let_def
    by (simp add: checked_add_usize_def from_sql_integer_def STORED_ENVELOPE_WIRE_OVERHEAD_BUDGET_def
        domain_bounds)
qed

lemma select_rows_from_spec:
  assumes "\<forall>(c, l) \<in> set rows. 0 \<le> c \<and> 1 \<le> l \<and> l \<le> 1048576"
    and "used \<le> MAX_REPLAY_PAGE_BYTES"
  shows "\<exists>k \<le> length rows. select_rows_from limit used lc count rows =
      Inr \<lparr>sel_last_cursor = (if k = 0 then lc else Some (of_int (fst (rows ! (k - 1))))),
           sel_count = count + k, sel_has_more = (k < length rows)\<rparr> \<and>
    used + (\<Sum>(c, l)\<leftarrow>take k rows. nat l + 32) \<le> MAX_REPLAY_PAGE_BYTES \<and>
    (count \<le> limit \<longrightarrow> count + k \<le> limit) \<and>
    (count < limit \<and> rows \<noteq> [] \<and> used + 1048608 \<le> MAX_REPLAY_PAGE_BYTES \<longrightarrow> 0 < k)"
  using assms
proof (induction rows arbitrary: used lc count)
  case (Cons row rows)
  obtain cursor len where row: "row = (cursor, len)" by (cases row)
  let ?next = "used + (nat len + 32)"
  have len: "0 \<le> cursor" "1 \<le> len" "len \<le> 1048576" using Cons.prems(1) unfolding row by auto
  note step = select_rows_from_step [OF len Cons.prems(2)]
  show ?case
  proof (cases "count = limit \<or> ?next > MAX_REPLAY_PAGE_BYTES")
    case True
    then have "select_rows_from limit used lc count ((cursor, len) # rows) =
        Inr \<lparr>sel_last_cursor = lc, sel_count = count, sel_has_more = True\<rparr>"
      unfolding step by simp
    then show ?thesis using True len Cons.prems(2)
      by (intro exI [of _ 0]) (auto simp: nat_le_iff row)
  next
    case False
    have p1: "\<forall>(c, l) \<in> set rows. 0 \<le> c \<and> 1 \<le> l \<and> l \<le> 1048576" and p2: "?next \<le> MAX_REPLAY_PAGE_BYTES"
      using Cons.prems(1) False by auto
    from Cons.IH [OF p1 p2, where lc = "Some (of_int cursor)" and count = "count + 1"]
    obtain k where k: "k \<le> length rows"
      "select_rows_from limit ?next (Some (of_int cursor)) (count + 1) rows =
        Inr \<lparr>sel_last_cursor = (if k = 0 then Some (of_int cursor) else Some (of_int (fst (rows ! (k - 1))))),
             sel_count = count + 1 + k, sel_has_more = (k < length rows)\<rparr>"
      "?next + (\<Sum>(c, l)\<leftarrow>take k rows. nat l + 32) \<le> MAX_REPLAY_PAGE_BYTES"
      "count + 1 \<le> limit \<longrightarrow> count + 1 + k \<le> limit"
      by blast
    have "select_rows_from limit used lc count ((cursor, len) # rows) =
        select_rows_from limit ?next (Some (of_int cursor)) (count + 1) rows"
      unfolding step using False by simp
    then show ?thesis using k False
      by (intro exI [of _ "Suc k"]) (auto simp: row nth_Cons split: nat.splits)
  qed
qed simp

text \<open>The part of a route's log after a cursor, as bytes with their cursors.\<close>

definition log_after :: "log_db \<Rightarrow> bytes \<Rightarrow> int \<Rightarrow> (bytes \<times> u64) list" where
  "log_after db rid after =
     map (\<lambda>r. (er_encoded_envelope r, of_int (er_cursor r)))
       (filter (\<lambda>r. after < er_cursor r) (route_rows db rid))"

lemma route_rows_sorted:
  assumes "log_inv px db"
  shows "sorted_wrt (<) (map er_cursor (route_rows db rid))"
    and "\<forall>r \<in> set (route_rows db rid). 1 \<le> er_cursor r \<and> er_cursor r < i64_MAX \<and> row_ok px r"
proof -
  have "sorted_wrt (<) (map er_cursor (route_rows db rid)) \<and>
    (\<forall>r \<in> set (route_rows db rid). 1 \<le> er_cursor r \<and> er_cursor r < i64_MAX)"
  proof (cases "has_route db rid")
    case True
    then obtain r where r: "r \<in> set (db_routes db)" "rt_routing_id r = rid"
      by (auto simp: has_route_def)
    with assms have "route_ok db r" by (auto simp: log_inv_def)
    with r have cursors: "map er_cursor (route_rows db rid) = [1..rt_next_cursor r - 1]"
      "rt_next_cursor r \<le> i64_MAX" by (auto simp: route_ok_def)
    have "er_cursor x \<in> {1..rt_next_cursor r - 1}" if "x \<in> set (route_rows db rid)" for x
      using that arg_cong [OF cursors(1), of set] by force
    then show ?thesis using cursors by force
  next
    case False
    then show ?thesis using route_rows_fresh [OF assms False] by simp
  qed
  then show "sorted_wrt (<) (map er_cursor (route_rows db rid))"
    "\<forall>r \<in> set (route_rows db rid). 1 \<le> er_cursor r \<and> er_cursor r < i64_MAX \<and> row_ok px r"
    using assms by (auto simp: log_inv_def route_rows_def)
qed

lemma rows_after_eq:
  assumes "log_inv px db"
  shows "rows_after db rid after = filter (\<lambda>r. after < er_cursor r) (route_rows db rid)"
proof -
  have "sorted_wrt (<) (map er_cursor (filter (\<lambda>r. after < er_cursor r) (route_rows db rid)))"
    using route_rows_sorted(1) [OF assms, of rid] by (simp add: sorted_wrt_map sorted_wrt_filter)
  then have "sorted (map er_cursor (filter (\<lambda>r. after < er_cursor r) (route_rows db rid)))"
    by (rule strict_sorted_imp_sorted)
  moreover have "filter (\<lambda>r. er_routing_id r = rid \<and> after < er_cursor r) (db_envelopes db) =
      filter (\<lambda>r. after < er_cursor r) (route_rows db rid)"
    by (simp add: route_rows_def conj_commute)
  ultimately show ?thesis
    unfolding rows_after_def by (simp add: sort_key_id_if_sorted)
qed

definition entry_of :: "bytes \<times> u64 \<Rightarrow> replay_entry" where
  "entry_of = (\<lambda>(b, c). \<lparr>ent_encoded_envelope = b, ent_cursor = c\<rparr>)"

lemma last_take: "0 < k \<Longrightarrow> k \<le> length xs \<Longrightarrow> take k xs \<noteq> [] \<and> last (take k xs) = xs ! (k - 1)"
proof -
  assume k: "0 < k" "k \<le> length xs"
  then have "take k xs \<noteq> []" "length (take k xs) = k" by auto
  with k show ?thesis by (simp add: last_conv_nth del: take_eq_Nil)
qed

lemma row_ok_length: "row_ok px r \<Longrightarrow> 1 \<le> length (er_encoded_envelope r) \<and> length (er_encoded_envelope r) \<le> 1048576"
  by (erule row_okE) (auto simp: Suc_le_eq dest: decode_relay_envelope_length)

lemma collect_replay_entries:
  assumes "\<forall>r \<in> set rows. 0 \<le> er_cursor r \<and> row_ok px r"
  shows "collect (replay_entry_from_row px) rows =
    Inr (map (\<lambda>r. entry_of (er_encoded_envelope r, of_int (er_cursor r))) rows)"
  using assms by (induction rows) (auto simp: replay_entry_of_row entry_of_def)

lemma load_replay_entries_spec:
  assumes inv: "log_inv px db" and limit: "1 \<le> unat (rr_limit request)" "unat (rr_limit request) \<le> 100"
    and after: "unat (rr_after_cursor request) < 2 ^ 63"
  defines "L \<equiv> log_after db (routing_id_bytes (rr_routing_id request)) (int (unat (rr_after_cursor request)))"
  shows "\<exists>k \<le> length L. k \<le> unat (rr_limit request) \<and> (L \<noteq> [] \<longrightarrow> 0 < k) \<and>
    64 + (\<Sum>(e, c)\<leftarrow>take k L. length e + 32) \<le> MAX_REPLAY_PAGE_BYTES \<and>
    load_replay_entries px db request =
      Inr \<lparr>ents_entries = map entry_of (take k L),
           ents_next_cursor = (if k = 0 then rr_after_cursor request else snd (L ! (k - 1))),
           ents_has_more = (k < length L)\<rparr>"
proof -
  let ?rid = "routing_id_bytes (rr_routing_id request)" and ?limit = "unat (rr_limit request)"
  let ?after = "int (unat (rr_after_cursor request))"
  define R where "R = filter (\<lambda>r. ?after < er_cursor r) (route_rows db ?rid)"
  have L: "L = map (\<lambda>r. (er_encoded_envelope r, of_int (er_cursor r))) R"
    by (simp add: L_def log_after_def R_def)
  have rows: "rows_after db ?rid ?after = R" unfolding R_def by (rule rows_after_eq [OF inv])
  have ok: "\<forall>r \<in> set R. 1 \<le> er_cursor r \<and> er_cursor r < i64_MAX \<and> row_ok px r"
    using route_rows_sorted(2) [OF inv, of ?rid] by (auto simp: R_def)
  have sorted: "sorted_wrt (<) (map er_cursor R)"
    using route_rows_sorted(1) [OF inv, of ?rid] by (simp add: R_def sorted_wrt_map sorted_wrt_filter)
  define S where "S = map (\<lambda>r. (er_cursor r, int (length (er_encoded_envelope r)))) (take (?limit + 1) R)"
  have "\<forall>(c, l) \<in> set S. 0 \<le> c \<and> 1 \<le> l \<and> l \<le> 1048576"
    using ok row_ok_length by (fastforce simp: S_def dest: in_set_takeD)
  then obtain k where k: "k \<le> length S"
    "select_rows_from ?limit 64 None 0 S =
      Inr \<lparr>sel_last_cursor = (if k = 0 then None else Some (of_int (fst (S ! (k - 1))))),
           sel_count = 0 + k, sel_has_more = (k < length S)\<rparr>"
    "64 + (\<Sum>(c, l)\<leftarrow>take k S. nat l + 32) \<le> MAX_REPLAY_PAGE_BYTES"
    "0 \<le> ?limit \<longrightarrow> 0 + k \<le> ?limit"
    "0 < ?limit \<and> S \<noteq> [] \<and> 64 + 1048608 \<le> MAX_REPLAY_PAGE_BYTES \<longrightarrow> 0 < k"
    using select_rows_from_spec [of S 64 ?limit None 0] by (auto simp: MAX_REPLAY_PAGE_BYTES_def)
  have lens: "length S = min (length R) (?limit + 1)" "S \<noteq> [] \<longleftrightarrow> R \<noteq> []"
    by (auto simp: S_def)
  have kR: "k \<le> length R" "k < length S \<longleftrightarrow> k < length R" "k \<le> ?limit" "R \<noteq> [] \<longrightarrow> 0 < k"
    using k lens limit by (auto simp: MAX_REPLAY_PAGE_BYTES_def)
  have "take k S = map (\<lambda>r. (er_cursor r, int (length (er_encoded_envelope r)))) (take k R)"
    using kR(3) by (simp add: S_def take_map min_def)
  then have budget: "64 + (\<Sum>(e, c)\<leftarrow>take k L. length e + 32) \<le> MAX_REPLAY_PAGE_BYTES"
    using k(3) by (simp add: L take_map comp_def)
  have "fst (S ! (k - 1)) = er_cursor (R ! (k - 1))" if "0 < k"
  proof -
    have "k - 1 < length (take (?limit + 1) R)" using that kR by auto
    then show ?thesis unfolding S_def by (simp only: nth_map nth_take fst_conv length_take min_less_iff_conj)
  qed
  then have select: "select_replay_rows S ?limit =
      Inr \<lparr>sel_last_cursor = (if k = 0 then None else Some (of_int (er_cursor (R ! (k - 1))))),
           sel_count = k, sel_has_more = (k < length R)\<rparr>"
    using k(2) kR lens(2) by (auto simp: select_replay_rows_def REPLAY_PAGE_FIXED_WIRE_BUDGET_def)
  have to_after: "to_sql_integer (rr_after_cursor request) = Inr ?after" using after by simp
  have fits: "ensure (?limit + 1 < 2 ^ 63) SequenceExhausted = Inr ()"
    "ensure (k < 2 ^ 63) SequenceExhausted = Inr ()"
    using limit kR(3) by (simp_all add: ensure_def)
  note unfolded = load_replay_entries_def [of px db request, unfolded Let_def to_after and_then.simps
      fits(1) rows, folded S_def, unfolded select and_then.simps]
  have "load_replay_entries px db request =
      Inr \<lparr>ents_entries = map entry_of (take k L),
           ents_next_cursor = (if k = 0 then rr_after_cursor request else snd (L ! (k - 1))),
           ents_has_more = (k < length L)\<rparr>"
  proof (cases "k = 0")
    case True
    then have "R = []" using kR(4) by auto
    then show ?thesis
      unfolding unfolded using True by (simp add: L)
  next
    case False
    let ?c = "er_cursor (R ! (k - 1))"
    have "R ! (k - 1) \<in> set R" using False kR(1) by simp
    with ok have c: "1 \<le> ?c" "?c < 2 ^ 63" by (auto simp: i64_MAX_def)
    then have to_last: "to_sql_integer (of_int ?c) = Inr ?c" by (simp add: unat_of_sql)
    have rows': "take k (filter (\<lambda>r. er_cursor r \<le> ?c) R) = take k R"
      using filter_le_nth [OF sorted, of "k - 1"] False kR(1) by simp
    have entries: "collect (replay_entry_from_row px) (take k R) = Inr (map entry_of (take k L))"
      using collect_replay_entries [of "take k R" px] ok
      by (force simp: L take_map dest: in_set_takeD)
    have last_entry: "take k L \<noteq> []" "ent_cursor (last (map entry_of (take k L))) = snd (L ! (k - 1))"
    proof -
      have "length L = length R" by (simp add: L)
      then have t: "take k L \<noteq> []" "last (take k L) = L ! (k - 1)"
        using last_take [of k L] False kR(1) by auto
      show "take k L \<noteq> []" by (rule t(1))
      show "ent_cursor (last (map entry_of (take k L))) = snd (L ! (k - 1))"
        unfolding last_map [OF t(1)] t(2) by (simp add: entry_of_def split: prod.splits)
    qed
    have "load_replay_entries px db request =
        Inr \<lparr>ents_entries = map entry_of (take k L),
             ents_next_cursor = ent_cursor (last (map entry_of (take k L))),
             ents_has_more = (k < length R)\<rparr>"
      unfolding unfolded replay_selection.simps if_not_P [OF False] option.case to_last
        and_then.simps fits(2) rows' entries
      using last_entry(1) by (simp only: map_is_Nil_conv if_False)
    moreover have "length R = length L" by (simp add: L)
    ultimately show ?thesis unfolding last_entry(2) using False by simp
  qed
  then show ?thesis using kR budget by (intro exI [of _ k]) (simp add: L)
qed

section \<open>Submission\<close>

text \<open>The abstract view: a route is the list of the exact envelope encodings accepted for it.\<close>

definition route_log :: "log_db \<Rightarrow> bytes \<Rightarrow> bytes list" where
  "route_log db rid = map er_encoded_envelope (route_rows db rid)"

definition route_epoch :: "log_db \<Rightarrow> bytes \<Rightarrow> int" where
  "route_epoch db rid = (case find_route db rid of None \<Rightarrow> 0 | Some r \<Rightarrow> rt_current_epoch r)"

lemma route_rows_length:
  assumes "log_inv px db" and "r \<in> set (db_routes db)"
  shows "int (length (route_rows db (rt_routing_id r))) = rt_next_cursor r - 1"
proof -
  have "route_ok db r" using assms by (simp add: log_inv_def)
  then have cursors: "map er_cursor (route_rows db (rt_routing_id r)) = [1..rt_next_cursor r - 1]"
    and "1 \<le> rt_next_cursor r" by (simp_all add: route_ok_def route_row_check_def)
  have "length (route_rows db (rt_routing_id r)) = nat (rt_next_cursor r - 1)"
    using arg_cong [OF cursors, of length] by simp
  with \<open>1 \<le> rt_next_cursor r\<close> show ?thesis by simp
qed

lemma route_rows_nth_cursor:
  assumes "log_inv px db" and "row \<in> set (route_rows db rid)"
  shows "nat (er_cursor row - 1) < length (route_rows db rid) \<and>
    route_rows db rid ! nat (er_cursor row - 1) = row"
proof -
  have "has_route db rid" using assms(2) route_rows_fresh [OF assms(1), of rid] by (cases "has_route db rid") auto
  then obtain r where r: "r \<in> set (db_routes db)" "rt_routing_id r = rid" by (auto simp: has_route_def)
  with assms(1) have cursors: "map er_cursor (route_rows db rid) = [1..rt_next_cursor r - 1]"
    by (auto simp: log_inv_def route_ok_def)
  from assms(2) obtain i where i: "i < length (route_rows db rid)" "route_rows db rid ! i = row"
    by (auto simp: in_set_conv_nth)
  then have "er_cursor row = [1..rt_next_cursor r - 1] ! i"
    using cursors by (metis nth_map)
  moreover have "i < length [1..rt_next_cursor r - 1]" using cursors i(1) by (metis length_map)
  ultimately have "er_cursor row = 1 + int i" by simp
  with i show ?thesis by simp
qed

lemma duplicate_row:
  assumes "log_inv px db" and "row \<in> set (db_envelopes db)"
    and "decode_relay_envelope px (er_encoded_envelope row) = Inr e"
  shows "er_routing_id row = routing_id_bytes (env_routing_id e)"
    and "er_envelope_id row = envelope_id_bytes (env_envelope_id e)"
proof -
  have "row_ok px row" using assms by (simp add: log_inv_def)
  then have row: "row = envelope_row_of e (er_encoded_envelope row) (er_cursor row)"
    using assms(3) by (auto elim: row_okE)
  show "er_routing_id row = routing_id_bytes (env_routing_id e)"
    "er_envelope_id row = envelope_id_bytes (env_envelope_id e)"
    by (subst row, simp)+
qed

text \<open>
  C1: A successful submission refines appending to the route's log. If it is new, the exact
  bytes are appended to the envelope's route, the cursor returned is their position in the
  route (counted from 1), and every other route is untouched; if it is a duplicate, nothing
  changes and the cursor is the position the same bytes already have.
\<close>
theorem submit_refines_append:
  assumes "log_inv px db" and "submit_encoded px e encoded now db = (Inr res, db')"
  shows "if sr_duplicate res
    then db' = db \<and> unat (sr_cursor res) \<le> length (route_log db (routing_id_bytes (env_routing_id e))) \<and>
      route_log db (routing_id_bytes (env_routing_id e)) ! (unat (sr_cursor res) - 1) = encoded
    else unat (sr_cursor res) = length (route_log db (routing_id_bytes (env_routing_id e))) + 1 \<and>
      (\<forall>rid. route_log db' rid = route_log db rid @
         (if rid = routing_id_bytes (env_routing_id e) then [encoded] else []))"
  using assms(2)
proof (cases rule: submit_encoded_Inr)
  case (duplicate row)
  let ?rid = "routing_id_bytes (env_routing_id e)"
  have rid: "er_routing_id row = ?rid"
    using duplicate_row(1) [OF assms(1) duplicate(2)] duplicate(1,4) by simp
  with duplicate(2) have mem: "row \<in> set (route_rows db ?rid)" by (simp add: route_rows_def)
  have c: "1 \<le> er_cursor row" "er_cursor row < 2 ^ 63"
    using route_rows_sorted(2) [OF assms(1), of ?rid] mem by (auto simp: i64_MAX_def)
  then have "unat (sr_cursor res) = nat (er_cursor row)" using duplicate(5) by (simp add: unat_of_sql)
  moreover have "db' = db"
    using duplicate(6) with_route_id [OF assms(1) duplicate(2)] rid by simp
  moreover have "nat (er_cursor row) - 1 = nat (er_cursor row - 1)" using c by simp
  moreover have "nat (er_cursor row) \<le> length (route_rows db ?rid)"
    using route_rows_nth_cursor [OF assms(1) mem] c by linarith
  ultimately show ?thesis
    using route_rows_nth_cursor [OF assms(1) mem] duplicate(4,5)
    by (simp add: route_log_def)
next
  case (fresh us r vs)
  let ?rid = "routing_id_bytes (env_routing_id e)"
  have "length ?rid = 32" using fresh(1) by (simp add: decode_relay_envelope_eq_Inr relay_envelope_ok_def)
  note inv' = log_inv_with_route [OF assms(1) this]
  have "int (length (route_rows db ?rid)) = rt_next_cursor r - 1"
    using route_rows_length [OF inv', of r] fresh(5,6) by simp
  moreover have "rt_next_cursor r < 2 ^ 63"
    using fresh(8) by (simp add: allocation_guard_def i64_MAX_def)
  then have "unat (sr_cursor res) = nat (rt_next_cursor r)"
    using fresh(10,12) by (simp add: unat_of_sql)
  ultimately have "unat (sr_cursor res) = length (route_rows db ?rid) + 1" by linarith
  then show ?thesis
    using fresh(12,13) by (simp add: route_log_def route_rows_accepted)
qed

lemma submit_leaves_row:
  assumes "submit_encoded px e encoded now db = (Inr res, db')"
  obtains row where "row \<in> set (db_envelopes db')" "er_encoded_envelope row = encoded"
    "sr_cursor res = of_int (er_cursor row)" "decode_relay_envelope px encoded = Inr e"
  using assms
proof (cases rule: submit_encoded_Inr)
  case (duplicate row)
  show ?thesis by (rule that [of row]) (use duplicate in \<open>simp_all add: with_route_def\<close>)
next
  case (fresh us r vs)
  show ?thesis
    by (rule that [of "envelope_row_of e encoded (rt_next_cursor r)"]) (use fresh in simp_all)
qed

lemma find_unique_member: "List.find P xs = Some x \<Longrightarrow> x \<in> set xs \<and> P x"
  by (induction xs) (auto split: if_splits)

lemma find_unique:
  assumes "distinct (map f xs)" and "x \<in> set xs"
  shows "List.find (\<lambda>y. f y = f x) xs = Some x"
  using assms by (induction xs) (auto simp: rev_image_eqI)

lemma resubmit_row:
  assumes inv: "log_inv px db" and row: "row \<in> set (db_envelopes db)"
    and dec: "decode_relay_envelope px (er_encoded_envelope row) = Inr e"
  shows "submit_encoded px e (er_encoded_envelope row) now db =
    (Inr \<lparr>sr_cursor = of_int (er_cursor row), sr_duplicate = True\<rparr>, db)"
proof -
  let ?rid = "routing_id_bytes (env_routing_id e)"
  note ids = duplicate_row [OF inv row dec]
  have ok: "relay_envelope_ok e" using dec by (simp add: decode_relay_envelope_eq_Inr)
  have row_ok: "row_ok px row" using inv row by (simp add: log_inv_def)
  then have eq: "row = envelope_row_of e (er_encoded_envelope row) (er_cursor row)" and range: "sql_range e"
    using dec by (auto elim: row_okE)
  have init: "initialize_route e db = Inr db"
    using ok with_route_id [OF inv row] ids(1) by (simp add: initialize_route_eq_Inr relay_envelope_ok_def)
  have found: "List.find (\<lambda>r. er_envelope_id r = envelope_id_bytes (env_envelope_id e)) (db_envelopes db) = Some row"
    using find_unique [of er_envelope_id "db_envelopes db" row] inv row ids(2) by (simp add: log_inv_def)
  have matches: "row_metadata_matches row e = Inr True"
    using row_metadata_of_row [OF ok range] eq by metis
  have "row \<in> set (route_rows db ?rid)" using row ids(1) by (simp add: route_rows_def)
  then have "0 \<le> er_cursor row" using route_rows_sorted(2) [OF inv, of ?rid] by auto
  then have "find_existing px db e (er_encoded_envelope row) =
      Inr (Some \<lparr>ex_cursor = of_int (er_cursor row), ex_identical = True\<rparr>)"
    using found dec matches row_ok_length [OF row_ok]
    by (simp add: find_existing_def Let_def domain_bounds from_sql_integer_def)
  then show ?thesis
    using dec init by (simp add: submit_encoded_def submit_transaction_def transact_def)
qed

text \<open>
  C23: Submission is idempotent for ever: once an envelope was accepted, submitting the same
  envelope with the same bytes again, after any further submissions and acknowledgments and
  even after it expired, returns the cursor of the first acceptance, marked as a duplicate,
  and changes nothing.
\<close>
theorem resubmission_idempotent:
  assumes "log_inv px db" and "submit_encoded px e encoded now db = (Inr res, db')"
    and "later = run_ops (log_step px) ops db'"
  shows "submit_encoded px e encoded now' later =
    (Inr \<lparr>sr_cursor = sr_cursor res, sr_duplicate = True\<rparr>, later)"
proof -
  have inv': "log_inv px db'" using submit_encoded_inv [OF assms(1), of e encoded now] assms(2) by simp
  from assms(2) obtain row where row: "row \<in> set (db_envelopes db')" "er_encoded_envelope row = encoded"
    "sr_cursor res = of_int (er_cursor row)" "decode_relay_envelope px encoded = Inr e"
    by (rule submit_leaves_row)
  have inv: "log_inv px later" unfolding assms(3) by (rule relay_log.run_invar [OF inv'])
  have "log_le db' later" unfolding assms(3) by (rule relay_log.run_le [OF inv'])
  then have "row \<in> set (db_envelopes later)" using row(1) by (auto simp: log_le_def)
  from resubmit_row [OF inv this] row(2-4) show ?thesis by simp
qed

text \<open>
  C2: Every history of submissions and acknowledgments leaves a log in which the cursors of
  each route are 1, 2, 3, ... without gaps in the order of acceptance, the accepted commits
  of a route consumed the parent epochs 0, 1, 2, ... one winner each, envelope identifiers
  are unique across routes, and every acknowledgment is of a cursor already assigned.
\<close>
theorem relay_log_history:
  fixes ops px
  defines "db \<equiv> run_ops (log_step px) ops empty_log"
  shows "(\<forall>r \<in> set (db_routes db).
      map er_cursor (route_rows db (rt_routing_id r)) = [1..rt_next_cursor r - 1] \<and>
      map er_expected_parent_epoch (filter (\<lambda>x. er_delivery_class x = 4) (route_rows db (rt_routing_id r)))
        = map Some [0..rt_current_epoch r - 1])
    \<and> distinct (map er_envelope_id (db_envelopes db))
    \<and> (\<forall>a \<in> set (db_acks db). \<exists>r \<in> set (db_routes db).
         rt_routing_id r = ar_routing_id a \<and> 1 \<le> ar_cursor a \<and> ar_cursor a < rt_next_cursor r)"
proof -
  have "log_inv px db" unfolding db_def by (rule relay_log.run_invar [OF log_inv_empty])
  then show ?thesis
    unfolding log_inv_def route_ok_def ack_ok_def ack_row_check_def by fastforce
qed

section \<open>Epoch serialisation\<close>

lemma update_route_guard:
  "List.find (\<lambda>r. rt_routing_id r = rid) rs = Some r \<Longrightarrow> \<not> guard r \<Longrightarrow>
   update_route rid guard f op rs = Inr (None, rs)"
  by (induction rs) (auto split: if_splits)

lemma find_route_with_route:
  obtains r where "find_route (with_route rid db) rid = Some r" "rt_current_epoch r = route_epoch db rid"
proof (cases "find_route db rid")
  case None
  then have none: "\<not> has_route db rid" by (auto simp: find_route_def has_route_def find_None_iff)
  have "List.find (\<lambda>r. rt_routing_id r = rid) (xs @ [y]) = Some y"
    if "List.find (\<lambda>r. rt_routing_id r = rid) xs = None" "rt_routing_id y = rid" for xs y
    using that by (induction xs) (auto split: if_splits)
  from this [of "db_routes db"] None none show ?thesis
    by (intro that [of "\<lparr>rt_routing_id = rid, rt_next_cursor = 1, rt_current_epoch = 0\<rparr>"])
      (simp_all add: find_route_def with_route_def route_epoch_def)
next
  case (Some r)
  then have "has_route db rid" using find_route_Some [OF Some] by (auto simp: has_route_def)
  with Some show ?thesis by (intro that [of r]) (simp_all add: with_route_def route_epoch_def)
qed

lemma find_route_split:
  assumes "db_routes db = us @ r # vs" "rt_routing_id r = rid" "rid \<notin> rt_routing_id ` set us"
  shows "find_route db rid = Some r"
  unfolding find_route_def assms(1) using assms(2,3) by (induction us) auto

text \<open>
  C24: The relay serialises commits by compare-and-set on the route's epoch: an accepted new
  commit or proposal names exactly the route's current epoch, and the epoch moves up by one
  for a commit and stays for every other class.
\<close>
theorem epoch_compare_and_set:
  assumes "log_inv px db" and "submit_encoded px e encoded now db = (Inr res, db')"
    and "\<not> sr_duplicate res"
  shows "(env_delivery_class e = GroupCommit \<or> env_delivery_class e = GroupProposal \<longrightarrow>
      map_option (\<lambda>p. int (unat p)) (env_expected_parent_epoch e)
        = Some (route_epoch db (routing_id_bytes (env_routing_id e)))) \<and>
    route_epoch db' (routing_id_bytes (env_routing_id e)) =
      route_epoch db (routing_id_bytes (env_routing_id e)) + (if env_delivery_class e = GroupCommit then 1 else 0)"
  using assms(2)
proof (cases rule: submit_encoded_Inr)
  case (duplicate row)
  then show ?thesis using assms(3) by simp
next
  case (fresh us r vs)
  let ?rid = "routing_id_bytes (env_routing_id e)"
  have "find_route (with_route ?rid db) ?rid = Some r"
    by (rule find_route_split [OF fresh(5-7)])
  then have old: "rt_current_epoch r = route_epoch db ?rid"
    using find_route_with_route [of ?rid db] by (metis option.inject)
  have "find_route db' ?rid = Some (advance_route e r)"
    using fresh(6,7,13) by (intro find_route_split [of _ us _ vs]) simp_all
  then show ?thesis
    using fresh(8) old by (simp add: route_epoch_def [of db'] allocation_guard_def)
qed

text \<open>
  A new, unexpired commit or proposal whose parent epoch is not the route's current
  epoch is refused as stale and leaves the database as it was, the route row that the
  attempt would have created included.
\<close>
lemma stale_epoch_refused:
  assumes inv: "log_inv px db" and dec: "decode_relay_envelope px encoded = Inr e"
    and parent: "env_expected_parent_epoch e = Some p" "unat p < 2 ^ 63"
    and stale: "int (unat p) \<noteq> route_epoch db (routing_id_bytes (env_routing_id e))"
    and new: "envelope_id_bytes (env_envelope_id e) \<notin> er_envelope_id ` set (db_envelopes db)"
    and unexpired: "now < env_expires_at_unix_seconds e"
  shows "submit_encoded px e encoded now db = (Inl StaleEpoch, db)"
proof -
  let ?rid = "routing_id_bytes (env_routing_id e)" let ?db = "with_route ?rid db"
  have ok: "relay_envelope_ok e" using dec by (simp add: decode_relay_envelope_eq_Inr)
  then have len: "length ?rid = 32" by (simp add: relay_envelope_ok_def)
  have cls: "env_delivery_class e = GroupCommit \<or> env_delivery_class e = GroupProposal"
    using parent_epoch_iff [OF ok] parent(1) by simp
  obtain r where r: "find_route ?db ?rid = Some r" "rt_current_epoch r = route_epoch db ?rid"
    by (rule find_route_with_route)
  have route: "route_ok ?db r"
    using log_inv_with_route [OF inv len] find_route_Some [OF r(1)] by (simp add: log_inv_def)
  then have bounds: "0 \<le> rt_next_cursor r" "0 \<le> rt_current_epoch r" "rt_current_epoch r < 2 ^ 63"
    by (auto simp: route_ok_def route_row_check_def i64_MAX_def)
  have "\<not> allocation_guard e r" using cls parent stale r(2) by (auto simp: allocation_guard_def)
  then have blocked: "update_route ?rid (allocation_guard e) (advance_route e) op (db_routes ?db)
      = Inr (None, db_routes ?db)" for op
    using r(1) by (intro update_route_guard) (simp_all add: find_route_def)
  have "p \<noteq> of_int (rt_current_epoch r)"
  proof
    assume "p = of_int (rt_current_epoch r)"
    then have "unat p = nat (rt_current_epoch r)" using unat_of_sql [OF bounds(2,3)] by simp
    then show False using stale r(2) bounds(2) by simp
  qed
  then have "classify_allocation_failure ?db e = Inr StaleEpoch"
    using r(1) bounds cls parent(1) by (simp add: classify_allocation_failure_def from_sql_integer_def)
  then have "allocate_cursor e ?db = Inl StaleEpoch"
    using allocate_cursor_unfold [of e ?db] blocked parent cls by auto
  moreover have "find_existing px ?db e encoded = Inr None"
    using new by (auto simp: find_existing_def with_route_def find_None_iff split: option.splits)
      (metis (mono_tags, lifting) find_Some_iff image_eqI nth_mem)+
  moreover have "initialize_route e db = Inr ?db" using len by (simp add: initialize_route_eq_Inr)
  moreover have "\<not> env_expires_at_unix_seconds e \<le> now" using unexpired by simp
  ultimately show ?thesis
    using dec by (simp add: submit_encoded_def submit_transaction_def transact_def)
qed

section \<open>Replay and acknowledgment\<close>

text \<open>
  On every log the relay can hold, a replay request for 1 to 100 envelopes succeeds and
  returns the next envelopes of the route after the given cursor, in cursor order, without
  skipping any: a non-empty remainder yields at least one envelope, the continuation flag
  says exactly whether more remain, and the next cursor is that of the last envelope.
\<close>
lemma replay_returns_next_envelopes:
  assumes "log_inv px db" and "1 \<le> unat (rr_limit request)" "unat (rr_limit request) \<le> 100"
    and "unat (rr_after_cursor request) < 2 ^ 63"
    and "L = log_after db (routing_id_bytes (rr_routing_id request)) (int (unat (rr_after_cursor request)))"
  shows "\<exists>k page. load_replay_entries px db request = Inr page \<and>
    map (\<lambda>x. (ent_encoded_envelope x, ent_cursor x)) (ents_entries page) = take k L \<and>
    k \<le> unat (rr_limit request) \<and> (L \<noteq> [] \<longrightarrow> 1 \<le> k) \<and>
    (ents_has_more page \<longleftrightarrow> k < length L) \<and>
    ents_next_cursor page = (if L = [] then rr_after_cursor request else snd (last (take k L)))"
proof -
  obtain k where k: "k \<le> length L" "k \<le> unat (rr_limit request)" "L \<noteq> [] \<longrightarrow> 0 < k"
    "load_replay_entries px db request =
      Inr \<lparr>ents_entries = map entry_of (take k L),
           ents_next_cursor = (if k = 0 then rr_after_cursor request else snd (L ! (k - 1))),
           ents_has_more = (k < length L)\<rparr>"
    using load_replay_entries_spec [OF assms(1-4)] assms(5) by blast
  have "map (\<lambda>x. (ent_encoded_envelope x, ent_cursor x)) (map entry_of xs) = xs" for xs
    by (induction xs) (auto simp: entry_of_def)
  moreover have "(if k = 0 then rr_after_cursor request else snd (L ! (k - 1)))
      = (if L = [] then rr_after_cursor request else snd (last (take k L)))"
    using k(1,3) last_take [of k L] by (cases "L = []") auto
  ultimately show ?thesis using k by (intro exI [of _ k]) auto
qed

lemma log_after_wire:
  assumes "log_inv px db"
  shows "\<forall>(e, c) \<in> set (log_after db rid after). \<exists>v. decode_relay_envelope px e = Inr v"
    and "sorted_wrt (<) (map snd (log_after db rid after))"
    and "0 \<notin> snd ` set (log_after db rid after)"
proof -
  let ?R = "filter (\<lambda>r. after < er_cursor r) (route_rows db rid)"
  have ok: "1 \<le> er_cursor r" "er_cursor r < 2 ^ 63" "row_ok px r" if "r \<in> set ?R" for r
    using route_rows_sorted(2) [OF assms, of rid] that by (auto simp: i64_MAX_def)
  show "\<forall>(e, c) \<in> set (log_after db rid after). \<exists>v. decode_relay_envelope px e = Inr v"
    using ok(3) by (fastforce simp: log_after_def elim: row_okE)
  have word: "unat (of_int (er_cursor r) :: u64) = nat (er_cursor r)" if "r \<in> set ?R" for r
    using ok [OF that] by (intro unat_of_sql) simp_all
  have "sorted_wrt (\<lambda>a b. er_cursor a < er_cursor b) ?R"
    using route_rows_sorted(1) [OF assms, of rid] by (simp add: sorted_wrt_map sorted_wrt_filter)
  then have "sorted_wrt (\<lambda>a b. (of_int (er_cursor a) :: u64) < of_int (er_cursor b)) ?R"
  proof (rule sorted_wrt_mono_rel [rotated])
    fix x y assume xy: "x \<in> set ?R" "y \<in> set ?R" "er_cursor x < er_cursor y"
    show "(of_int (er_cursor x) :: u64) < of_int (er_cursor y)"
      unfolding word_less_nat_alt word [OF xy(1)] word [OF xy(2)]
      using ok(1) [OF xy(2)] xy(3) by simp
  qed
  then show "sorted_wrt (<) (map snd (log_after db rid after))"
    by (simp add: log_after_def comp_def sorted_wrt_map)
  show "0 \<notin> snd ` set (log_after db rid after)"
  proof
    assume "0 \<in> snd ` set (log_after db rid after)"
    then obtain r where r: "r \<in> set ?R" "(of_int (er_cursor r) :: u64) = 0"
      unfolding log_after_def by force
    then show False using word [OF r(1)] ok(1) [OF r(1)] by simp
  qed
qed

lemma replay_page_encodes:
  assumes "log_inv px db" and "1 \<le> unat (rr_limit request)" "unat (rr_limit request) \<le> 100"
    and "unat (rr_after_cursor request) < 2 ^ 63"
    and "load_replay_entries px db request = Inr page"
  shows "\<exists>out. encode_replay_page_preserving px
      (map (\<lambda>x. (ent_encoded_envelope x, ent_cursor x)) (ents_entries page))
      (ents_next_cursor page) (ents_has_more page) = Inr out \<and> length out \<le> MAX_REPLAY_PAGE_BYTES"
proof -
  let ?L = "log_after db (routing_id_bytes (rr_routing_id request)) (int (unat (rr_after_cursor request)))"
  obtain k where k: "k \<le> length ?L" "k \<le> unat (rr_limit request)" "?L \<noteq> [] \<longrightarrow> 0 < k"
    "64 + (\<Sum>(e, c)\<leftarrow>take k ?L. length e + 32) \<le> MAX_REPLAY_PAGE_BYTES"
    "page = \<lparr>ents_entries = map entry_of (take k ?L),
           ents_next_cursor = (if k = 0 then rr_after_cursor request else snd (?L ! (k - 1))),
           ents_has_more = (k < length ?L)\<rparr>"
    using load_replay_entries_spec [OF assms(1-4)] assms(5) by auto
  have "map (\<lambda>x. (ent_encoded_envelope x, ent_cursor x)) (map entry_of xs) = xs" for xs
    by (induction xs) (auto simp: entry_of_def)
  then have entries: "map (\<lambda>x. (ent_encoded_envelope x, ent_cursor x)) (ents_entries page) = take k ?L"
    using k(5) by simp
  have "take k ?L \<noteq> [] \<Longrightarrow> snd (last (take k ?L)) \<le> ents_next_cursor page"
    using last_take [of k ?L] k(1,5) by simp
  moreover note log_after_wire [OF assms(1), of "routing_id_bytes (rr_routing_id request)"
      "int (unat (rr_after_cursor request))"]
  ultimately have "\<exists>out. encode_replay_page_preserving px (take k ?L) (ents_next_cursor page) (ents_has_more page) = Inr out"
    using assms(3) k(2,4)
    by (intro encode_replay_page_preserving_ok)
      (auto simp: sorted_wrt_take take_map [symmetric] MAX_REPLAY_PAGE_BYTES_def dest: in_set_takeD)
  then show ?thesis
    unfolding entries using encode_replay_page_preserving_eq_Inr by blast
qed

text \<open>
  C25: The byte budget of page selection (64 bytes plus 32 per envelope) covers the real
  wire size: the forwarding encoder accepts every page that replay selects, so a stored log
  never becomes unreadable because a page is too large.
\<close>
theorem replay_page_always_encodes:
  assumes "log_inv px db" and "1 \<le> unat (rr_limit request)" "unat (rr_limit request) \<le> 100"
    and "unat (rr_after_cursor request) < 2 ^ 63"
    and "load_replay_entries px db request = Inr page"
  shows "\<exists>out. encode_replay_page_preserving px
      (map (\<lambda>x. (ent_encoded_envelope x, ent_cursor x)) (ents_entries page))
      (ents_next_cursor page) (ents_has_more page) = Inr out \<and> length out \<le> MAX_REPLAY_PAGE_BYTES"
  using assms by (rule replay_page_encodes)

text \<open>
  A client that calls \<open>replay\<close> page after page, each time from the next cursor of the last
  page, until a page says that nothing more is stored; \<open>None\<close> when a call is refused or
  the budget of pages runs out.
\<close>

fun replay_all :: "nat \<Rightarrow> prost \<Rightarrow> log_db \<Rightarrow> routing_id \<Rightarrow> u32 \<Rightarrow> u64 \<Rightarrow> stored_relay_envelope list option" where
  "replay_all 0 px db rid limit after = None"
| "replay_all (Suc n) px db rid limit after =
     (case replay px db \<lparr>rr_routing_id = rid, rr_after_cursor = after, rr_limit = limit\<rparr> of
        Inl _ \<Rightarrow> None
      | Inr page \<Rightarrow>
          if page_has_more page
          then map_option ((@) (page_envelopes page)) (replay_all n px db rid limit (page_next_cursor page))
          else Some (page_envelopes page))"

text \<open>What a client sees of one entry of the log.\<close>

definition decoded_entry :: "prost \<Rightarrow> bytes \<times> u64 \<Rightarrow> stored_relay_envelope" where
  "decoded_entry px = (\<lambda>(b, c). \<lparr>stored_envelope = projr (decode_relay_envelope px b), stored_cursor = c\<rparr>)"

lemma stored_cursor_decoded [simp]: "stored_cursor (decoded_entry px x) = snd x"
  by (simp add: decoded_entry_def split: prod.splits)

lemma replay_spec:
  assumes inv: "log_inv px db" and limit: "1 \<le> unat (rr_limit request)" "unat (rr_limit request) \<le> 100"
    and after: "unat (rr_after_cursor request) < 2 ^ 63"
  defines "L \<equiv> log_after db (routing_id_bytes (rr_routing_id request)) (int (unat (rr_after_cursor request)))"
  obtains k where "k \<le> length L" "L \<noteq> [] \<Longrightarrow> 0 < k"
    "replay px db request =
      Inr \<lparr>page_envelopes = map (decoded_entry px) (take k L),
           page_next_cursor = (if k = 0 then rr_after_cursor request else snd (L ! (k - 1))),
           page_has_more = (k < length L)\<rparr>"
proof -
  obtain k where k: "k \<le> length L" "k \<le> unat (rr_limit request)" "L \<noteq> [] \<longrightarrow> 0 < k"
    and load: "load_replay_entries px db request =
      Inr \<lparr>ents_entries = map entry_of (take k L),
           ents_next_cursor = (if k = 0 then rr_after_cursor request else snd (L ! (k - 1))),
           ents_has_more = (k < length L)\<rparr>"
    using load_replay_entries_spec [OF inv limit after] unfolding L_def by blast
  note wire = log_after_wire [OF inv, of "routing_id_bytes (rr_routing_id request)" "int (unat (rr_after_cursor request))", folded L_def]
  have "and_then (map_err (\<lambda>_. InvalidStoredData) (decode_relay_envelope px (ent_encoded_envelope (entry_of x))))
      (\<lambda>envelope. map_err RelayDomain (StoredRelayEnvelope_new envelope (ent_cursor (entry_of x)))) = Inr (decoded_entry px x)"
    if x: "x \<in> set (take k L)" for x
  proof -
    obtain v where "decode_relay_envelope px (fst x) = Inr v" using wire(1) in_set_takeD [OF x] by fastforce
    moreover have "snd x \<noteq> 0" using wire(3) in_set_takeD [OF x] by (metis image_eqI)
    ultimately show ?thesis by (cases x) (simp add: entry_of_def decoded_entry_def StoredRelayEnvelope_new_def)
  qed
  then have envelopes: "collect (\<lambda>entry.
        and_then (map_err (\<lambda>_. InvalidStoredData) (decode_relay_envelope px (ent_encoded_envelope entry))) (\<lambda>envelope.
        map_err RelayDomain (StoredRelayEnvelope_new envelope (ent_cursor entry)))) (map entry_of (take k L)) =
      Inr (map (decoded_entry px) (take k L))"
    unfolding collect_eq_Inr by (simp only: list_all2_map1 list_all2_map2 list_all2_same) blast
  have "sorted_wrt (<) (map stored_cursor (map (decoded_entry px) (take k L)))"
    using sorted_wrt_take [OF wire(2), of k] by (simp add: comp_def take_map)
  moreover have "stored_cursor (last (map (decoded_entry px) (take k L))) = snd (L ! (k - 1))" if "take k L \<noteq> []"
    using last_take [of k L] k(1) that by (simp add: last_map)
  ultimately have "ReplayPage_new (map (decoded_entry px) (take k L))
      (if k = 0 then rr_after_cursor request else snd (L ! (k - 1))) (k < length L) =
      Inr \<lparr>page_envelopes = map (decoded_entry px) (take k L),
           page_next_cursor = (if k = 0 then rr_after_cursor request else snd (L ! (k - 1))),
           page_has_more = (k < length L)\<rparr>"
    using k(2) limit(2) by (auto simp: ReplayPage_new_eq_Inr)
  then have "replay px db request =
      Inr \<lparr>page_envelopes = map (decoded_entry px) (take k L),
           page_next_cursor = (if k = 0 then rr_after_cursor request else snd (L ! (k - 1))),
           page_has_more = (k < length L)\<rparr>"
    unfolding replay_def load and_then.simps replay_entries.simps envelopes by simp
  then show thesis using that [of k] k(1,3) by simp
qed

lemma filter_gt_nth:
  fixes f :: "'a \<Rightarrow> 'b :: linorder"
  assumes "sorted_wrt (<) (map f xs)" and "k < length xs"
  shows "filter (\<lambda>x. f (xs ! k) < f x) xs = drop (Suc k) xs"
  using assms
proof (induction xs arbitrary: k)
  case (Cons x xs)
  show ?case
  proof (cases k)
    case 0
    then show ?thesis using Cons.prems by (auto simp: filter_id_conv)
  next
    case (Suc j)
    then have "\<not> f (xs ! j) < f x" using Cons.prems by (auto simp: not_less less_imp_le)
    then show ?thesis using Suc Cons by simp
  qed
qed simp

lemma log_after_drop:
  assumes inv: "log_inv px db" and k: "0 < k" "k \<le> length (log_after db rid after)"
  shows "log_after db rid (int (unat (snd (log_after db rid after ! (k - 1))))) = drop k (log_after db rid after)"
proof -
  let ?R = "filter (\<lambda>r. after < er_cursor r) (route_rows db rid)"
  let ?x = "?R ! (k - 1)"
  have len: "k - 1 < length ?R" using k by (simp add: log_after_def)
  then have x: "?x \<in> set ?R" by (rule nth_mem)
  then have "1 \<le> er_cursor ?x" "er_cursor ?x < 2 ^ 63" and gt: "after < er_cursor ?x"
    using route_rows_sorted(2) [OF inv, of rid] by (auto simp: i64_MAX_def)
  then have "int (unat (of_int (er_cursor ?x) :: u64)) = er_cursor ?x"
    by (subst unat_of_sql) simp_all
  moreover have "snd (log_after db rid after ! (k - 1)) = of_int (er_cursor ?x)"
    using len by (simp add: log_after_def)
  moreover have "filter (\<lambda>r. er_cursor ?x < er_cursor r) (route_rows db rid) = filter (\<lambda>r. er_cursor ?x < er_cursor r) ?R"
    unfolding filter_filter by (rule filter_cong) (use gt in auto)
  moreover have "sorted_wrt (<) (map er_cursor ?R)"
    using route_rows_sorted(1) [OF inv, of rid] by (simp add: sorted_wrt_map sorted_wrt_filter)
  then have "filter (\<lambda>r. er_cursor ?x < er_cursor r) ?R = drop k ?R"
    using filter_gt_nth [of er_cursor ?R "k - 1"] len k(1) by simp
  ultimately show ?thesis by (simp only: log_after_def drop_map)
qed

lemma log_after_cursor_bound:
  assumes "log_inv px db" and "k < length (log_after db rid after)"
  shows "unat (snd (log_after db rid after ! k)) < 2 ^ 63"
proof -
  let ?x = "filter (\<lambda>r. after < er_cursor r) (route_rows db rid) ! k"
  have "?x \<in> set (filter (\<lambda>r. after < er_cursor r) (route_rows db rid))"
    using assms(2) by (intro nth_mem) (simp add: log_after_def)
  then have "1 \<le> er_cursor ?x" "er_cursor ?x < 2 ^ 63"
    using route_rows_sorted(2) [OF assms(1), of rid] by (auto simp: i64_MAX_def)
  moreover have "snd (log_after db rid after ! k) = of_int (er_cursor ?x)"
    using assms(2) by (simp add: log_after_def)
  ultimately show ?thesis by (simp add: unat_of_sql nat_less_iff)
qed

lemma replay_all_complete:
  assumes "log_inv px db" and "1 \<le> unat limit" "unat limit \<le> 100" and "unat after < 2 ^ 63" and "1 \<le> n"
    and "length (log_after db (routing_id_bytes rid) (int (unat after))) \<le> n"
  shows "replay_all n px db rid limit after =
    Some (map (decoded_entry px) (log_after db (routing_id_bytes rid) (int (unat after))))"
  using assms(4-6)
proof (induction n arbitrary: after)
  case (Suc n)
  let ?L = "log_after db (routing_id_bytes rid) (int (unat after))"
  let ?request = "\<lparr>rr_routing_id = rid, rr_after_cursor = after, rr_limit = limit\<rparr>"
  obtain k where k: "k \<le> length ?L" "?L \<noteq> [] \<Longrightarrow> 0 < k"
    "replay px db ?request =
      Inr \<lparr>page_envelopes = map (decoded_entry px) (take k ?L),
           page_next_cursor = (if k = 0 then after else snd (?L ! (k - 1))),
           page_has_more = (k < length ?L)\<rparr>"
    by (rule replay_spec [OF assms(1), of ?request]) (use assms(2,3) Suc.prems(1) in simp_all)
  show ?case
  proof (cases "k < length ?L")
    case True
    then have "?L \<noteq> []" by (metis list.size(3) not_less_zero)
    then have pos: "0 < k" by (rule k(2))
    let ?next = "snd (?L ! (k - 1))"
    have rest: "log_after db (routing_id_bytes rid) (int (unat ?next)) = drop k ?L"
      by (rule log_after_drop [OF assms(1) pos k(1)])
    have "unat ?next < 2 ^ 63" using log_after_cursor_bound [OF assms(1), of "k - 1"] True by simp
    moreover have "1 \<le> n" "length (log_after db (routing_id_bytes rid) (int (unat ?next))) \<le> n"
      unfolding rest using Suc.prems(3) pos True by simp_all
    ultimately have "replay_all n px db rid limit ?next = Some (map (decoded_entry px) (drop k ?L))"
      using Suc.IH [of ?next] rest by simp
    then show ?thesis
      using k(3) True pos by (simp add: map_append [symmetric] del: map_append)
  next
    case False
    then show ?thesis using k(1,3) by simp
  qed
qed simp

lemma route_cursors:
  assumes "log_inv px db"
  shows "map er_cursor (route_rows db rid) = [1..int (length (route_rows db rid))]"
proof (cases "has_route db rid")
  case True
  then obtain r where r: "r \<in> set (db_routes db)" "rt_routing_id r = rid" by (auto simp: has_route_def)
  with assms have "route_ok db r" by (auto simp: log_inv_def)
  with r have "map er_cursor (route_rows db rid) = [1..rt_next_cursor r - 1]" by (simp add: route_ok_def)
  then show ?thesis using route_rows_length [OF assms r(1)] r(2) by simp
next
  case False
  then have "route_rows db rid = []"
    using assms by (auto simp: log_inv_def route_rows_def filter_empty_conv)
  then show ?thesis by simp
qed

text \<open>
  C22: Reading a route page by page from cursor 0 with \<open>replay\<close>, whatever the page limit,
  ends after at most one page per stored envelope, or one page when nothing is stored, and
  yields exactly the route's log: every accepted envelope once, decoded from the bytes that
  were submitted, in the order of acceptance and with the cursors 1, 2, 3 and so on. The page
  limit is between 1 and 100, and the route is not written to meanwhile.
\<close>
theorem replay_drains_route:
  assumes "log_inv px db" and "1 \<le> unat limit" "unat limit \<le> 100"
    and "max 1 (length (route_log db (routing_id_bytes rid))) \<le> n"
  shows "\<exists>stored. replay_all n px db rid limit 0 = Some stored \<and>
    list_all2 (\<lambda>s b. decode_relay_envelope px b = Inr (stored_envelope s)) stored (route_log db (routing_id_bytes rid)) \<and>
    map (\<lambda>s. uint (stored_cursor s)) stored = [1..int (length stored)]"
proof -
  let ?R = "route_rows db (routing_id_bytes rid)"
  let ?L = "map (\<lambda>r. (er_encoded_envelope r, of_int (er_cursor r) :: u64)) ?R"
  have "filter (\<lambda>r. 0 < er_cursor r) ?R = ?R"
    using route_rows_sorted(2) [OF assms(1)] by (intro filter_True) fastforce
  then have drained: "log_after db (routing_id_bytes rid) 0 = ?L" by (simp add: log_after_def)
  have n: "1 \<le> n" "length ?L \<le> n" using assms(4) by (simp_all add: route_log_def)
  then have all: "replay_all n px db rid limit 0 = Some (map (decoded_entry px) ?L)"
    using drained replay_all_complete [OF assms(1-3), where after = 0 and rid = rid and n = n] by simp
  have row: "1 \<le> er_cursor r" "er_cursor r < 2 ^ 63" "row_ok px r" if "r \<in> set ?R" for r
    using bspec [OF route_rows_sorted(2) [OF assms(1)] that] by (auto simp: i64_MAX_def)
  have "decode_relay_envelope px (er_encoded_envelope r) = Inr (projr (decode_relay_envelope px (er_encoded_envelope r)))"
    if "r \<in> set ?R" for r
    using row(3) [OF that] by (auto elim: row_okE)
  then have decoded: "list_all2 (\<lambda>s b. decode_relay_envelope px b = Inr (stored_envelope s)) (map (decoded_entry px) ?L)
      (route_log db (routing_id_bytes rid))"
    unfolding route_log_def list_all2_map1 list_all2_map2 list_all2_same by (simp add: decoded_entry_def)
  have "uint (of_int (er_cursor r) :: u64) = er_cursor r" if "r \<in> set ?R" for r
    using row(1,2) [OF that] by (simp add: unsigned_of_int take_bit_int_eq_self)
  then have "map (\<lambda>s. uint (stored_cursor s)) (map (decoded_entry px) ?L) = map er_cursor ?R" by simp
  then have "map (\<lambda>s. uint (stored_cursor s)) (map (decoded_entry px) ?L) = [1..int (length (map (decoded_entry px) ?L))]"
    unfolding route_cursors [OF assms(1)] by (simp only: length_map)
  with all decoded show ?thesis by blast
qed

text \<open>
  C26: Acknowledgments are safe although the check and the update are separate statements:
  if the check passed in some state and any submissions and acknowledgments ran before the
  update, the update still leaves a log that satisfies the invariant, the recorded cursor
  of the principal never moves back, and the value returned is the recorded one and at most
  the highest assigned cursor.
\<close>
theorem acknowledge_interleaved:
  assumes "log_inv px db" and "acknowledge_check request db = Inr ()" and "ack_cursor request \<noteq> 0"
    and "mid = run_ops (log_step px) ops db"
    and "acknowledge_upsert p request mid = (Inr cursor, db')"
  shows "log_inv px db' \<and> log_le mid db' \<and>
    ack_lookup (db_acks db') (routing_id_bytes (ack_routing_id request)) (principal_id_bytes p)
      = Some (int (unat cursor)) \<and>
    ack_cursor request \<le> cursor \<and>
    unat cursor \<le> length (route_log db' (routing_id_bytes (ack_routing_id request)))"
proof -
  let ?rid = "routing_id_bytes (ack_routing_id request)"
  have inv: "log_inv px mid" unfolding assms(4) by (rule relay_log.run_invar [OF assms(1)])
  have le: "log_le db mid" unfolding assms(4) by (rule relay_log.run_le [OF assms(1)])
  obtain r where r: "r \<in> set (db_routes db)" "rt_routing_id r = ?rid"
    "int (unat (ack_cursor request)) \<le> rt_next_cursor r - 1"
    by (rule acknowledge_check_route [OF assms(2,1,3)])
  with le obtain r' where r': "r' \<in> set (db_routes mid)" "route_le r r'" unfolding log_le_def by blast
  then have bound: "rt_routing_id r' = ?rid" "int (unat (ack_cursor request)) \<le> rt_next_cursor r' - 1"
    using r(2,3) by (auto simp: route_le_def)
  have inv': "log_inv px db'"
    using acknowledge_upsert_inv [OF inv, of request p] r'(1) bound assms(5) by fastforce
  have le': "log_le mid db'" using acknowledge_upsert_le [of mid p request] assms(5) by simp
  show ?thesis
    using assms(5)
  proof (cases rule: acknowledge_upsert_cases [of p request mid])
    case (refused err)
    then show ?thesis using assms(5) by simp
  next
    case (stored c acks)
    then have eq: "from_sql_integer c = Inr cursor" "db' = mid\<lparr>db_acks := acks\<rparr>" using assms(5) by auto
    have row: "ar_routing_id (ack_row_of p request) = ?rid"
      "ar_principal_id (ack_row_of p request) = principal_id_bytes p"
      "ar_cursor (ack_row_of p request) = int (unat (ack_cursor request))"
      by (simp_all add: ack_row_of_def)
    note lookup = upsert_ack_lookup [OF stored(4), unfolded row]
    have found: "ack_lookup (db_acks db') ?rid (principal_id_bytes p) = Some c"
      using lookup(2) eq(2) by simp
    then obtain a where a: "a \<in> set (db_acks db')" "ar_routing_id a = ?rid" "ar_cursor a = c"
      by (auto simp: ack_lookup_def dest!: find_unique_member)
    with inv' obtain r'' where r'': "r'' \<in> set (db_routes db')" "rt_routing_id r'' = ?rid"
      "1 \<le> c" "c \<le> rt_next_cursor r'' - 1"
      by (fastforce simp: log_inv_def ack_ok_def ack_row_check_def)
    have "rt_next_cursor r'' \<le> i64_MAX" using inv' r''(1) by (simp add: log_inv_def route_ok_def)
    then have c: "c < 2 ^ 63" "unat cursor = nat c"
      using eq(1) r'' unat_of_sql [of c] by (auto simp: i64_MAX_def)
    have "int (unat (ack_cursor request)) \<le> c" using lookup(1) by (auto split: option.splits)
    then have "ack_cursor request \<le> cursor" using c(2) by (simp only: word_le_nat_alt nat_le_iff le_nat_iff)
    moreover have "unat cursor \<le> length (route_rows db' ?rid)"
      using route_rows_length [OF inv' r''(1)] r''(2,4) c(2) by simp
    moreover have "int (unat cursor) = c" using c(2) r''(3) by simp
    ultimately show ?thesis using inv' le' found by (simp add: route_log_def)
  qed
qed

section \<open>The properties at a concrete log\<close>

definition sample_log :: "bytes \<Rightarrow> log_db" where
  "sample_log p =
     \<lparr>db_routes = [\<lparr>rt_routing_id = replicate 32 1, rt_next_cursor = 2,
                    rt_current_epoch = (if p ! 1 = 4 then 1 else 0)\<rparr>],
      db_envelopes = [envelope_row_of (sample_envelope p) (sample_encoding p) 1],
      db_acks = []\<rparr>"

definition sample_ack :: acknowledge_request where
  "sample_ack = \<lparr>ack_routing_id = RoutingId (replicate 32 1), ack_cursor = 1\<rparr>"

definition sample_principal :: relay_principal_id where
  "sample_principal = RelayPrincipalId (replicate 32 9)"

lemma sample_encoding_bounds:
  "length p \<le> 1000 \<Longrightarrow> 1 \<le> length (sample_encoding p) \<and> length (sample_encoding p) \<le> 1048576"
  using length_sample_encoding [of p]
  by (simp add: sample_encoding_def length_append_length_delimited)

lemma sample_submit:
  assumes "p = [7, 4, 0] \<or> p = [7, 5]"
  shows "submit_encoded sample_prost (sample_envelope p) (sample_encoding p) 10 empty_log =
    (Inr \<lparr>sr_cursor = 1, sr_duplicate = False\<rparr>, sample_log p)"
proof -
  have "1 \<le> length p" "length p \<le> 1000" using assms by auto
  note dec = decode_sample [OF this] and len = sample_encoding_bounds [OF this(2)]
  show ?thesis
    using assms dec len
    by (auto simp: submit_encoded_def submit_transaction_def transact_def initialize_route_def
        route_row_check_def has_route_def empty_log_def find_existing_def allocate_cursor_def
        insert_envelope_def envelope_row_check_def sample_log_def envelope_row_of_def
        sample_envelope_def application_v1_def APPLICATION_PROTOCOL_MAJOR_def
        APPLICATION_PROTOCOL_MINOR_def i64_MAX_def Let_def to_sql_integer_def from_sql_integer_def)
qed

lemma sample_log_inv: "p = [7, 4, 0] \<or> p = [7, 5] \<Longrightarrow> log_inv sample_prost (sample_log p)"
  using submit_encoded_inv [OF log_inv_empty, of sample_prost "sample_envelope p" "sample_encoding p" 10]
    sample_submit [of p] by simp

lemma sample_route_log [simp]:
  "route_log empty_log rid = []"
  "route_log (sample_log p) (replicate 32 1) = [sample_encoding p]"
  by (simp_all add: route_log_def route_rows_def empty_log_def sample_log_def envelope_row_of_def
      sample_envelope_def)

lemma sample_log_after:
  "log_after (sample_log p) (replicate 32 1) 0 = [(sample_encoding p, 1)]"
  by (simp add: log_after_def route_rows_def sample_log_def envelope_row_of_def sample_envelope_def)

lemma sample_routing [simp]: "env_routing_id (sample_envelope p) = RoutingId (replicate 32 1)"
  by (simp add: sample_envelope_def)

theorem submit_refines_append_witness:
  "route_log (snd (submit_encoded sample_prost (sample_envelope [7, 5]) (sample_encoding [7, 5]) 10 empty_log))
     (replicate 32 1) = [sample_encoding [7, 5]]"
  using submit_refines_append [OF log_inv_empty sample_submit [of "[7, 5]"]] sample_submit [of "[7, 5]"]
  by simp

theorem resubmission_idempotent_witness:
  "submit_encoded sample_prost (sample_envelope [7, 5]) (sample_encoding [7, 5]) 5000
     (run_ops (log_step sample_prost) [Acknowledge sample_principal sample_ack] (sample_log [7, 5]))
   = (Inr \<lparr>sr_cursor = 1, sr_duplicate = True\<rparr>,
      run_ops (log_step sample_prost) [Acknowledge sample_principal sample_ack] (sample_log [7, 5]))"
  using resubmission_idempotent [OF log_inv_empty sample_submit [of "[7, 5]"] refl,
      where now' = 5000 and ops = "[Acknowledge sample_principal sample_ack]"]
  by (simp del: run_ops.simps)

theorem relay_log_history_witness:
  "\<exists>db. db = run_ops (log_step sample_prost)
      [Submit_encoded (sample_envelope [7, 4, 0]) (sample_encoding [7, 4, 0]) 10] empty_log \<and>
    db_routes db \<noteq> [] \<and>
    map er_cursor (route_rows db (rt_routing_id (hd (db_routes db)))) = [1] \<and>
    map er_expected_parent_epoch (filter (\<lambda>x. er_delivery_class x = 4)
      (route_rows db (rt_routing_id (hd (db_routes db))))) = [Some 0]"
  using relay_log_history [of sample_prost "[Submit_encoded (sample_envelope [7, 4, 0]) (sample_encoding [7, 4, 0]) 10]"]
    sample_submit [of "[7, 4, 0]"]
  by (simp add: sample_log_def)

theorem epoch_compare_and_set_witness:
  "route_epoch (snd (submit_encoded sample_prost (sample_envelope [7, 4, 0]) (sample_encoding [7, 4, 0]) 10 empty_log))
     (replicate 32 1) = 1"
  using epoch_compare_and_set [OF log_inv_empty sample_submit [of "[7, 4, 0]"]] sample_submit [of "[7, 4, 0]"]
  by (simp add: sample_envelope_def route_epoch_def [of empty_log] find_route_def empty_log_def)

definition sample_request :: replay_request where
  "sample_request = \<lparr>rr_routing_id = RoutingId (replicate 32 1), rr_after_cursor = 0, rr_limit = 100\<rparr>"

lemma sample_request_ok:
  "1 \<le> unat (rr_limit sample_request)" "unat (rr_limit sample_request) \<le> 100"
  "unat (rr_after_cursor sample_request) < 2 ^ 63"
  "[(sample_encoding p, 1)] = log_after (sample_log p) (routing_id_bytes (rr_routing_id sample_request))
     (int (unat (rr_after_cursor sample_request)))"
  by (simp_all add: sample_request_def sample_log_after)

theorem replay_page_always_encodes_witness:
  "\<exists>page out. load_replay_entries sample_prost (sample_log [7, 5]) sample_request = Inr page \<and>
    encode_replay_page_preserving sample_prost
      (map (\<lambda>x. (ent_encoded_envelope x, ent_cursor x)) (ents_entries page))
      (ents_next_cursor page) (ents_has_more page) = Inr out"
proof -
  obtain page where "load_replay_entries sample_prost (sample_log [7, 5]) sample_request = Inr page"
    using load_replay_entries_spec [OF sample_log_inv [of "[7, 5]"] sample_request_ok(1-3)] by auto
  moreover from replay_page_always_encodes [OF sample_log_inv sample_request_ok(1-3) this]
  obtain out where "encode_replay_page_preserving sample_prost
      (map (\<lambda>x. (ent_encoded_envelope x, ent_cursor x)) (ents_entries page))
      (ents_next_cursor page) (ents_has_more page) = Inr out" by auto
  ultimately show ?thesis by blast
qed

theorem replay_drains_route_witness:
  "\<exists>stored. replay_all 1 sample_prost (sample_log [7, 5]) (RoutingId (replicate 32 1)) 100 0 = Some stored \<and>
     map (\<lambda>s. uint (stored_cursor s)) stored = [1]"
proof -
  have log: "route_log (sample_log [7, 5]) (routing_id_bytes (RoutingId (replicate 32 1))) = [sample_encoding [7, 5]]"
    by simp
  obtain stored where "replay_all 1 sample_prost (sample_log [7, 5]) (RoutingId (replicate 32 1)) 100 0 = Some stored"
    "list_all2 (\<lambda>s b. decode_relay_envelope sample_prost b = Inr (stored_envelope s)) stored [sample_encoding [7, 5]]"
    "map (\<lambda>s. uint (stored_cursor s)) stored = [1..int (length stored)]"
    using replay_drains_route [OF sample_log_inv [of "[7, 5]"], of 100 "RoutingId (replicate 32 1)" 1]
    unfolding log by auto
  moreover from this(2) have "length stored = 1" by (auto dest: list_all2_lengthD)
  ultimately show ?thesis by auto
qed

theorem acknowledge_interleaved_witness:
  "\<exists>cursor db'. acknowledge_upsert sample_principal sample_ack (sample_log [7, 5]) = (Inr cursor, db') \<and>
     log_inv sample_prost db' \<and> 1 \<le> cursor"
proof -
  have check: "acknowledge_check sample_ack (sample_log [7, 5]) = Inr ()"
    by (simp add: acknowledge_check_def sample_ack_def sample_log_def find_route_def from_sql_integer_def)
  obtain cursor db' where stored: "acknowledge_upsert sample_principal sample_ack (sample_log [7, 5]) = (Inr cursor, db')"
    by (simp add: acknowledge_upsert_unfold sample_ack_def sample_log_def has_route_def ack_row_check_def
        ack_row_of_def sample_principal_def from_sql_integer_def)
  have "log_inv sample_prost db' \<and> ack_cursor sample_ack \<le> cursor"
    using acknowledge_interleaved [OF sample_log_inv check _ _ stored, where ops = "[]"]
    by (simp add: sample_ack_def)
  with stored show ?thesis by (auto simp: sample_ack_def)
qed

end
