(* ===== verification/Relay_Rendezvous.thy ===== *)
theory Relay_Rendezvous
  imports Relay_Base
begin

text \<open>
  The pairing rendezvous of the relay: the opaque record of
  \<open>crates/Konclave.DomainCore/src/pairing_rendezvous.rs\<close>, the publish and take decisions
  of \<open>crates/Konclave.RelayCore/src/pairing_rendezvous.rs\<close>, and their transactions over
  the table \<open>relay_pairing_rendezvous\<close> in \<open>sqlite.rs\<close>. A record can be taken once,
  before it expires, and the table is bounded in total and per owner.
\<close>

section \<open>Records and decisions\<close>

definition MAX_PAIRING_RENDEZVOUS_CIPHERTEXT_BYTES :: usize where
  "MAX_PAIRING_RENDEZVOUS_CIPHERTEXT_BYTES = 8 * 1024 + 16"

record pairing_rendezvous_record =
  rz_version :: protocol_version
  rz_lookup_id :: pairing_rendezvous_id
  rz_expires_at_unix_seconds :: u64
  rz_nonce :: pairing_rendezvous_nonce
  rz_ciphertext :: bytes

definition PairingRendezvousRecord_new ::
    "protocol_version \<Rightarrow> pairing_rendezvous_id \<Rightarrow> u64 \<Rightarrow> pairing_rendezvous_nonce \<Rightarrow> bytes \<Rightarrow>
     konclave_domain_error + pairing_rendezvous_record" where
  "PairingRendezvousRecord_new version lookup_id expires_at_unix_seconds nonce ciphertext =
     (if expires_at_unix_seconds = 0 then Inl (ZeroValue ''pairing_rendezvous_expiry'')
      else if \<not> (16 \<le> length ciphertext \<and> length ciphertext \<le> MAX_PAIRING_RENDEZVOUS_CIPHERTEXT_BYTES)
      then Inl (OutOfRange ''pairing_rendezvous_ciphertext'' 16
                  MAX_PAIRING_RENDEZVOUS_CIPHERTEXT_BYTES (length ciphertext))
      else Inr \<lparr>rz_version = version, rz_lookup_id = lookup_id,
                rz_expires_at_unix_seconds = expires_at_unix_seconds, rz_nonce = nonce,
                rz_ciphertext = ciphertext\<rparr>)"

record rendezvous_take_request =
  rzt_version :: protocol_version
  rzt_lookup_id :: pairing_rendezvous_id

definition MAX_ACTIVE_PAIRING_RENDEZVOUS :: usize where "MAX_ACTIVE_PAIRING_RENDEZVOUS = 10000"
definition MAX_ACTIVE_PAIRING_RENDEZVOUS_PER_PRINCIPAL :: usize where
  "MAX_ACTIVE_PAIRING_RENDEZVOUS_PER_PRINCIPAL = 32"

record stored_pairing_rendezvous =
  srz_owner :: relay_principal_id
  srz_record :: pairing_rendezvous_record

datatype rendezvous_publish_decision = RzInsert | RzIdentical | RzReplaceExpired
datatype rendezvous_take_decision = RzConsume
datatype rendezvous_publish_outcome = RzPublished | RzAlreadyPublished

definition decide_pairing_rendezvous_publish ::
    "relay_principal_id \<Rightarrow> pairing_rendezvous_record \<Rightarrow> stored_pairing_rendezvous option \<Rightarrow> u64 \<Rightarrow>
     usize \<Rightarrow> usize \<Rightarrow> relay_error + rendezvous_publish_decision" where
  "decide_pairing_rendezvous_publish owner candidate existing now_unix_seconds
       active_global_count active_principal_count =
     (if rz_expires_at_unix_seconds candidate \<le> now_unix_seconds then Inl ExpiredPairingRendezvous
      else
        let replaces_expired = (case existing of None \<Rightarrow> False
              | Some ex \<Rightarrow> rz_expires_at_unix_seconds (srz_record ex) \<le> now_unix_seconds) in
        case (if replaces_expired then None else existing) of
          Some ex \<Rightarrow>
            if srz_owner ex = owner \<and> srz_record ex = candidate then Inr RzIdentical
            else Inl PairingRendezvousConflict
        | None \<Rightarrow>
            if active_global_count \<ge> MAX_ACTIVE_PAIRING_RENDEZVOUS
            then Inl PairingRendezvousGlobalCapacityExceeded
            else if active_principal_count \<ge> MAX_ACTIVE_PAIRING_RENDEZVOUS_PER_PRINCIPAL
            then Inl PairingRendezvousPrincipalCapacityExceeded
            else Inr (if replaces_expired then RzReplaceExpired else RzInsert))"

definition decide_pairing_rendezvous_take ::
    "stored_pairing_rendezvous option \<Rightarrow> u64 \<Rightarrow> relay_error + rendezvous_take_decision" where
  "decide_pairing_rendezvous_take existing now_unix_seconds =
     and_then (ok_or PairingRendezvousUnavailable existing) (\<lambda>ex.
     if rz_expires_at_unix_seconds (srz_record ex) \<le> now_unix_seconds
     then Inl PairingRendezvousUnavailable else Inr RzConsume)"

section \<open>The table and its transactions\<close>

record rendezvous_row =
  rr_lookup_id :: bytes
  rr_owner_principal_id :: bytes
  rr_version_major :: int
  rr_version_minor :: int
  rr_expires_at_unix_seconds :: int
  rr_nonce :: bytes
  rr_ciphertext :: bytes

type_synonym rendezvous_db = "rendezvous_row list"

definition rendezvous_row_check :: "rendezvous_row \<Rightarrow> bool" where
  "rendezvous_row_check r \<longleftrightarrow>
     length (rr_lookup_id r) = 32 \<and> length (rr_owner_principal_id r) = 32 \<and>
     1 \<le> rr_version_major r \<and> rr_version_major r \<le> 4294967295 \<and>
     0 \<le> rr_version_minor r \<and> rr_version_minor r \<le> 4294967295 \<and>
     1 \<le> rr_expires_at_unix_seconds r \<and> length (rr_nonce r) = 12 \<and>
     16 \<le> length (rr_ciphertext r) \<and> length (rr_ciphertext r) \<le> 8208"

definition cleanup_expired_pairing_rendezvous ::
    "u64 \<Rightarrow> pairing_rendezvous_id option \<Rightarrow> rendezvous_db \<Rightarrow> relay_error + rendezvous_db" where
  "cleanup_expired_pairing_rendezvous now_unix_seconds excluded_lookup_id db =
     and_then (to_sql_integer now_unix_seconds) (\<lambda>now.
     Inr (filter (\<lambda>r. \<not> (rr_expires_at_unix_seconds r \<le> now \<and>
        (case excluded_lookup_id of None \<Rightarrow> True
         | Some x \<Rightarrow> rr_lookup_id r \<noteq> pairing_rendezvous_id_bytes x))) db))"

definition active_pairing_rendezvous_counts ::
    "rendezvous_db \<Rightarrow> relay_principal_id \<Rightarrow> u64 \<Rightarrow> relay_error + (usize \<times> usize)" where
  "active_pairing_rendezvous_counts db owner now_unix_seconds =
     and_then (to_sql_integer now_unix_seconds) (\<lambda>now.
     let active = filter (\<lambda>r. now < rr_expires_at_unix_seconds r) db in
     Inr (length active, length (filter (\<lambda>r. rr_owner_principal_id r = principal_id_bytes owner) active)))"

definition stored_from_row :: "rendezvous_row \<Rightarrow> relay_error + stored_pairing_rendezvous" where
  "stored_from_row row =
     and_then (and_then (sized_blob 32 (rr_lookup_id row))
        (\<lambda>b. map_err (\<lambda>_. InvalidStoredData) (PairingRendezvousId_from_slice b))) (\<lambda>stored_lookup_id.
     and_then (and_then (sized_blob 32 (rr_owner_principal_id row))
        (\<lambda>b. map_err (\<lambda>_. InvalidStoredData) (RelayPrincipalId_from_slice b))) (\<lambda>owner.
     and_then (from_sql_u32 (rr_version_major row)) (\<lambda>version_major.
     and_then (from_sql_u32 (rr_version_minor row)) (\<lambda>version_minor.
     and_then (map_err (\<lambda>_. InvalidStoredData) (ProtocolVersion_new version_major version_minor)) (\<lambda>version.
     and_then (from_sql_integer (rr_expires_at_unix_seconds row)) (\<lambda>expires_at_unix_seconds.
     and_then (and_then (sized_blob 12 (rr_nonce row))
        (\<lambda>b. map_err (\<lambda>_. InvalidStoredData) (PairingRendezvousNonce_from_slice b))) (\<lambda>nonce.
     and_then (map_err (\<lambda>_. InvalidStoredData)
        (PairingRendezvousRecord_new version stored_lookup_id expires_at_unix_seconds nonce
           (rr_ciphertext row))) (\<lambda>record'.
     Inr \<lparr>srz_owner = owner, srz_record = record'\<rparr>))))))))"

definition load_pairing_rendezvous ::
    "rendezvous_db \<Rightarrow> pairing_rendezvous_id \<Rightarrow> relay_error + stored_pairing_rendezvous option" where
  "load_pairing_rendezvous db lookup_id =
     (case List.find (\<lambda>r. rr_lookup_id r = pairing_rendezvous_id_bytes lookup_id) db of
        None \<Rightarrow> Inr None
      | Some row \<Rightarrow> and_then (stored_from_row row) (\<lambda>s. Inr (Some s)))"

definition delete_rendezvous :: "pairing_rendezvous_id \<Rightarrow> rendezvous_db \<Rightarrow> rendezvous_db" where
  "delete_rendezvous lookup_id db = filter (\<lambda>r. rr_lookup_id r \<noteq> pairing_rendezvous_id_bytes lookup_id) db"

definition insert_pairing_rendezvous ::
    "relay_principal_id \<Rightarrow> pairing_rendezvous_record \<Rightarrow> rendezvous_db \<Rightarrow> relay_error + rendezvous_db" where
  "insert_pairing_rendezvous owner record' db =
     and_then (to_sql_integer (rz_expires_at_unix_seconds record')) (\<lambda>expires.
     let row = \<lparr>rr_lookup_id = pairing_rendezvous_id_bytes (rz_lookup_id record'),
                rr_owner_principal_id = principal_id_bytes owner,
                rr_version_major = int (unat (major (rz_version record'))),
                rr_version_minor = int (unat (minor (rz_version record'))),
                rr_expires_at_unix_seconds = expires,
                rr_nonce = pairing_rendezvous_nonce_bytes (rz_nonce record'),
                rr_ciphertext = rz_ciphertext record'\<rparr> in
     if rendezvous_row_check row \<and> rr_lookup_id row \<notin> rr_lookup_id ` set db
     then Inr (db @ [row])
     else Inl (StorageFailure ''pairing rendezvous insert''))"

text \<open>From the begin to the commit of the publish transaction.\<close>

definition publish_transaction ::
    "relay_principal_id \<Rightarrow> pairing_rendezvous_record \<Rightarrow> u64 \<Rightarrow> rendezvous_db \<Rightarrow>
     relay_error + ((relay_error + rendezvous_publish_outcome) \<times> rendezvous_db)" where
  "publish_transaction owner record' now_unix_seconds db =
     and_then (cleanup_expired_pairing_rendezvous now_unix_seconds (Some (rz_lookup_id record')) db) (\<lambda>db.
     and_then (load_pairing_rendezvous db (rz_lookup_id record')) (\<lambda>existing.
     and_then
       (if (case existing of None \<Rightarrow> True
            | Some ex \<Rightarrow> rz_expires_at_unix_seconds (srz_record ex) \<le> now_unix_seconds)
        then active_pairing_rendezvous_counts db owner now_unix_seconds
        else Inr (0, 0)) (\<lambda>(active_global_count, active_principal_count).
     and_then (decide_pairing_rendezvous_publish owner record' existing now_unix_seconds
                 active_global_count active_principal_count) (\<lambda>decision.
     if decision = RzIdentical then Inr (Inr RzAlreadyPublished, db)
     else
       let db = (if decision = RzReplaceExpired then delete_rendezvous (rz_lookup_id record') db else db) in
       and_then (insert_pairing_rendezvous owner record' db) (\<lambda>db.
       Inr (Inr RzPublished, db))))))"

definition publish_pairing_rendezvous ::
    "relay_principal_id \<Rightarrow> pairing_rendezvous_record \<Rightarrow> u64 \<Rightarrow> rendezvous_db \<Rightarrow>
     (relay_error + rendezvous_publish_outcome) \<times> rendezvous_db" where
  "publish_pairing_rendezvous owner record' now_unix_seconds db =
     (if rz_expires_at_unix_seconds record' \<le> now_unix_seconds then (Inl ExpiredPairingRendezvous, db)
      else transact (publish_transaction owner record' now_unix_seconds) db)"

text \<open>
  From the begin to the end of the take transaction: an expired record is deleted and the
  deletion committed although the take fails; without a record nothing is committed.
\<close>

definition take_transaction ::
    "rendezvous_take_request \<Rightarrow> u64 \<Rightarrow> rendezvous_db \<Rightarrow>
     relay_error + ((relay_error + pairing_rendezvous_record) \<times> rendezvous_db)" where
  "take_transaction request now_unix_seconds db =
     and_then (cleanup_expired_pairing_rendezvous now_unix_seconds (Some (rzt_lookup_id request)) db) (\<lambda>db.
     and_then (load_pairing_rendezvous db (rzt_lookup_id request)) (\<lambda>existing.
     case decide_pairing_rendezvous_take existing now_unix_seconds of
       Inl error' \<Rightarrow>
         if (case existing of None \<Rightarrow> False
             | Some ex \<Rightarrow> rz_expires_at_unix_seconds (srz_record ex) \<le> now_unix_seconds)
         then Inr (Inl error', delete_rendezvous (rzt_lookup_id request) db)
         else Inl error'
     | Inr _ \<Rightarrow>
         and_then (ok_or PairingRendezvousUnavailable existing) (\<lambda>ex.
         let db' = delete_rendezvous (rzt_lookup_id request) db in
         if length db - length db' \<noteq> 1
         then Inl (StorageFailure ''pairing rendezvous atomic take outcome'')
         else Inr (Inr (srz_record ex), db'))))"

definition take_pairing_rendezvous ::
    "rendezvous_take_request \<Rightarrow> u64 \<Rightarrow> rendezvous_db \<Rightarrow>
     (relay_error + pairing_rendezvous_record) \<times> rendezvous_db" where
  "take_pairing_rendezvous request now_unix_seconds db =
     transact (take_transaction request now_unix_seconds) db"

section \<open>Effects of the transactions\<close>

definition rendezvous_row_of :: "relay_principal_id \<Rightarrow> pairing_rendezvous_record \<Rightarrow> rendezvous_row" where
  "rendezvous_row_of owner record' =
     \<lparr>rr_lookup_id = pairing_rendezvous_id_bytes (rz_lookup_id record'),
      rr_owner_principal_id = principal_id_bytes owner,
      rr_version_major = int (unat (major (rz_version record'))),
      rr_version_minor = int (unat (minor (rz_version record'))),
      rr_expires_at_unix_seconds = int (unat (rz_expires_at_unix_seconds record')),
      rr_nonce = pairing_rendezvous_nonce_bytes (rz_nonce record'),
      rr_ciphertext = rz_ciphertext record'\<rparr>"

definition row_live :: "u64 \<Rightarrow> rendezvous_row \<Rightarrow> bool" where
  "row_live now r \<longleftrightarrow> int (unat now) < rr_expires_at_unix_seconds r"

definition others_live :: "u64 \<Rightarrow> pairing_rendezvous_id \<Rightarrow> rendezvous_db \<Rightarrow> rendezvous_db" where
  "others_live now lookup_id db =
     filter (\<lambda>r. row_live now r \<and> rr_lookup_id r \<noteq> pairing_rendezvous_id_bytes lookup_id) db"

text \<open>
  The table invariant: unique lookup identifiers, at most 10,000 rows and at most 32 per
  owner, and every row the image of a valid record.
\<close>

definition rendezvous_inv :: "rendezvous_db \<Rightarrow> bool" where
  "rendezvous_inv db \<longleftrightarrow>
     distinct (map rr_lookup_id db) \<and>
     (\<forall>r \<in> set db. \<exists>owner record'. r = rendezvous_row_of owner record' \<and> rendezvous_row_check r \<and>
        unat (rz_expires_at_unix_seconds record') < 2 ^ 63) \<and>
     length db \<le> 10000 \<and>
     (\<forall>owner. length (filter (\<lambda>r. rr_owner_principal_id r = owner) db) \<le> 32)"

lemma rendezvous_row_of_simps [simp]:
  "rr_lookup_id (rendezvous_row_of owner record') = pairing_rendezvous_id_bytes (rz_lookup_id record')"
  "rr_owner_principal_id (rendezvous_row_of owner record') = principal_id_bytes owner"
  "rr_expires_at_unix_seconds (rendezvous_row_of owner record') = int (unat (rz_expires_at_unix_seconds record'))"
  by (simp_all add: rendezvous_row_of_def)

lemma row_live_of [simp]:
  "row_live now (rendezvous_row_of owner record') \<longleftrightarrow> now < rz_expires_at_unix_seconds record'"
  by (simp add: row_live_def word_less_def)

lemma stored_from_row_of:
  assumes "rendezvous_row_check (rendezvous_row_of owner record')"
  shows "stored_from_row (rendezvous_row_of owner record') = Inr \<lparr>srz_owner = owner, srz_record = record'\<rparr>"
  using assms
  by (cases owner; cases record')
    (auto simp: stored_from_row_def rendezvous_row_of_def rendezvous_row_check_def id_from_slice_defs
      RelayPrincipalId_from_slice_def ProtocolVersion_new_def PairingRendezvousRecord_new_def
      MAX_PAIRING_RENDEZVOUS_CIPHERTEXT_BYTES_def from_sql_integer_def)

lemma rendezvous_row_of_inject:
  assumes "rendezvous_row_check (rendezvous_row_of o1 r1)"
    and "rendezvous_row_of o1 r1 = rendezvous_row_of o2 r2"
  shows "o1 = o2 \<and> r1 = r2"
  using stored_from_row_of [OF assms(1)] stored_from_row_of [OF assms(1) [unfolded assms(2)]]
  unfolding assms(2) by simp

lemma rendezvous_inv_filter:
  assumes "rendezvous_inv db"
  shows "rendezvous_inv (filter P db)"
proof -
  have "length (filter (\<lambda>r. rr_owner_principal_id r = owner) (filter P db))
      \<le> length (filter (\<lambda>r. rr_owner_principal_id r = owner) db)" for owner
    by (subst filter_filter, subst conj_commute, subst filter_filter [symmetric]) (rule length_filter_le)
  then have "length (filter (\<lambda>r. rr_owner_principal_id r = owner) (filter P db)) \<le> 32" for owner
    using assms unfolding rendezvous_inv_def by (meson order_trans)
  moreover have "length (filter P db) \<le> 10000"
    using assms length_filter_le [of P db] unfolding rendezvous_inv_def by linarith
  ultimately show ?thesis
    using assms by (auto simp: rendezvous_inv_def distinct_map_filter)
qed

lemma find_by_id:
  "distinct (map f xs) \<Longrightarrow> x \<in> set xs \<Longrightarrow> List.find (\<lambda>y. f y = f x) xs = Some x"
  by (induction xs) (auto simp: rev_image_eqI)

lemma load_None:
  "pairing_rendezvous_id_bytes lookup_id \<notin> rr_lookup_id ` set db \<Longrightarrow> load_pairing_rendezvous db lookup_id = Inr None"
  by (auto simp: load_pairing_rendezvous_def find_None_iff split: option.splits)
    (metis (mono_tags, lifting) find_Some_iff image_eqI nth_mem)

lemma load_Some:
  assumes "rendezvous_inv db" and "rendezvous_row_of owner record' \<in> set db"
  shows "load_pairing_rendezvous db (rz_lookup_id record') = Inr (Some \<lparr>srz_owner = owner, srz_record = record'\<rparr>)"
proof -
  let ?row = "rendezvous_row_of owner record'"
  have "rendezvous_row_check ?row" using assms by (auto simp: rendezvous_inv_def)
  moreover have "List.find (\<lambda>r. rr_lookup_id r = rr_lookup_id ?row) db = Some ?row"
    using assms by (intro find_by_id) (simp_all add: rendezvous_inv_def)
  ultimately show ?thesis
    by (simp add: load_pairing_rendezvous_def stored_from_row_of)
qed

text \<open>Which of the two cases applies to a lookup identifier.\<close>

lemma load_cases:
  assumes "rendezvous_inv db"
  obtains (absent) "pairing_rendezvous_id_bytes lookup_id \<notin> rr_lookup_id ` set db"
      "load_pairing_rendezvous db lookup_id = Inr None"
  | (present) owner record' where "rendezvous_row_of owner record' \<in> set db" "rz_lookup_id record' = lookup_id"
      "unat (rz_expires_at_unix_seconds record') < 2 ^ 63"
      "load_pairing_rendezvous db lookup_id = Inr (Some \<lparr>srz_owner = owner, srz_record = record'\<rparr>)"
proof (cases "pairing_rendezvous_id_bytes lookup_id \<in> rr_lookup_id ` set db")
  case True
  then obtain r where r: "r \<in> set db" "rr_lookup_id r = pairing_rendezvous_id_bytes lookup_id" by auto
  with assms obtain owner record' where row: "r = rendezvous_row_of owner record'"
    "unat (rz_expires_at_unix_seconds record') < 2 ^ 63" by (auto simp: rendezvous_inv_def)
  with r(2) have id: "rz_lookup_id record' = lookup_id"
    by (simp add: rendezvous_row_of_def pairing_rendezvous_id.expand)
  show ?thesis
    by (rule present [of owner record']) (use r row id load_Some [OF assms] in auto)
next
  case False
  then show ?thesis using load_None by (intro absent)
qed

lemma cleanup_eq:
  "unat now < 2 ^ 63 \<Longrightarrow> cleanup_expired_pairing_rendezvous now (Some lookup_id) db =
     Inr (filter (\<lambda>r. row_live now r \<or> rr_lookup_id r = pairing_rendezvous_id_bytes lookup_id) db)"
  by (auto simp: cleanup_expired_pairing_rendezvous_def row_live_def not_le to_sql_integer_def
      intro: filter_cong)

lemma cleanup_refused:
  "\<not> unat now < 2 ^ 63 \<Longrightarrow> cleanup_expired_pairing_rendezvous now x db = Inl SequenceExhausted"
  by (simp add: cleanup_expired_pairing_rendezvous_def to_sql_integer_def)

lemma delete_cleaned:
  "delete_rendezvous lookup_id (filter (\<lambda>r. row_live now r \<or> rr_lookup_id r = pairing_rendezvous_id_bytes lookup_id) db)
     = others_live now lookup_id db"
  by (auto simp: delete_rendezvous_def others_live_def intro: filter_cong)

lemma cleaned_absent:
  "pairing_rendezvous_id_bytes lookup_id \<notin> rr_lookup_id ` set db \<Longrightarrow>
   filter (\<lambda>r. row_live now r \<or> rr_lookup_id r = pairing_rendezvous_id_bytes lookup_id) db = others_live now lookup_id db"
  by (auto simp: others_live_def intro!: filter_cong) (metis image_eqI)+

lemma insert_eq:
  "insert_pairing_rendezvous owner record' db =
     (if \<not> unat (rz_expires_at_unix_seconds record') < 2 ^ 63 then Inl SequenceExhausted
      else if rendezvous_row_check (rendezvous_row_of owner record') \<and>
              pairing_rendezvous_id_bytes (rz_lookup_id record') \<notin> rr_lookup_id ` set db
      then Inr (db @ [rendezvous_row_of owner record'])
      else Inl (StorageFailure ''pairing rendezvous insert''))"
  by (simp add: insert_pairing_rendezvous_def to_sql_integer_def rendezvous_row_of_def Let_def)

text \<open>The publish transaction with the cleaned table worked out.\<close>

lemma counts_cleaned:
  assumes "unat now < 2 ^ 63"
    and "\<forall>q \<in> set db. rr_lookup_id q = pairing_rendezvous_id_bytes lookup_id \<longrightarrow> \<not> row_live now q"
  shows "active_pairing_rendezvous_counts
      (filter (\<lambda>r. row_live now r \<or> rr_lookup_id r = pairing_rendezvous_id_bytes lookup_id) db) owner now
    = Inr (length (others_live now lookup_id db),
        length (filter (\<lambda>q. rr_owner_principal_id q = principal_id_bytes owner) (others_live now lookup_id db)))"
proof -
  have "filter (\<lambda>r. int (unat now) < rr_expires_at_unix_seconds r)
      (filter (\<lambda>r. row_live now r \<or> rr_lookup_id r = pairing_rendezvous_id_bytes lookup_id) db)
    = others_live now lookup_id db"
    using assms(2) by (auto simp: others_live_def row_live_def intro!: filter_cong)
  moreover have "to_sql_integer now = Inr (int (unat now))" using assms(1) by simp
  ultimately show ?thesis
    unfolding active_pairing_rendezvous_counts_def Let_def by (simp only: and_then.simps)
qed

lemma publish_transaction_absent:
  assumes inv: "rendezvous_inv db" and now: "unat now < 2 ^ 63" and live: "now < rz_expires_at_unix_seconds record'"
    and none: "\<forall>q \<in> set db. rr_lookup_id q = pairing_rendezvous_id_bytes (rz_lookup_id record') \<longrightarrow> \<not> row_live now q"
  defines "D \<equiv> others_live now (rz_lookup_id record') db"
  shows "publish_transaction owner record' now db =
    (if MAX_ACTIVE_PAIRING_RENDEZVOUS \<le> length D then Inl PairingRendezvousGlobalCapacityExceeded
     else if MAX_ACTIVE_PAIRING_RENDEZVOUS_PER_PRINCIPAL \<le>
        length (filter (\<lambda>q. rr_owner_principal_id q = principal_id_bytes owner) D)
     then Inl PairingRendezvousPrincipalCapacityExceeded
     else and_then (insert_pairing_rendezvous owner record' D) (\<lambda>db. Inr (Inr RzPublished, db)))"
proof -
  let ?id = "rz_lookup_id record'"
  let ?P = "\<lambda>q. row_live now q \<or> rr_lookup_id q = pairing_rendezvous_id_bytes ?id"
  have unexpired: "\<not> rz_expires_at_unix_seconds record' \<le> now" using live by simp
  note clean = cleanup_eq [OF now, of ?id db]
  note counts = counts_cleaned [OF now none, of owner, folded D_def]
  from rendezvous_inv_filter [OF inv, of ?P] show ?thesis
  proof (cases rule: load_cases [where lookup_id = ?id])
    case absent
    then have "pairing_rendezvous_id_bytes ?id \<notin> rr_lookup_id ` set db" by auto
    from cleaned_absent [OF this, of now, folded D_def] absent(2) counts show ?thesis
      unfolding publish_transaction_def clean and_then.simps
      by (simp add: decide_pairing_rendezvous_publish_def unexpired)
  next
    case (present o' r')
    then have "rz_expires_at_unix_seconds r' \<le> now"
      using none by force
    with present(4) counts show ?thesis
      unfolding publish_transaction_def clean and_then.simps
      by (simp add: decide_pairing_rendezvous_publish_def unexpired delete_cleaned D_def [symmetric])
  qed
qed

lemma publish_transaction_present:
  assumes inv: "rendezvous_inv db" and now: "unat now < 2 ^ 63" and live: "now < rz_expires_at_unix_seconds record'"
    and q: "q \<in> set db" "rr_lookup_id q = pairing_rendezvous_id_bytes (rz_lookup_id record')" "row_live now q"
  shows "publish_transaction owner record' now db =
    (if q = rendezvous_row_of owner record' then Inr (Inr RzAlreadyPublished, filter (row_live now) db)
     else Inl PairingRendezvousConflict)"
proof -
  let ?id = "rz_lookup_id record'"
  let ?P = "\<lambda>q. row_live now q \<or> rr_lookup_id q = pairing_rendezvous_id_bytes ?id"
  have unexpired: "\<not> rz_expires_at_unix_seconds record' \<le> now" using live by simp
  from q(1) inv obtain o' r' where row: "q = rendezvous_row_of o' r'" by (auto simp: rendezvous_inv_def)
  with q(2) have id: "rz_lookup_id r' = ?id" by (simp add: pairing_rendezvous_id.expand)
  have mem: "rendezvous_row_of o' r' \<in> set (filter ?P db)" using q row by simp
  have load: "load_pairing_rendezvous (filter ?P db) ?id = Inr (Some \<lparr>srz_owner = o', srz_record = r'\<rparr>)"
    using load_Some [OF rendezvous_inv_filter [OF inv] mem] id by simp
  have "\<not> rz_expires_at_unix_seconds r' \<le> now" using q(3) row by simp
  moreover have "filter ?P db = filter (row_live now) db"
    using inv q by (intro filter_cong) (auto simp: rendezvous_inv_def distinct_map inj_on_def)
  moreover have "rendezvous_row_of o' r' = rendezvous_row_of owner record' \<longleftrightarrow> o' = owner \<and> r' = record'"
    using rendezvous_row_of_inject inv q(1) row by (metis rendezvous_inv_def)
  ultimately show ?thesis
    unfolding publish_transaction_def cleanup_eq [OF now, of ?id db] and_then.simps load
    unfolding row by (simp add: decide_pairing_rendezvous_publish_def unexpired)
qed

lemma publish_cases:
  assumes inv: "rendezvous_inv db" and run: "publish_pairing_rendezvous owner record' now db = (r, db')"
  obtains
    (refused) err where "r = Inl err" "db' = db"
  | (identical) "r = Inr RzAlreadyPublished" "rendezvous_row_of owner record' \<in> set db"
      "now < rz_expires_at_unix_seconds record'" "db' = filter (row_live now) db"
  | (published) "r = Inr RzPublished" "now < rz_expires_at_unix_seconds record'"
      "\<forall>q \<in> set db. rr_lookup_id q = pairing_rendezvous_id_bytes (rz_lookup_id record') \<longrightarrow> \<not> row_live now q"
      "rendezvous_row_check (rendezvous_row_of owner record')"
      "unat (rz_expires_at_unix_seconds record') < 2 ^ 63"
      "length (others_live now (rz_lookup_id record') db) < 10000"
      "length (filter (\<lambda>q. rr_owner_principal_id q = principal_id_bytes owner)
         (others_live now (rz_lookup_id record') db)) < 32"
      "db' = others_live now (rz_lookup_id record') db @ [rendezvous_row_of owner record']"
proof (cases "rz_expires_at_unix_seconds record' \<le> now")
  case True
  then have "r = Inl ExpiredPairingRendezvous" "db' = db"
    using run by (simp_all add: publish_pairing_rendezvous_def)
  then show ?thesis by (rule refused)
next
  case unexpired: False
  then have live: "now < rz_expires_at_unix_seconds record'" by simp
  have run': "transact (publish_transaction owner record' now) db = (r, db')"
    using run unexpired by (simp add: publish_pairing_rendezvous_def)
  let ?id = "rz_lookup_id record'"
  show ?thesis
  proof (cases "unat now < 2 ^ 63")
    case False
    then have "publish_transaction owner record' now db = Inl SequenceExhausted"
      by (simp only: publish_transaction_def cleanup_refused [OF False] and_then.simps)
    then have "r = Inl SequenceExhausted" "db' = db" using run' by (simp_all add: transact_def)
    then show ?thesis by (rule refused)
  next
    case now: True
    show ?thesis
    proof (cases "\<exists>q \<in> set db. rr_lookup_id q = pairing_rendezvous_id_bytes ?id \<and> row_live now q")
      case True
      then obtain q where q: "q \<in> set db" "rr_lookup_id q = pairing_rendezvous_id_bytes ?id" "row_live now q"
        by blast
      note eq = publish_transaction_present [OF inv now live q, of owner]
      show ?thesis
      proof (cases "q = rendezvous_row_of owner record'")
        case True
        then have "r = Inr RzAlreadyPublished" "db' = filter (row_live now) db"
          using run' eq by (simp_all add: transact_def)
        with True q(1) live show ?thesis by (intro identical) simp_all
      next
        case False
        then have "r = Inl PairingRendezvousConflict" "db' = db"
          using run' eq by (simp_all add: transact_def)
        then show ?thesis by (rule refused)
      qed
    next
      case False
      then have none: "\<forall>q \<in> set db. rr_lookup_id q = pairing_rendezvous_id_bytes ?id \<longrightarrow> \<not> row_live now q"
        by blast
      note eq = publish_transaction_absent [OF inv now live none, of owner]
      show ?thesis
      proof (cases "publish_transaction owner record' now db")
        case (Inl err)
        then have "r = Inl err" "db' = db" using run' by (simp_all add: transact_def)
        then show ?thesis by (rule refused)
      next
        case (Inr res)
        define D where "D = others_live now ?id db"
        have D: "\<not> MAX_ACTIVE_PAIRING_RENDEZVOUS \<le> length D"
          "\<not> MAX_ACTIVE_PAIRING_RENDEZVOUS_PER_PRINCIPAL \<le>
             length (filter (\<lambda>q. rr_owner_principal_id q = principal_id_bytes owner) D)"
          "and_then (insert_pairing_rendezvous owner record' D) (\<lambda>db. Inr (Inr RzPublished, db)) = Inr res"
          using Inr eq [folded D_def] by (metis Inl_Inr_False)+
        from D(3) have ins: "rendezvous_row_check (rendezvous_row_of owner record')"
          "unat (rz_expires_at_unix_seconds record') < 2 ^ 63"
          "res = (Inr RzPublished, D @ [rendezvous_row_of owner record'])"
          unfolding insert_eq by (auto split: if_splits)
        have bounds: "length D < 10000"
          "length (filter (\<lambda>q. rr_owner_principal_id q = principal_id_bytes owner) D) < 32"
          using D(1,2) by (simp_all add: MAX_ACTIVE_PAIRING_RENDEZVOUS_def
              MAX_ACTIVE_PAIRING_RENDEZVOUS_PER_PRINCIPAL_def)
        have "(r, db') = res" using run' Inr by (cases res) (simp add: transact_def)
        with ins(3) have "r = Inr RzPublished" "db' = others_live now ?id db @ [rendezvous_row_of owner record']"
          by (simp_all add: D_def)
        from published [OF this(1) live none ins(1,2) bounds [unfolded D_def] this(2)] show ?thesis .
      qed
    qed
  qed
qed

lemma delete_one:
  assumes "rendezvous_inv db" and "rendezvous_row_of owner record' \<in> set db"
  shows "length db - length (delete_rendezvous (rz_lookup_id record') db) = 1"
proof -
  have one: "length (filter (\<lambda>x. f x = f y) xs) = 1" if "distinct (map f xs)" "y \<in> set xs" for f :: "'a \<Rightarrow> 'b" and xs y
    using that by (induction xs) (auto simp: filter_empty_conv rev_image_eqI)
  have "length (filter (\<lambda>q. rr_lookup_id q = rr_lookup_id (rendezvous_row_of owner record')) db) = 1"
    using assms by (intro one) (simp_all add: rendezvous_inv_def)
  then show ?thesis
    using sum_length_filter_compl [of "\<lambda>q. rr_lookup_id q = rr_lookup_id (rendezvous_row_of owner record')" db]
    by (simp add: delete_rendezvous_def)
qed

lemma take_cases:
  assumes inv: "rendezvous_inv db" and run: "take_pairing_rendezvous request now db = (r, db')"
  obtains
    (refused) err where "r = Inl err" "db' = db"
  | (expired) "r = Inl PairingRendezvousUnavailable" "db' = others_live now (rzt_lookup_id request) db"
  | (taken) owner record' where "r = Inr record'" "rz_lookup_id record' = rzt_lookup_id request"
      "rendezvous_row_of owner record' \<in> set db" "now < rz_expires_at_unix_seconds record'"
      "db' = others_live now (rzt_lookup_id request) db"
proof (cases "unat now < 2 ^ 63")
  case False
  then have "take_transaction request now db = Inl SequenceExhausted"
    by (simp only: take_transaction_def cleanup_refused [OF False] and_then.simps)
  then have "r = Inl SequenceExhausted" "db' = db"
    using run by (simp_all add: take_pairing_rendezvous_def transact_def)
  then show ?thesis by (rule refused)
next
  case now: True
  let ?id = "rzt_lookup_id request"
  let ?P = "\<lambda>q. row_live now q \<or> rr_lookup_id q = pairing_rendezvous_id_bytes ?id"
  have inv': "rendezvous_inv (filter ?P db)" by (rule rendezvous_inv_filter [OF inv])
  note unf = take_transaction_def [of request now db, unfolded cleanup_eq [OF now] and_then.simps]
  from inv' show ?thesis
  proof (cases rule: load_cases [where lookup_id = ?id])
    case absent
    then have "take_transaction request now db = Inl PairingRendezvousUnavailable"
      unfolding unf by (simp add: decide_pairing_rendezvous_take_def)
    then have "r = Inl PairingRendezvousUnavailable" "db' = db"
      using run by (simp_all add: take_pairing_rendezvous_def transact_def)
    then show ?thesis by (rule refused)
  next
    case (present owner record')
    note del = delete_cleaned [of ?id now db]
    show ?thesis
    proof (cases "rz_expires_at_unix_seconds record' \<le> now")
      case True
      then have "take_transaction request now db =
          Inr (Inl PairingRendezvousUnavailable, others_live now ?id db)"
        unfolding unf present(4) by (simp add: decide_pairing_rendezvous_take_def del)
      then have "r = Inl PairingRendezvousUnavailable" "db' = others_live now ?id db"
        using run by (simp_all add: take_pairing_rendezvous_def transact_def)
      then show ?thesis by (rule expired)
    next
      case False
      have "length (filter ?P db) - length (delete_rendezvous ?id (filter ?P db)) = 1"
        using delete_one [OF inv' present(1)] present(2) by simp
      with False have "take_transaction request now db = Inr (Inr record', others_live now ?id db)"
        unfolding unf present(4) by (simp add: decide_pairing_rendezvous_take_def del)
      then have "r = Inr record'" "db' = others_live now ?id db"
        using run by (simp_all add: take_pairing_rendezvous_def transact_def)
      moreover have "now < rz_expires_at_unix_seconds record'" using False by simp
      moreover have "rendezvous_row_of owner record' \<in> set db" using present(1) by simp
      ultimately show ?thesis using present(2) by (intro taken)
    qed
  qed
qed

section \<open>Histories\<close>

datatype rendezvous_op =
    Publish_rendezvous relay_principal_id pairing_rendezvous_record u64
  | Take_rendezvous rendezvous_take_request u64

fun rendezvous_step ::
    "rendezvous_op \<Rightarrow> rendezvous_db \<Rightarrow> (relay_error + pairing_rendezvous_record option) \<times> rendezvous_db" where
  "rendezvous_step (Publish_rendezvous owner record' now) db =
     apfst (map_sum id (\<lambda>_. None)) (publish_pairing_rendezvous owner record' now db)"
| "rendezvous_step (Take_rendezvous request now) db =
     apfst (map_sum id Some) (take_pairing_rendezvous request now db)"

lemma rendezvous_inv_append:
  assumes "rendezvous_inv db" and "rendezvous_row_check row" "row = rendezvous_row_of owner record'"
    and "unat (rz_expires_at_unix_seconds record') < 2 ^ 63"
    and "rr_lookup_id row \<notin> rr_lookup_id ` set db" and "length db < 10000"
    and "length (filter (\<lambda>q. rr_owner_principal_id q = rr_owner_principal_id row) db) < 32"
  shows "rendezvous_inv (db @ [row])"
  unfolding rendezvous_inv_def
proof (intro conjI allI ballI)
  show "distinct (map rr_lookup_id (db @ [row]))" using assms(1,5) by (simp add: rendezvous_inv_def)
  show "length (db @ [row]) \<le> 10000" using assms(6) by simp
  show "length (filter (\<lambda>r. rr_owner_principal_id r = owner') (db @ [row])) \<le> 32" for owner'
    using assms(1,7) by (auto simp: rendezvous_inv_def)
  show "\<exists>owner record'. r = rendezvous_row_of owner record' \<and> rendezvous_row_check r \<and>
      unat (rz_expires_at_unix_seconds record') < 2 ^ 63" if "r \<in> set (db @ [row])" for r
    using that assms(1-4) by (auto simp: rendezvous_inv_def)
qed

lemma rendezvous_step_inv:
  assumes "rendezvous_inv db"
  shows "rendezvous_inv (snd (rendezvous_step op db))"
proof (cases op)
  case (Publish_rendezvous owner record' now)
  obtain r db' where run: "publish_pairing_rendezvous owner record' now db = (r, db')" by fastforce
  from assms run have "rendezvous_inv db'"
  proof (cases rule: publish_cases)
    case published
    have "rendezvous_inv (others_live now (rz_lookup_id record') db)"
      unfolding others_live_def by (rule rendezvous_inv_filter [OF assms])
    moreover have "pairing_rendezvous_id_bytes (rz_lookup_id record') \<notin> rr_lookup_id ` set (others_live now (rz_lookup_id record') db)"
      by (auto simp: others_live_def)
    ultimately show ?thesis
      unfolding published(8) using published(4-7) by (intro rendezvous_inv_append) simp_all
  qed (use assms rendezvous_inv_filter in auto)
  then show ?thesis using Publish_rendezvous run by simp
next
  case (Take_rendezvous request now)
  obtain r db' where run: "take_pairing_rendezvous request now db = (r, db')" by fastforce
  from assms run have "rendezvous_inv db'"
    by (cases rule: take_cases) (use assms rendezvous_inv_filter in \<open>auto simp: others_live_def\<close>)
  then show ?thesis using Take_rendezvous run by simp
qed

interpretation relay_rendezvous: durable_store rendezvous_step rendezvous_inv
  by unfold_locales (rule rendezvous_step_inv)

section \<open>Properties\<close>

definition op_clock :: "rendezvous_op \<Rightarrow> u64" where
  "op_clock op = (case op of Publish_rendezvous _ _ now \<Rightarrow> now | Take_rendezvous _ now \<Rightarrow> now)"

definition op_lookup_id :: "rendezvous_op \<Rightarrow> pairing_rendezvous_id" where
  "op_lookup_id op = (case op of Publish_rendezvous _ r _ \<Rightarrow> rz_lookup_id r | Take_rendezvous q _ \<Rightarrow> rzt_lookup_id q)"

definition publishes :: "pairing_rendezvous_id \<Rightarrow> rendezvous_op \<Rightarrow> bool" where
  "publishes lookup_id op = (case op of Publish_rendezvous _ r _ \<Rightarrow> rz_lookup_id r = lookup_id | Take_rendezvous _ _ \<Rightarrow> False)"

lemma step_keeps_absent:
  assumes "rendezvous_inv db" and "pairing_rendezvous_id_bytes x \<notin> rr_lookup_id ` set db" and "\<not> publishes x op"
  shows "pairing_rendezvous_id_bytes x \<notin> rr_lookup_id ` set (snd (rendezvous_step op db))"
proof (cases op)
  case (Publish_rendezvous owner record' now)
  obtain r db' where run: "publish_pairing_rendezvous owner record' now db = (r, db')" by fastforce
  have other: "pairing_rendezvous_id_bytes (rz_lookup_id record') \<noteq> pairing_rendezvous_id_bytes x"
    using assms(3) Publish_rendezvous by (auto simp: publishes_def pairing_rendezvous_id.expand)
  from assms(1) run have "pairing_rendezvous_id_bytes x \<notin> rr_lookup_id ` set db'"
    by (cases rule: publish_cases) (use assms(2) other in \<open>auto simp: others_live_def\<close>)
  then show ?thesis using Publish_rendezvous run by simp
next
  case (Take_rendezvous request now)
  obtain r db' where run: "take_pairing_rendezvous request now db = (r, db')" by fastforce
  from assms(1) run have "pairing_rendezvous_id_bytes x \<notin> rr_lookup_id ` set db'"
    by (cases rule: take_cases) (use assms(2) in \<open>auto simp: others_live_def\<close>)
  then show ?thesis using Take_rendezvous run by simp
qed

lemma step_keeps_row:
  assumes "rendezvous_inv db" and "rendezvous_row_of owner record' \<in> set db"
    and "op_clock op < rz_expires_at_unix_seconds record'" and "op_lookup_id op \<noteq> rz_lookup_id record'"
  shows "rendezvous_row_of owner record' \<in> set (snd (rendezvous_step op db))"
proof (cases op)
  case (Publish_rendezvous o' r' now)
  obtain r db' where run: "publish_pairing_rendezvous o' r' now db = (r, db')" by fastforce
  from assms(1) run have "rendezvous_row_of owner record' \<in> set db'"
    by (cases rule: publish_cases)
      (use assms(2-4) Publish_rendezvous in \<open>auto simp: others_live_def op_clock_def op_lookup_id_def
         dest: pairing_rendezvous_id.expand\<close>)
  then show ?thesis using Publish_rendezvous run by simp
next
  case (Take_rendezvous request now)
  obtain r db' where run: "take_pairing_rendezvous request now db = (r, db')" by fastforce
  from assms(1) run have "rendezvous_row_of owner record' \<in> set db'"
    by (cases rule: take_cases)
      (use assms(2-4) Take_rendezvous in \<open>auto simp: others_live_def op_clock_def op_lookup_id_def
         dest: pairing_rendezvous_id.expand\<close>)
  then show ?thesis using Take_rendezvous run by simp
qed

lemma run_keeps_absent:
  assumes "rendezvous_inv db" and "pairing_rendezvous_id_bytes x \<notin> rr_lookup_id ` set db"
    and "\<forall>op \<in> set ops. \<not> publishes x op"
  shows "pairing_rendezvous_id_bytes x \<notin> rr_lookup_id ` set (run_ops rendezvous_step ops db)"
  using assms
  by (induction ops arbitrary: db) (auto simp del: rendezvous_step.simps
      simp: step_keeps_absent rendezvous_step_inv)

lemma run_keeps_row:
  assumes "rendezvous_inv db" and "rendezvous_row_of owner record' \<in> set db"
    and "\<forall>op \<in> set ops. op_clock op < rz_expires_at_unix_seconds record' \<and> op_lookup_id op \<noteq> rz_lookup_id record'"
  shows "rendezvous_row_of owner record' \<in> set (run_ops rendezvous_step ops db)"
  using assms
  by (induction ops arbitrary: db) (auto simp del: rendezvous_step.simps
      simp: step_keeps_row rendezvous_step_inv)

lemma stored_row_facts:
  assumes "rendezvous_inv db" and "rendezvous_row_of owner record' \<in> set db"
  shows "rendezvous_row_check (rendezvous_row_of owner record')" and "unat (rz_expires_at_unix_seconds record') < 2 ^ 63"
proof -
  obtain o' r' where *: "rendezvous_row_of owner record' = rendezvous_row_of o' r'"
    "rendezvous_row_check (rendezvous_row_of owner record')" "unat (rz_expires_at_unix_seconds r') < 2 ^ 63"
    using assms unfolding rendezvous_inv_def by blast
  with rendezvous_row_of_inject show "rendezvous_row_check (rendezvous_row_of owner record')"
    and "unat (rz_expires_at_unix_seconds record') < 2 ^ 63" by blast+
qed

lemma clock_before_expiry:
  "now < (e :: u64) \<Longrightarrow> unat e < 2 ^ 63 \<Longrightarrow> unat now < 2 ^ 63"
  using word_less_nat_alt [of now e] by linarith

lemma take_row:
  assumes "rendezvous_inv db" and "rendezvous_row_of owner record' \<in> set db"
    and "now < rz_expires_at_unix_seconds record'" and "rzt_lookup_id request = rz_lookup_id record'"
  shows "take_pairing_rendezvous request now db = (Inr record', others_live now (rz_lookup_id record') db)"
proof -
  let ?id = "rz_lookup_id record'"
  let ?P = "\<lambda>q. row_live now q \<or> rr_lookup_id q = pairing_rendezvous_id_bytes ?id"
  have now: "unat now < 2 ^ 63" by (rule clock_before_expiry [OF assms(3) stored_row_facts(2) [OF assms(1,2)]])
  have inv': "rendezvous_inv (filter ?P db)" by (rule rendezvous_inv_filter [OF assms(1)])
  have mem: "rendezvous_row_of owner record' \<in> set (filter ?P db)" using assms(2) by simp
  note unf = take_transaction_def [of request now db, unfolded assms(4) cleanup_eq [OF now] and_then.simps]
  have "take_transaction request now db = Inr (Inr record', others_live now ?id db)"
    unfolding unf load_Some [OF inv' mem]
    using assms(3) delete_one [OF inv' mem] by (simp add: decide_pairing_rendezvous_take_def delete_cleaned not_le)
  then show ?thesis by (simp add: take_pairing_rendezvous_def transact_def)
qed

text \<open>
  Whatever the order of publishes and takes and whatever their clocks, the rendezvous
  table never holds more than 10,000 records, never more than 32 of one principal, and
  never two records under one lookup identifier.
\<close>
lemma rendezvous_bounded:
  fixes ops
  defines "db \<equiv> run_ops rendezvous_step ops []"
  shows "length db \<le> 10000 \<and> distinct (map rr_lookup_id db) \<and>
    (\<forall>owner. length (filter (\<lambda>r. rr_owner_principal_id r = owner) db) \<le> 32)"
proof -
  have "rendezvous_inv []" by (simp add: rendezvous_inv_def)
  from relay_rendezvous.run_invar [OF this] show ?thesis
    unfolding db_def rendezvous_inv_def by blast
qed

text \<open>
  C34: A rendezvous record is taken at most once: after a successful take no later take of
  the lookup identifier succeeds, through any history in which it is not published again.
\<close>
theorem rendezvous_taken_once:
  assumes "rendezvous_inv db" and "take_pairing_rendezvous request now db = (Inr record', db')"
    and "\<forall>op \<in> set ops. \<not> publishes (rzt_lookup_id request) op"
    and "rzt_lookup_id again = rzt_lookup_id request"
  shows "\<nexists>r. fst (take_pairing_rendezvous again now' (run_ops rendezvous_step ops db')) = Inr r"
proof -
  let ?x = "pairing_rendezvous_id_bytes (rzt_lookup_id request)"
  have inv': "rendezvous_inv db'"
    using rendezvous_step_inv [OF assms(1), of "Take_rendezvous request now"] assms(2) by simp
  from assms(1,2) have "?x \<notin> rr_lookup_id ` set db'"
    by (cases rule: take_cases) (auto simp: others_live_def)
  then have absent: "?x \<notin> rr_lookup_id ` set (run_ops rendezvous_step ops db')"
    by (rule run_keeps_absent [OF inv' _ assms(3)])
  obtain q d where run: "take_pairing_rendezvous again now' (run_ops rendezvous_step ops db') = (q, d)"
    by fastforce
  from relay_rendezvous.run_invar [OF inv'] run show ?thesis
    by (cases rule: take_cases) (use run absent assms(4) in \<open>force+\<close>)
qed

text \<open>
  A published record is delivered: a take before its expiry returns exactly the record
  that was published, after any operations on other lookup identifiers whose clocks are
  before the expiry.
\<close>
lemma rendezvous_publish_then_take:
  assumes "rendezvous_inv db" and "publish_pairing_rendezvous owner record' now db = (Inr outcome, db')"
    and "\<forall>op \<in> set ops. op_clock op < rz_expires_at_unix_seconds record' \<and> op_lookup_id op \<noteq> rz_lookup_id record'"
    and "now' < rz_expires_at_unix_seconds record'" and "rzt_lookup_id request = rz_lookup_id record'"
  shows "fst (take_pairing_rendezvous request now' (run_ops rendezvous_step ops db')) = Inr record'"
proof -
  have inv': "rendezvous_inv db'"
    using rendezvous_step_inv [OF assms(1), of "Publish_rendezvous owner record' now"] assms(2) by simp
  from assms(1,2) have "rendezvous_row_of owner record' \<in> set db'"
    by (cases rule: publish_cases) auto
  from run_keeps_row [OF inv' this assms(3)] relay_rendezvous.run_invar [OF inv'] show ?thesis
    using take_row [OF _ _ assms(4,5)] by simp
qed

text \<open>
  While a record is active its lookup identifier belongs to its publisher: publishing
  the identical record again as the same principal succeeds without storing anything, and
  any other record or principal under the same identifier is refused as a conflict.
\<close>
lemma rendezvous_publish_conflict:
  assumes "rendezvous_inv db" and "rendezvous_row_of owner record' \<in> set db"
    and "now < rz_expires_at_unix_seconds record'" and "now < rz_expires_at_unix_seconds candidate"
    and "rz_lookup_id candidate = rz_lookup_id record'"
  shows "fst (publish_pairing_rendezvous owner' candidate now db) =
    (if owner' = owner \<and> candidate = record' then Inr RzAlreadyPublished else Inl PairingRendezvousConflict)"
proof -
  have now: "unat now < 2 ^ 63" by (rule clock_before_expiry [OF assms(3) stored_row_facts(2) [OF assms(1,2)]])
  have "rendezvous_row_of owner record' = rendezvous_row_of owner' candidate \<longleftrightarrow> owner' = owner \<and> candidate = record'"
    using rendezvous_row_of_inject [OF stored_row_facts(1) [OF assms(1,2)]] by auto
  with publish_transaction_present [OF assms(1) now assms(4) assms(2), of owner'] assms(3,5)
  have "publish_transaction owner' candidate now db =
      (if owner' = owner \<and> candidate = record' then Inr (Inr RzAlreadyPublished, filter (row_live now) db)
       else Inl PairingRendezvousConflict)" by simp
  moreover have "\<not> rz_expires_at_unix_seconds candidate \<le> now" using assms(4) by simp
  ultimately show ?thesis by (simp only: publish_pairing_rendezvous_def transact_def) simp
qed

section \<open>Witnesses\<close>

definition sample_owner :: relay_principal_id where
  "sample_owner = RelayPrincipalId (replicate 32 7)"

definition sample_record :: "u8 \<Rightarrow> pairing_rendezvous_record" where
  "sample_record b = \<lparr>rz_version = \<lparr>major = 1, minor = 0\<rparr>, rz_lookup_id = PairingRendezvousId (replicate 32 b),
     rz_expires_at_unix_seconds = 600, rz_nonce = PairingRendezvousNonce (replicate 12 1),
     rz_ciphertext = replicate 16 9\<rparr>"

definition sample_take :: "u8 \<Rightarrow> rendezvous_take_request" where
  "sample_take b = \<lparr>rzt_version = \<lparr>major = 1, minor = 0\<rparr>, rzt_lookup_id = PairingRendezvousId (replicate 32 b)\<rparr>"



definition sample_rendezvous_db :: rendezvous_db where
  "sample_rendezvous_db = [rendezvous_row_of sample_owner (sample_record 1)]"

lemma sample_rendezvous_inv: "rendezvous_inv sample_rendezvous_db"
  unfolding rendezvous_inv_def
proof (intro conjI allI ballI)
  fix r assume "r \<in> set sample_rendezvous_db"
  then have r: "r = rendezvous_row_of sample_owner (sample_record 1)" by (simp add: sample_rendezvous_db_def)
  have "rendezvous_row_check (rendezvous_row_of sample_owner (sample_record 1))" by code_simp
  with r show "\<exists>owner record'. r = rendezvous_row_of owner record' \<and> rendezvous_row_check r \<and>
      unat (rz_expires_at_unix_seconds record') < 2 ^ 63"
    by (intro exI [of _ sample_owner] exI [of _ "sample_record 1"]) (simp add: sample_record_def)
qed (simp_all add: sample_rendezvous_db_def)

lemma sample_take_run:
  "take_pairing_rendezvous (sample_take 1) 10 sample_rendezvous_db =
     (Inr (sample_record 1), others_live 10 (rz_lookup_id (sample_record 1)) sample_rendezvous_db)"
  by (rule take_row [OF sample_rendezvous_inv, where owner = sample_owner])
    (simp_all add: sample_rendezvous_db_def sample_record_def sample_take_def)

lemma sample_publish_run:
  "publish_pairing_rendezvous sample_owner (sample_record 1) 10 [] = (Inr RzPublished, sample_rendezvous_db)"
  by (simp add: publish_pairing_rendezvous_def publish_transaction_def transact_def
      cleanup_expired_pairing_rendezvous_def load_pairing_rendezvous_def active_pairing_rendezvous_counts_def
      decide_pairing_rendezvous_publish_def insert_pairing_rendezvous_def to_sql_integer_def
      MAX_ACTIVE_PAIRING_RENDEZVOUS_def MAX_ACTIVE_PAIRING_RENDEZVOUS_PER_PRINCIPAL_def
      sample_rendezvous_db_def sample_record_def sample_owner_def rendezvous_row_of_def rendezvous_row_check_def)

theorem rendezvous_taken_once_witness:
  "\<nexists>r. fst (take_pairing_rendezvous (sample_take 1) 30 (run_ops rendezvous_step
      [Publish_rendezvous sample_owner (sample_record 2) 20, Take_rendezvous (sample_take 1) 25]
      (others_live 10 (rz_lookup_id (sample_record 1)) sample_rendezvous_db))) = Inr r"
  by (rule rendezvous_taken_once [OF sample_rendezvous_inv sample_take_run])
    (simp_all add: publishes_def sample_take_def sample_record_def numeral_eq_Suc del: replicate_Suc)

end
