(* ===== verification/Relay_Short_Code.thy ===== *)
theory Relay_Short_Code
  imports Relay_Base
begin

text \<open>
  Short-code pairing at the relay, the pure part: the requests and snapshots of
  \<open>crates/Konclave.DomainCore/src/short_code_relay.rs\<close>, and the attempt state with its
  authorization decisions of \<open>crates/Konclave.RelayCore/src/short_code_pairing.rs\<close>. A
  creator publishes an attempt, one claimant claims it, the two exchange seven opaque
  stages in a fixed dependency order, and the claimant takes the capability once.
\<close>

section \<open>Stages and requests\<close>

datatype short_code_relay_stage =
    CredentialRequest
  | CredentialResponse
  | ClaimantFinalization
  | CreatorIdentity
  | CreatorConfirmation
  | ClaimantConfirmation
  | Capability

fun short_code_stage_to_sql :: "short_code_relay_stage \<Rightarrow> int" where
  "short_code_stage_to_sql CredentialRequest = 1"
| "short_code_stage_to_sql CredentialResponse = 2"
| "short_code_stage_to_sql ClaimantFinalization = 3"
| "short_code_stage_to_sql CreatorIdentity = 4"
| "short_code_stage_to_sql CreatorConfirmation = 5"
| "short_code_stage_to_sql ClaimantConfirmation = 6"
| "short_code_stage_to_sql Capability = 7"

definition short_code_stage_from_sql :: "int \<Rightarrow> relay_error + short_code_relay_stage" where
  "short_code_stage_from_sql value =
     (if value = 1 then Inr CredentialRequest
      else if value = 2 then Inr CredentialResponse
      else if value = 3 then Inr ClaimantFinalization
      else if value = 4 then Inr CreatorIdentity
      else if value = 5 then Inr CreatorConfirmation
      else if value = 6 then Inr ClaimantConfirmation
      else if value = 7 then Inr Capability
      else Inl InvalidStoredData)"

lemma stage_to_sql_inj [simp]: "short_code_stage_to_sql s = short_code_stage_to_sql t \<longleftrightarrow> s = t"
  by (cases s; cases t) simp_all

lemma stage_from_to_sql [simp]: "short_code_stage_from_sql (short_code_stage_to_sql s) = Inr s"
  by (cases s) (simp_all add: short_code_stage_from_sql_def)

lemma stage_from_sql_eq_Inr [simp]:
  "short_code_stage_from_sql i = Inr s \<longleftrightarrow> i = short_code_stage_to_sql s"
  by (cases s) (auto simp: short_code_stage_from_sql_def)

text \<open>The derived order of the enum is the order of the discriminants.\<close>

instantiation short_code_relay_stage :: linorder
begin

definition less_eq_short_code_relay_stage :: "short_code_relay_stage \<Rightarrow> short_code_relay_stage \<Rightarrow> bool" where
  "less_eq_short_code_relay_stage s t \<longleftrightarrow> short_code_stage_to_sql s \<le> short_code_stage_to_sql t"

definition less_short_code_relay_stage :: "short_code_relay_stage \<Rightarrow> short_code_relay_stage \<Rightarrow> bool" where
  "less_short_code_relay_stage s t \<longleftrightarrow> short_code_stage_to_sql s < short_code_stage_to_sql t"

instance
  by standard (auto simp: less_eq_short_code_relay_stage_def less_short_code_relay_stage_def)

end

definition all_stages :: "short_code_relay_stage list" where
  "all_stages = [CredentialRequest, CredentialResponse, ClaimantFinalization, CreatorIdentity,
     CreatorConfirmation, ClaimantConfirmation, Capability]"

lemma set_all_stages [simp]: "set all_stages = UNIV"
  by (auto simp: all_stages_def) (metis short_code_relay_stage.exhaust)

lemma all_stages_sorted: "sorted_wrt (<) all_stages"
  by (simp add: all_stages_def less_short_code_relay_stage_def)

definition MAX_SHORT_CODE_RELAY_PAYLOAD_BYTES :: usize where "MAX_SHORT_CODE_RELAY_PAYLOAD_BYTES = 9 * 1024"
definition MAX_SHORT_CODE_RELAY_STAGES :: usize where "MAX_SHORT_CODE_RELAY_STAGES = 7"

definition validate_payload :: "bytes \<Rightarrow> konclave_domain_error + unit" where
  "validate_payload payload =
     (if \<not> (1 \<le> length payload \<and> length payload \<le> MAX_SHORT_CODE_RELAY_PAYLOAD_BYTES)
      then Inl (OutOfRange ''short_code_pairing_payload'' 1 MAX_SHORT_CODE_RELAY_PAYLOAD_BYTES (length payload))
      else Inr ())"

record attempt_publish_request =
  ap_version :: protocol_version
  ap_locator :: short_code_pairing_locator
  ap_attempt_id :: short_code_pairing_attempt_id
  ap_deadline_unix_seconds :: u64

definition ShortCodeAttemptPublishRequest_new ::
    "protocol_version \<Rightarrow> short_code_pairing_locator \<Rightarrow> short_code_pairing_attempt_id \<Rightarrow> u64 \<Rightarrow>
     konclave_domain_error + attempt_publish_request" where
  "ShortCodeAttemptPublishRequest_new version locator attempt_id deadline_unix_seconds =
     (if deadline_unix_seconds = 0 then Inl (ZeroValue ''short_code_pairing_deadline'')
      else Inr \<lparr>ap_version = version, ap_locator = locator, ap_attempt_id = attempt_id,
                ap_deadline_unix_seconds = deadline_unix_seconds\<rparr>)"

record attempt_claim_request =
  ac_version :: protocol_version
  ac_locator :: short_code_pairing_locator
  ac_payload :: bytes

definition ShortCodeAttemptClaimRequest_new ::
    "protocol_version \<Rightarrow> short_code_pairing_locator \<Rightarrow> bytes \<Rightarrow> konclave_domain_error + attempt_claim_request" where
  "ShortCodeAttemptClaimRequest_new version locator payload =
     and_then (validate_payload payload) (\<lambda>_.
     Inr \<lparr>ac_version = version, ac_locator = locator, ac_payload = payload\<rparr>)"

record attempt_message_request =
  am_version :: protocol_version
  am_attempt_id :: short_code_pairing_attempt_id
  am_stage :: short_code_relay_stage
  am_payload :: bytes

definition ShortCodeAttemptMessageRequest_new ::
    "protocol_version \<Rightarrow> short_code_pairing_attempt_id \<Rightarrow> short_code_relay_stage \<Rightarrow> bytes \<Rightarrow>
     konclave_domain_error + attempt_message_request" where
  "ShortCodeAttemptMessageRequest_new version attempt_id stage payload =
     and_then (validate_payload payload) (\<lambda>_.
     Inr \<lparr>am_version = version, am_attempt_id = attempt_id, am_stage = stage, am_payload = payload\<rparr>)"

record attempt_read_request =
  ar_version :: protocol_version
  ar_attempt_id :: short_code_pairing_attempt_id

record capability_take_request =
  ct_version :: protocol_version
  ct_attempt_id :: short_code_pairing_attempt_id
  ct_take_id :: short_code_capability_take_id

record short_code_relay_message =
  rm_stage :: short_code_relay_stage
  rm_payload :: bytes

definition ShortCodeRelayMessage_new ::
    "short_code_relay_stage \<Rightarrow> bytes \<Rightarrow> konclave_domain_error + short_code_relay_message" where
  "ShortCodeRelayMessage_new stage payload =
     and_then (validate_payload payload) (\<lambda>_. Inr \<lparr>rm_stage = stage, rm_payload = payload\<rparr>)"

record attempt_snapshot =
  as_version :: protocol_version
  as_attempt_id :: short_code_pairing_attempt_id
  as_deadline_unix_seconds :: u64
  as_cancelled :: bool
  as_capability_consumed :: bool
  as_messages :: "short_code_relay_message list"

definition ShortCodeAttemptSnapshot_new ::
    "protocol_version \<Rightarrow> short_code_pairing_attempt_id \<Rightarrow> u64 \<Rightarrow> bool \<Rightarrow> bool \<Rightarrow>
     short_code_relay_message list \<Rightarrow> konclave_domain_error + attempt_snapshot" where
  "ShortCodeAttemptSnapshot_new version attempt_id deadline_unix_seconds cancelled
       capability_consumed messages =
     (if deadline_unix_seconds = 0 then Inl (ZeroValue ''short_code_pairing_deadline'')
      else if length messages > MAX_SHORT_CODE_RELAY_STAGES
      then Inl (OutOfRange ''short_code_pairing_stages'' 0 MAX_SHORT_CODE_RELAY_STAGES (length messages))
      else let messages = sort_key rm_stage messages in
        if windows2_any (\<lambda>a b. rm_stage a = rm_stage b) messages
        then Inl (DuplicateIdentifier ''short_code_pairing_stage'')
        else Inr \<lparr>as_version = version, as_attempt_id = attempt_id,
                  as_deadline_unix_seconds = deadline_unix_seconds, as_cancelled = cancelled,
                  as_capability_consumed = capability_consumed, as_messages = messages\<rparr>)"

section \<open>Attempt state\<close>

text \<open>The \<open>BTreeMap\<close> of stages is a map; \<open>stage_entries\<close> is its ordered iteration.\<close>

type_synonym stage_map = "short_code_relay_stage \<Rightarrow> bytes option"

definition stage_entries :: "stage_map \<Rightarrow> (short_code_relay_stage \<times> bytes) list" where
  "stage_entries m = List.map_filter (\<lambda>s. map_option (Pair s) (m s)) all_stages"

record stored_short_code_attempt =
  sa_owner :: relay_principal_id
  sa_claimant :: "relay_principal_id option"
  sa_publish :: attempt_publish_request
  sa_messages :: stage_map
  sa_cancelled :: bool
  sa_capability_take_id :: "short_code_capability_take_id option"

definition StoredShortCodeAttempt_new ::
    "relay_principal_id \<Rightarrow> attempt_publish_request \<Rightarrow> stored_short_code_attempt" where
  "StoredShortCodeAttempt_new owner publish =
     \<lparr>sa_owner = owner, sa_claimant = None, sa_publish = publish, sa_messages = Map.empty,
      sa_cancelled = False, sa_capability_take_id = None\<rparr>"

definition capability_consumed :: "stored_short_code_attempt \<Rightarrow> bool" where
  "capability_consumed a \<longleftrightarrow> sa_capability_take_id a \<noteq> None"

definition set_claim ::
    "relay_principal_id \<Rightarrow> bytes \<Rightarrow> stored_short_code_attempt \<Rightarrow> relay_error + stored_short_code_attempt" where
  "set_claim claimant payload a =
     (if sa_claimant a \<noteq> None \<or> sa_messages a CredentialRequest \<noteq> None then Inl InvalidStoredData
      else Inr (a\<lparr>sa_messages := (sa_messages a)(CredentialRequest \<mapsto> payload), sa_claimant := Some claimant\<rparr>))"

definition insert_message ::
    "short_code_relay_stage \<Rightarrow> bytes \<Rightarrow> stored_short_code_attempt \<Rightarrow> relay_error + stored_short_code_attempt" where
  "insert_message stage payload a =
     (if stage = CredentialRequest \<or> sa_messages a stage \<noteq> None then Inl InvalidStoredData
      else Inr (a\<lparr>sa_messages := (sa_messages a)(stage \<mapsto> payload)\<rparr>))"

definition cancel :: "stored_short_code_attempt \<Rightarrow> stored_short_code_attempt" where
  "cancel a = a\<lparr>sa_cancelled := True\<rparr>"

definition consume_capability ::
    "short_code_capability_take_id \<Rightarrow> stored_short_code_attempt \<Rightarrow> stored_short_code_attempt" where
  "consume_capability take_id a = a\<lparr>sa_capability_take_id := Some take_id\<rparr>"

section \<open>Decisions\<close>

definition MAX_ACTIVE_SHORT_CODE_ATTEMPTS :: usize where "MAX_ACTIVE_SHORT_CODE_ATTEMPTS = 1000"
definition MAX_ACTIVE_SHORT_CODE_ATTEMPTS_PER_CREATOR :: usize where
  "MAX_ACTIVE_SHORT_CODE_ATTEMPTS_PER_CREATOR = 8"
definition MAX_SHORT_CODE_CLAIMS_PER_PRINCIPAL_WINDOW :: usize where
  "MAX_SHORT_CODE_CLAIMS_PER_PRINCIPAL_WINDOW = 10"
definition MAX_SHORT_CODE_CLAIMS_PER_LOCATOR_WINDOW :: usize where
  "MAX_SHORT_CODE_CLAIMS_PER_LOCATOR_WINDOW = 5"
definition SHORT_CODE_CLAIM_WINDOW_SECONDS :: u64 where "SHORT_CODE_CLAIM_WINDOW_SECONDS = 10 * 60"
definition SHORT_CODE_ATTEMPT_LIFETIME_SECONDS :: u64 where "SHORT_CODE_ATTEMPT_LIFETIME_SECONDS = 10 * 60"

lemmas short_code_limits =
  MAX_ACTIVE_SHORT_CODE_ATTEMPTS_def MAX_ACTIVE_SHORT_CODE_ATTEMPTS_PER_CREATOR_def
  MAX_SHORT_CODE_CLAIMS_PER_PRINCIPAL_WINDOW_def MAX_SHORT_CODE_CLAIMS_PER_LOCATOR_WINDOW_def

datatype publish_decision = PublishInsert | PublishIdentical
datatype claim_decision = ClaimFirst | ClaimIdentical
datatype message_decision = MessageInsert | MessageIdentical
datatype capability_decision = CapabilityConsume | CapabilityIdentical

definition decide_short_code_publish ::
    "relay_principal_id \<Rightarrow> attempt_publish_request \<Rightarrow> stored_short_code_attempt option \<Rightarrow> u64 \<Rightarrow>
     usize \<Rightarrow> usize \<Rightarrow> relay_error + publish_decision" where
  "decide_short_code_publish who request existing now_unix_seconds active_global_count active_creator_count =
     (if ap_deadline_unix_seconds request \<le> now_unix_seconds then Inl ExpiredShortCodeAttempt
      else if ap_deadline_unix_seconds request
                > saturating_add_u64 now_unix_seconds SHORT_CODE_ATTEMPT_LIFETIME_SECONDS
      then Inl InvalidShortCodeDeadline
      else case existing of
        Some a \<Rightarrow>
          if sa_owner a = who \<and> sa_publish a = request then Inr PublishIdentical
          else Inl ShortCodeAttemptConflict
      | None \<Rightarrow>
          if active_global_count \<ge> MAX_ACTIVE_SHORT_CODE_ATTEMPTS
          then Inl ShortCodeGlobalCapacityExceeded
          else if active_creator_count \<ge> MAX_ACTIVE_SHORT_CODE_ATTEMPTS_PER_CREATOR
          then Inl ShortCodeCreatorCapacityExceeded
          else Inr PublishInsert)"

text \<open>The part of the claim decision after the check for an exact retry.\<close>

definition decide_first_claim ::
    "relay_principal_id \<Rightarrow> stored_short_code_attempt option \<Rightarrow> u64 \<Rightarrow> usize \<Rightarrow> usize \<Rightarrow>
     relay_error + claim_decision" where
  "decide_first_claim who existing now_unix_seconds principal_window_count locator_window_count =
     (if principal_window_count \<ge> MAX_SHORT_CODE_CLAIMS_PER_PRINCIPAL_WINDOW
      then Inl ShortCodeClaimRateLimited
      else if locator_window_count \<ge> MAX_SHORT_CODE_CLAIMS_PER_LOCATOR_WINDOW
      then Inl ShortCodeAttemptUnavailable
      else and_then (ok_or ShortCodeAttemptUnavailable existing) (\<lambda>a.
        if ap_deadline_unix_seconds (sa_publish a) \<le> now_unix_seconds
           \<or> sa_cancelled a
           \<or> capability_consumed a
           \<or> sa_owner a = who
           \<or> sa_claimant a \<noteq> None
        then Inl ShortCodeAttemptUnavailable
        else Inr ClaimFirst))"

definition decide_short_code_claim ::
    "relay_principal_id \<Rightarrow> attempt_claim_request \<Rightarrow> stored_short_code_attempt option \<Rightarrow> u64 \<Rightarrow>
     usize \<Rightarrow> usize \<Rightarrow> relay_error + claim_decision" where
  "decide_short_code_claim who request existing now_unix_seconds principal_window_count locator_window_count =
     (let rest = decide_first_claim who existing now_unix_seconds principal_window_count locator_window_count in
      case existing of
        None \<Rightarrow> rest
      | Some a \<Rightarrow>
          if ap_version (sa_publish a) \<noteq> ac_version request then Inl ShortCodeAttemptUnavailable
          else if sa_claimant a = Some who \<and> sa_messages a CredentialRequest = Some (ac_payload request)
          then Inr ClaimIdentical
          else rest)"

fun stage_owner :: "stored_short_code_attempt \<Rightarrow> short_code_relay_stage \<Rightarrow> relay_principal_id" where
  "stage_owner a CredentialRequest = (case sa_claimant a of Some c \<Rightarrow> c | None \<Rightarrow> sa_owner a)"
| "stage_owner a ClaimantFinalization = (case sa_claimant a of Some c \<Rightarrow> c | None \<Rightarrow> sa_owner a)"
| "stage_owner a ClaimantConfirmation = (case sa_claimant a of Some c \<Rightarrow> c | None \<Rightarrow> sa_owner a)"
| "stage_owner a CredentialResponse = sa_owner a"
| "stage_owner a CreatorIdentity = sa_owner a"
| "stage_owner a CreatorConfirmation = sa_owner a"
| "stage_owner a Capability = sa_owner a"

fun stage_dependencies_satisfied :: "stored_short_code_attempt \<Rightarrow> short_code_relay_stage \<Rightarrow> bool" where
  "stage_dependencies_satisfied a CredentialRequest = False"
| "stage_dependencies_satisfied a CredentialResponse = (sa_messages a CredentialRequest \<noteq> None)"
| "stage_dependencies_satisfied a ClaimantFinalization = (sa_messages a CredentialResponse \<noteq> None)"
| "stage_dependencies_satisfied a CreatorIdentity = (sa_messages a ClaimantFinalization \<noteq> None)"
| "stage_dependencies_satisfied a CreatorConfirmation = (sa_messages a CreatorIdentity \<noteq> None)"
| "stage_dependencies_satisfied a ClaimantConfirmation = (sa_messages a CreatorIdentity \<noteq> None)"
| "stage_dependencies_satisfied a Capability =
     (sa_messages a CreatorConfirmation \<noteq> None \<and> sa_messages a ClaimantConfirmation \<noteq> None)"

definition decide_short_code_message ::
    "relay_principal_id \<Rightarrow> attempt_message_request \<Rightarrow> stored_short_code_attempt \<Rightarrow> u64 \<Rightarrow>
     relay_error + message_decision" where
  "decide_short_code_message who request a now_unix_seconds =
     (if ap_version (sa_publish a) \<noteq> am_version request
         \<or> ap_deadline_unix_seconds (sa_publish a) \<le> now_unix_seconds
         \<or> sa_cancelled a
      then Inl ShortCodeAttemptUnavailable
      else case sa_messages a (am_stage request) of
        Some payload \<Rightarrow>
          if payload = am_payload request \<and> stage_owner a (am_stage request) = who
          then Inr MessageIdentical
          else Inl ShortCodeAttemptConflict
      | None \<Rightarrow>
          if capability_consumed a then Inl ShortCodeAttemptUnavailable
          else if stage_owner a (am_stage request) \<noteq> who
                  \<or> \<not> stage_dependencies_satisfied a (am_stage request)
          then Inl InvalidShortCodeStage
          else Inr MessageInsert)"

definition authorize_short_code_read ::
    "relay_principal_id \<Rightarrow> attempt_read_request \<Rightarrow> stored_short_code_attempt \<Rightarrow> u64 \<Rightarrow> relay_error + unit" where
  "authorize_short_code_read who request a now_unix_seconds =
     (if ap_version (sa_publish a) \<noteq> ar_version request
         \<or> ap_deadline_unix_seconds (sa_publish a) \<le> now_unix_seconds
         \<or> sa_cancelled a
         \<or> (who \<noteq> sa_owner a \<and> Some who \<noteq> sa_claimant a)
      then Inl ShortCodeAttemptUnavailable
      else Inr ())"

definition authorize_short_code_cancel ::
    "relay_principal_id \<Rightarrow> attempt_read_request \<Rightarrow> stored_short_code_attempt \<Rightarrow> relay_error + unit" where
  "authorize_short_code_cancel who request a =
     (if ap_version (sa_publish a) = ar_version request
         \<and> (who = sa_owner a \<or> Some who = sa_claimant a)
      then Inr ()
      else Inl ShortCodeAttemptUnavailable)"

definition decide_short_code_capability_take ::
    "relay_principal_id \<Rightarrow> capability_take_request \<Rightarrow> stored_short_code_attempt \<Rightarrow> u64 \<Rightarrow>
     relay_error + capability_decision" where
  "decide_short_code_capability_take who request a now_unix_seconds =
     (if ap_version (sa_publish a) \<noteq> ct_version request
         \<or> ap_deadline_unix_seconds (sa_publish a) \<le> now_unix_seconds
         \<or> sa_cancelled a
         \<or> Some who \<noteq> sa_claimant a
         \<or> sa_messages a CreatorConfirmation = None
         \<or> sa_messages a ClaimantConfirmation = None
         \<or> sa_messages a Capability = None
      then Inl ShortCodeAttemptUnavailable
      else case sa_capability_take_id a of
        None \<Rightarrow> Inr CapabilityConsume
      | Some existing \<Rightarrow>
          if existing = ct_take_id request then Inr CapabilityIdentical
          else Inl ShortCodeAttemptUnavailable)"

definition short_code_snapshot :: "stored_short_code_attempt \<Rightarrow> relay_error + attempt_snapshot" where
  "short_code_snapshot stored =
     and_then (map_err RelayDomain (collect (\<lambda>(stage, payload). ShortCodeRelayMessage_new stage payload)
        (filter (\<lambda>(stage, _). stage \<noteq> Capability) (stage_entries (sa_messages stored))))) (\<lambda>messages.
     map_err RelayDomain (ShortCodeAttemptSnapshot_new (ap_version (sa_publish stored))
        (ap_attempt_id (sa_publish stored)) (ap_deadline_unix_seconds (sa_publish stored))
        (sa_cancelled stored) (capability_consumed stored) messages))"

end
