(* ===== verification/Relay_Short_Code_Store.thy ===== *)
theory Relay_Short_Code_Store
  imports Relay_Short_Code
begin

text \<open>
  Short-code pairing at the relay, the durable part: the tables
  \<open>relay_short_code_attempt\<close>, \<open>relay_short_code_message\<close> and
  \<open>relay_short_code_claim_rate\<close> of schema version 7 and the six transactions of
  \<open>crates/Konclave.RelayCore/src/sqlite.rs\<close> over them. Deleting an attempt cascades to
  its messages.
\<close>

section \<open>Tables\<close>

record attempt_row =
  at_locator :: bytes
  at_attempt_id :: bytes
  at_owner_principal_id :: bytes
  at_claimant_principal_id :: "bytes option"
  at_version_major :: int
  at_version_minor :: int
  at_deadline_unix_seconds :: int
  at_cancelled :: int
  at_capability_consumed :: int
  at_capability_take_id :: "bytes option"

definition attempt_row_check :: "attempt_row \<Rightarrow> bool" where
  "attempt_row_check r \<longleftrightarrow>
     length (at_locator r) = 32 \<and> length (at_attempt_id r) = 16 \<and>
     length (at_owner_principal_id r) = 32 \<and>
     (case at_claimant_principal_id r of None \<Rightarrow> True | Some c \<Rightarrow> length c = 32) \<and>
     1 \<le> at_version_major r \<and> at_version_major r \<le> 4294967295 \<and>
     0 \<le> at_version_minor r \<and> at_version_minor r \<le> 4294967295 \<and>
     1 \<le> at_deadline_unix_seconds r \<and>
     (at_cancelled r = 0 \<or> at_cancelled r = 1) \<and>
     (at_capability_consumed r = 0 \<or> at_capability_consumed r = 1) \<and>
     (case at_capability_take_id r of None \<Rightarrow> True | Some t \<Rightarrow> length t = 16)"

record stage_row =
  st_attempt_id :: bytes
  st_stage :: int
  st_payload :: bytes

definition stage_row_check :: "stage_row \<Rightarrow> bool" where
  "stage_row_check r \<longleftrightarrow>
     length (st_attempt_id r) = 16 \<and> 1 \<le> st_stage r \<and> st_stage r \<le> 7 \<and>
     1 \<le> length (st_payload r) \<and> length (st_payload r) \<le> 9216"

record claim_rate_row =
  cr_locator :: bytes
  cr_principal_id :: bytes
  cr_window_start :: int
  cr_attempts :: int

definition claim_rate_row_check :: "claim_rate_row \<Rightarrow> bool" where
  "claim_rate_row_check r \<longleftrightarrow>
     length (cr_locator r) = 32 \<and> length (cr_principal_id r) = 32 \<and>
     0 \<le> cr_window_start r \<and> 1 \<le> cr_attempts r \<and> cr_attempts r \<le> 5"

record short_code_db =
  sc_attempts :: "attempt_row list"
  sc_stages :: "stage_row list"
  sc_rates :: "claim_rate_row list"

definition empty_short_code_db :: short_code_db where
  "empty_short_code_db = \<lparr>sc_attempts = [], sc_stages = [], sc_rates = []\<rparr>"

section \<open>Statements\<close>

definition sql_bool :: "int \<Rightarrow> relay_error + bool" where
  "sql_bool value = (if value = 0 then Inr False else if value = 1 then Inr True else Inl InvalidStoredData)"

definition short_code_claim_window :: "u64 \<Rightarrow> relay_error + int" where
  "short_code_claim_window now_unix_seconds =
     to_sql_integer (now_unix_seconds - now_unix_seconds mod SHORT_CODE_CLAIM_WINDOW_SECONDS)"

text \<open>\<open>DELETE FROM relay_short_code_attempt\<close> with \<open>ON DELETE CASCADE\<close> on the messages.\<close>

definition delete_attempts :: "(attempt_row \<Rightarrow> bool) \<Rightarrow> short_code_db \<Rightarrow> short_code_db" where
  "delete_attempts condition db =
     (let deleted = map at_attempt_id (filter condition (sc_attempts db)) in
      db\<lparr>sc_attempts := filter (\<lambda>r. \<not> condition r) (sc_attempts db),
         sc_stages := filter (\<lambda>m. st_attempt_id m \<notin> set deleted) (sc_stages db)\<rparr>)"

definition cleanup_short_code_state :: "u64 \<Rightarrow> short_code_db \<Rightarrow> relay_error + short_code_db" where
  "cleanup_short_code_state now_unix_seconds db =
     and_then (to_sql_integer now_unix_seconds) (\<lambda>now.
     let db = delete_attempts (\<lambda>r. at_deadline_unix_seconds r \<le> now) db in
     and_then (short_code_claim_window now_unix_seconds) (\<lambda>window.
     Inr (db\<lparr>sc_rates := filter (\<lambda>r. \<not> cr_window_start r < window) (sc_rates db)\<rparr>)))"

definition active_short_code_counts ::
    "short_code_db \<Rightarrow> relay_principal_id \<Rightarrow> u64 \<Rightarrow> relay_error + (usize \<times> usize)" where
  "active_short_code_counts db who now_unix_seconds =
     and_then (to_sql_integer now_unix_seconds) (\<lambda>now.
     let active = filter (\<lambda>r. at_deadline_unix_seconds r > now \<and> at_cancelled r = 0) (sc_attempts db) in
     Inr (length active,
          length (filter (\<lambda>r. at_owner_principal_id r = principal_id_bytes who) active)))"

definition sum_attempts :: "(claim_rate_row \<Rightarrow> bool) \<Rightarrow> claim_rate_row list \<Rightarrow> int" where
  "sum_attempts condition rows = sum_list (map cr_attempts (filter condition rows))"

definition usize_try_from :: "int \<Rightarrow> relay_error + usize" where
  "usize_try_from value = (if value < 0 then Inl InvalidStoredData else Inr (nat value))"

definition short_code_claim_counts ::
    "short_code_db \<Rightarrow> relay_principal_id \<Rightarrow> short_code_pairing_locator \<Rightarrow> u64 \<Rightarrow> relay_error + (usize \<times> usize)" where
  "short_code_claim_counts db who locator now_unix_seconds =
     and_then (short_code_claim_window now_unix_seconds) (\<lambda>window.
     let rows = filter (\<lambda>r. cr_window_start r = window) (sc_rates db) in
     and_then (usize_try_from (sum_attempts (\<lambda>r. cr_principal_id r = principal_id_bytes who) rows)) (\<lambda>by_principal.
     and_then (usize_try_from (sum_attempts (\<lambda>r. cr_locator r = locator_bytes locator) rows)) (\<lambda>by_locator.
     Inr (by_principal, by_locator))))"

text \<open>\<open>INSERT ... ON CONFLICT DO UPDATE SET attempts = attempts + 1\<close> on one table.\<close>

fun upsert_rate :: "claim_rate_row \<Rightarrow> claim_rate_row list \<Rightarrow> (claim_rate_row list) option" where
  "upsert_rate row [] = (if claim_rate_row_check row then Some [row] else None)"
| "upsert_rate row (r # rs) =
     (if cr_locator r = cr_locator row \<and> cr_principal_id r = cr_principal_id row \<and>
         cr_window_start r = cr_window_start row
      then let r' = r\<lparr>cr_attempts := cr_attempts r + 1\<rparr> in
        if claim_rate_row_check r' then Some (r' # rs) else None
      else map_option ((#) r) (upsert_rate row rs))"

definition record_short_code_claim ::
    "relay_principal_id \<Rightarrow> short_code_pairing_locator \<Rightarrow> u64 \<Rightarrow> short_code_db \<Rightarrow> relay_error + short_code_db" where
  "record_short_code_claim who locator now_unix_seconds db =
     and_then (short_code_claim_window now_unix_seconds) (\<lambda>window.
     let row = \<lparr>cr_locator = locator_bytes locator, cr_principal_id = principal_id_bytes who,
                cr_window_start = window, cr_attempts = 1\<rparr> in
     and_then (ok_or (StorageFailure ''short-code claim rate update'') (upsert_rate row (sc_rates db))) (\<lambda>rates.
     Inr (db\<lparr>sc_rates := rates\<rparr>)))"

definition insert_short_code_attempt ::
    "relay_principal_id \<Rightarrow> attempt_publish_request \<Rightarrow> short_code_db \<Rightarrow> relay_error + short_code_db" where
  "insert_short_code_attempt who request db =
     and_then (to_sql_integer (ap_deadline_unix_seconds request)) (\<lambda>deadline.
     let row = \<lparr>at_locator = locator_bytes (ap_locator request),
                at_attempt_id = attempt_id_bytes (ap_attempt_id request),
                at_owner_principal_id = principal_id_bytes who,
                at_claimant_principal_id = None,
                at_version_major = int (unat (major (ap_version request))),
                at_version_minor = int (unat (minor (ap_version request))),
                at_deadline_unix_seconds = deadline,
                at_cancelled = 0, at_capability_consumed = 0, at_capability_take_id = None\<rparr> in
     if attempt_row_check row \<and> at_locator row \<notin> at_locator ` set (sc_attempts db) \<and>
        at_attempt_id row \<notin> at_attempt_id ` set (sc_attempts db)
     then Inr (db\<lparr>sc_attempts := sc_attempts db @ [row]\<rparr>)
     else Inl (StorageFailure ''short-code attempt insert''))"

text \<open>
  \<open>UPDATE relay_short_code_attempt SET ... WHERE ...\<close>: the number of changed rows and the
  new table, or \<open>None\<close> when a changed row violates its constraints.
\<close>

definition update_attempts ::
    "(attempt_row \<Rightarrow> bool) \<Rightarrow> (attempt_row \<Rightarrow> attempt_row) \<Rightarrow> short_code_db \<Rightarrow> (nat \<times> short_code_db) option" where
  "update_attempts condition f db =
     (if list_all (\<lambda>r. condition r \<longrightarrow> attempt_row_check (f r)) (sc_attempts db)
      then Some (length (filter condition (sc_attempts db)),
                 db\<lparr>sc_attempts := map (\<lambda>r. if condition r then f r else r) (sc_attempts db)\<rparr>)
      else None)"

definition insert_stage_row :: "string \<Rightarrow> stage_row \<Rightarrow> short_code_db \<Rightarrow> relay_error + short_code_db" where
  "insert_stage_row operation row db =
     (if stage_row_check row \<and> st_attempt_id row \<in> at_attempt_id ` set (sc_attempts db) \<and>
         (st_attempt_id row, st_stage row) \<notin> (\<lambda>m. (st_attempt_id m, st_stage m)) ` set (sc_stages db)
      then Inr (db\<lparr>sc_stages := sc_stages db @ [row]\<rparr>)
      else Inl (StorageFailure operation))"

definition update_short_code_claim ::
    "short_code_pairing_attempt_id \<Rightarrow> relay_principal_id \<Rightarrow> bytes \<Rightarrow> short_code_db \<Rightarrow> relay_error + short_code_db" where
  "update_short_code_claim attempt_id claimant payload db =
     and_then (ok_or (StorageFailure ''short-code claimant update'')
        (update_attempts
           (\<lambda>r. at_attempt_id r = attempt_id_bytes attempt_id \<and> at_claimant_principal_id r = None)
           (\<lambda>r. r\<lparr>at_claimant_principal_id := Some (principal_id_bytes claimant)\<rparr>) db)) (\<lambda>(updated, db).
     if updated \<noteq> 1 then Inl (StorageFailure ''short-code claimant outcome'')
     else insert_stage_row ''short-code credential request insert''
            \<lparr>st_attempt_id = attempt_id_bytes attempt_id,
             st_stage = short_code_stage_to_sql CredentialRequest, st_payload = payload\<rparr> db)"

definition insert_short_code_message ::
    "attempt_message_request \<Rightarrow> short_code_db \<Rightarrow> relay_error + short_code_db" where
  "insert_short_code_message request db =
     insert_stage_row ''short-code message insert''
       \<lparr>st_attempt_id = attempt_id_bytes (am_attempt_id request),
        st_stage = short_code_stage_to_sql (am_stage request), st_payload = am_payload request\<rparr> db"

section \<open>Loading an attempt\<close>

definition attempt_publish_from_row :: "attempt_row \<Rightarrow> relay_error + attempt_publish_request" where
  "attempt_publish_from_row row =
     and_then (from_sql_u32 (at_version_major row)) (\<lambda>version_major.
     and_then (from_sql_u32 (at_version_minor row)) (\<lambda>version_minor.
     and_then (map_err RelayDomain (ProtocolVersion_new version_major version_minor)) (\<lambda>version.
     and_then (and_then (sized_blob 32 (at_locator row))
        (\<lambda>b. map_err RelayDomain (ShortCodePairingLocator_from_slice b))) (\<lambda>locator.
     and_then (and_then (sized_blob 16 (at_attempt_id row))
        (\<lambda>b. map_err RelayDomain (ShortCodePairingAttemptId_from_slice b))) (\<lambda>attempt_id.
     and_then (from_sql_integer (at_deadline_unix_seconds row)) (\<lambda>deadline.
     map_err RelayDomain (ShortCodeAttemptPublishRequest_new version locator attempt_id deadline)))))))"

text \<open>\<open>CASE WHEN column IS NULL THEN NULL WHEN length(column) = n THEN column END\<close>\<close>

definition nullable_blob :: "nat \<Rightarrow> bytes option \<Rightarrow> bytes option" where
  "nullable_blob n column = Option.bind column (\<lambda>b. if length b = n then Some b else None)"

definition take_id_from_row :: "attempt_row \<Rightarrow> relay_error + short_code_capability_take_id option" where
  "take_id_from_row row =
     (let column = at_capability_take_id row;
          bytes' = nullable_blob 16 column;
          valid_take_id = (case column of
              None \<Rightarrow> bytes' = None
            | Some b \<Rightarrow> length b = 16 \<and> bytes' \<noteq> None) in
      if \<not> valid_take_id then Inl InvalidStoredData
      else transpose_map (\<lambda>b. map_err (\<lambda>_. InvalidStoredData) (ShortCodeCapabilityTakeId_from_slice b)) bytes')"

text \<open>The loop over the message rows, in stage order.\<close>

fun load_stages ::
    "relay_principal_id option \<Rightarrow> stage_row list \<Rightarrow> stored_short_code_attempt \<Rightarrow>
     relay_error + stored_short_code_attempt" where
  "load_stages claimant [] stored = Inr stored"
| "load_stages claimant (m # ms) stored =
     and_then (short_code_stage_from_sql (st_stage m)) (\<lambda>stage.
     and_then (map_err (\<lambda>_. InvalidStoredData) (ShortCodeRelayMessage_new stage (st_payload m))) (\<lambda>_.
     and_then
       (if stage = CredentialRequest
        then and_then (ok_or InvalidStoredData claimant) (\<lambda>c. set_claim c (st_payload m) stored)
        else insert_message stage (st_payload m) stored) (\<lambda>stored.
     load_stages claimant ms stored)))"

definition attempt_from_row :: "short_code_db \<Rightarrow> attempt_row \<Rightarrow> relay_error + stored_short_code_attempt" where
  "attempt_from_row db row =
     and_then (attempt_publish_from_row row) (\<lambda>publish.
     and_then (and_then (sized_blob 32 (at_owner_principal_id row))
        (\<lambda>b. map_err (\<lambda>_. InvalidStoredData) (RelayPrincipalId_from_slice b))) (\<lambda>owner.
     and_then (transpose_map (\<lambda>b. map_err (\<lambda>_. InvalidStoredData) (RelayPrincipalId_from_slice b))
        (nullable_blob 32 (at_claimant_principal_id row))) (\<lambda>claimant.
     and_then (sql_bool (at_cancelled row)) (\<lambda>cancelled.
     and_then (sql_bool (at_capability_consumed row)) (\<lambda>consumed.
     and_then (take_id_from_row row) (\<lambda>capability_take_id.
     if consumed \<noteq> (capability_take_id \<noteq> None) then Inl InvalidStoredData
     else
       let message_rows = sort_key st_stage
             (filter (\<lambda>m. st_attempt_id m = attempt_id_bytes (ap_attempt_id publish)) (sc_stages db)) in
       and_then (load_stages claimant message_rows (StoredShortCodeAttempt_new owner publish)) (\<lambda>stored.
       if (claimant \<noteq> None) \<noteq> (sa_messages stored CredentialRequest \<noteq> None) then Inl InvalidStoredData
       else
         let stored = (if cancelled then cancel stored else stored) in
         Inr (case capability_take_id of Some take_id \<Rightarrow> consume_capability take_id stored
              | None \<Rightarrow> stored))))))))"

definition load_short_code_attempt ::
    "short_code_db \<Rightarrow> short_code_pairing_locator option \<Rightarrow> short_code_pairing_attempt_id option \<Rightarrow>
     relay_error + stored_short_code_attempt option" where
  "load_short_code_attempt db locator attempt_id =
     (let rows = take 2 (filter (\<lambda>r. Some (at_locator r) = map_option locator_bytes locator \<or>
                                     Some (at_attempt_id r) = map_option attempt_id_bytes attempt_id)
                           (sc_attempts db)) in
      if length rows > 1 then Inl ShortCodeAttemptConflict
      else case rows of
        [] \<Rightarrow> Inr None
      | row # _ \<Rightarrow> and_then (attempt_from_row db row) (\<lambda>a. Inr (Some a)))"

section \<open>Transactions\<close>

datatype attempt_publish_outcome = AttemptPublished | AttemptAlreadyPublished
datatype attempt_message_outcome = StagePublished | StageAlreadyPublished

definition publish_attempt_transaction ::
    "relay_principal_id \<Rightarrow> attempt_publish_request \<Rightarrow> u64 \<Rightarrow> short_code_db \<Rightarrow>
     relay_error + ((relay_error + attempt_publish_outcome) \<times> short_code_db)" where
  "publish_attempt_transaction who request now_unix_seconds db =
     and_then (cleanup_short_code_state now_unix_seconds db) (\<lambda>db.
     and_then (load_short_code_attempt db (Some (ap_locator request)) (Some (ap_attempt_id request))) (\<lambda>existing.
     and_then (active_short_code_counts db who now_unix_seconds) (\<lambda>counts.
     and_then (decide_short_code_publish who request existing now_unix_seconds (fst counts) (snd counts)) (\<lambda>decision.
     case decision of
       PublishIdentical \<Rightarrow> Inr (Inr AttemptAlreadyPublished, db)
     | PublishInsert \<Rightarrow>
         and_then (insert_short_code_attempt who request db) (\<lambda>db. Inr (Inr AttemptPublished, db))))))"

definition publish_short_code_attempt ::
    "relay_principal_id \<Rightarrow> attempt_publish_request \<Rightarrow> u64 \<Rightarrow> short_code_db \<Rightarrow>
     (relay_error + attempt_publish_outcome) \<times> short_code_db" where
  "publish_short_code_attempt who request now_unix_seconds db =
     (if ap_deadline_unix_seconds request \<le> now_unix_seconds then (Inl ExpiredShortCodeAttempt, db)
      else transact (publish_attempt_transaction who request now_unix_seconds) db)"

text \<open>The end of a successful claim: reload the attempt, commit and return its snapshot.\<close>

definition claim_snapshot ::
    "stored_short_code_attempt option \<Rightarrow> short_code_db \<Rightarrow>
     relay_error + ((relay_error + attempt_snapshot) \<times> short_code_db)" where
  "claim_snapshot existing db =
     and_then (ok_or ShortCodeAttemptUnavailable existing) (\<lambda>attempt.
     and_then (load_short_code_attempt db None (Some (ap_attempt_id (sa_publish attempt)))) (\<lambda>stored.
     and_then (ok_or InvalidStoredData stored) (\<lambda>stored.
     and_then (short_code_snapshot stored) (\<lambda>snapshot.
     Inr (Inr snapshot, db)))))"

text \<open>
  The claim transaction: a refused claim that is below both rate limits is counted, and
  the count is committed although the claim fails.
\<close>

definition claim_attempt_transaction ::
    "relay_principal_id \<Rightarrow> attempt_claim_request \<Rightarrow> u64 \<Rightarrow> short_code_db \<Rightarrow>
     relay_error + ((relay_error + attempt_snapshot) \<times> short_code_db)" where
  "claim_attempt_transaction who request now_unix_seconds db =
     and_then (cleanup_short_code_state now_unix_seconds db) (\<lambda>db.
     and_then (load_short_code_attempt db (Some (ac_locator request)) None) (\<lambda>existing.
     and_then (short_code_claim_counts db who (ac_locator request) now_unix_seconds) (\<lambda>counts.
     case decide_short_code_claim who request existing now_unix_seconds (fst counts) (snd counts) of
       Inr ClaimIdentical \<Rightarrow> claim_snapshot existing db
     | Inr ClaimFirst \<Rightarrow>
         and_then (record_short_code_claim who (ac_locator request) now_unix_seconds db) (\<lambda>db.
         and_then (ok_or ShortCodeAttemptUnavailable existing) (\<lambda>attempt.
         and_then (update_short_code_claim (ap_attempt_id (sa_publish attempt)) who (ac_payload request) db)
           (claim_snapshot existing)))
     | Inl error' \<Rightarrow>
         if error' = ShortCodeAttemptUnavailable
            \<and> fst counts < MAX_SHORT_CODE_CLAIMS_PER_PRINCIPAL_WINDOW
            \<and> snd counts < MAX_SHORT_CODE_CLAIMS_PER_LOCATOR_WINDOW
         then and_then (record_short_code_claim who (ac_locator request) now_unix_seconds db)
                (\<lambda>db. Inr (Inl error', db))
         else Inl error')))"

definition claim_short_code_attempt ::
    "relay_principal_id \<Rightarrow> attempt_claim_request \<Rightarrow> u64 \<Rightarrow> short_code_db \<Rightarrow>
     (relay_error + attempt_snapshot) \<times> short_code_db" where
  "claim_short_code_attempt who request now_unix_seconds =
     transact (claim_attempt_transaction who request now_unix_seconds)"

text \<open>The start the four participant operations share: clean up, then load by identifier.\<close>

definition with_attempt ::
    "u64 \<Rightarrow> short_code_pairing_attempt_id \<Rightarrow>
     (stored_short_code_attempt \<Rightarrow> short_code_db \<Rightarrow> relay_error + ((relay_error + 'a) \<times> short_code_db)) \<Rightarrow>
     short_code_db \<Rightarrow> relay_error + ((relay_error + 'a) \<times> short_code_db)" where
  "with_attempt now_unix_seconds attempt_id body db =
     and_then (cleanup_short_code_state now_unix_seconds db) (\<lambda>db.
     and_then (load_short_code_attempt db None (Some attempt_id)) (\<lambda>stored.
     and_then (ok_or ShortCodeAttemptUnavailable stored) (\<lambda>stored.
     body stored db)))"

definition publish_short_code_message ::
    "relay_principal_id \<Rightarrow> attempt_message_request \<Rightarrow> u64 \<Rightarrow> short_code_db \<Rightarrow>
     (relay_error + attempt_message_outcome) \<times> short_code_db" where
  "publish_short_code_message who request now_unix_seconds =
     transact (with_attempt now_unix_seconds (am_attempt_id request) (\<lambda>existing db.
       and_then (decide_short_code_message who request existing now_unix_seconds) (\<lambda>decision.
       case decision of
         MessageIdentical \<Rightarrow> Inr (Inr StageAlreadyPublished, db)
       | MessageInsert \<Rightarrow>
           and_then (insert_short_code_message request db) (\<lambda>db. Inr (Inr StagePublished, db)))))"

definition read_short_code_attempt ::
    "relay_principal_id \<Rightarrow> attempt_read_request \<Rightarrow> u64 \<Rightarrow> short_code_db \<Rightarrow>
     (relay_error + attempt_snapshot) \<times> short_code_db" where
  "read_short_code_attempt who request now_unix_seconds =
     transact (with_attempt now_unix_seconds (ar_attempt_id request) (\<lambda>stored db.
       and_then (authorize_short_code_read who request stored now_unix_seconds) (\<lambda>_.
       and_then (short_code_snapshot stored) (\<lambda>snapshot. Inr (Inr snapshot, db)))))"

definition cancel_short_code_attempt ::
    "relay_principal_id \<Rightarrow> attempt_read_request \<Rightarrow> u64 \<Rightarrow> short_code_db \<Rightarrow>
     (relay_error + unit) \<times> short_code_db" where
  "cancel_short_code_attempt who request now_unix_seconds =
     transact (with_attempt now_unix_seconds (ar_attempt_id request) (\<lambda>stored db.
       and_then (authorize_short_code_cancel who request stored) (\<lambda>_.
       and_then (ok_or (StorageFailure ''short-code cancellation'')
         (update_attempts (\<lambda>r. at_attempt_id r = attempt_id_bytes (ar_attempt_id request))
            (\<lambda>r. r\<lparr>at_cancelled := 1\<rparr>) db)) (\<lambda>(_, db).
       Inr (Inr (), db)))))"

definition take_short_code_capability ::
    "relay_principal_id \<Rightarrow> capability_take_request \<Rightarrow> u64 \<Rightarrow> short_code_db \<Rightarrow>
     (relay_error + bytes) \<times> short_code_db" where
  "take_short_code_capability who request now_unix_seconds =
     transact (with_attempt now_unix_seconds (ct_attempt_id request) (\<lambda>stored db.
       and_then (decide_short_code_capability_take who request stored now_unix_seconds) (\<lambda>decision.
       and_then (ok_or InvalidStoredData (sa_messages stored Capability)) (\<lambda>payload.
       case decision of
         CapabilityIdentical \<Rightarrow> Inr (Inr payload, db)
       | CapabilityConsume \<Rightarrow>
           and_then (ok_or (StorageFailure ''short-code capability consumption'')
             (update_attempts
               (\<lambda>r. at_attempt_id r = attempt_id_bytes (ct_attempt_id request) \<and>
                    at_capability_consumed r = 0 \<and> at_capability_take_id r = None)
               (\<lambda>r. r\<lparr>at_capability_consumed := 1,
                      at_capability_take_id := Some (take_id_bytes (ct_take_id request))\<rparr>) db)) (\<lambda>(updated, db).
           if updated \<noteq> 1 then Inl (StorageFailure ''short-code capability outcome'')
           else Inr (Inr payload, db))))))"

end
