(* ===== verification/Relay_Short_Code_Inv.thy ===== *)
theory Relay_Short_Code_Inv
  imports Relay_Short_Code_Store
begin

text \<open>
  The invariant of the short-code tables, what loading an attempt returns on them, and the
  effect of each transaction, up to the interpretation of the store interface: every
  history of the six operations keeps the invariant.
\<close>

section \<open>The attempt a row stands for\<close>

definition stage_payloads :: "short_code_db \<Rightarrow> bytes \<Rightarrow> stage_map" where
  "stage_payloads db aid s =
     map_option st_payload
       (List.find (\<lambda>m. st_attempt_id m = aid \<and> st_stage m = short_code_stage_to_sql s) (sc_stages db))"

definition publish_of :: "attempt_row \<Rightarrow> attempt_publish_request" where
  "publish_of r = \<lparr>ap_version = \<lparr>major = of_int (at_version_major r), minor = of_int (at_version_minor r)\<rparr>,
     ap_locator = ShortCodePairingLocator (at_locator r),
     ap_attempt_id = ShortCodePairingAttemptId (at_attempt_id r),
     ap_deadline_unix_seconds = of_int (at_deadline_unix_seconds r)\<rparr>"

definition stored_of :: "short_code_db \<Rightarrow> attempt_row \<Rightarrow> stored_short_code_attempt" where
  "stored_of db r =
     \<lparr>sa_owner = RelayPrincipalId (at_owner_principal_id r),
      sa_claimant = map_option RelayPrincipalId (at_claimant_principal_id r),
      sa_publish = publish_of r,
      sa_messages = stage_payloads db (at_attempt_id r),
      sa_cancelled = (at_cancelled r = 1),
      sa_capability_take_id = map_option ShortCodeCapabilityTakeId (at_capability_take_id r)\<rparr>"

lemma stored_of_simps [simp]:
  "sa_owner (stored_of db r) = RelayPrincipalId (at_owner_principal_id r)"
  "sa_claimant (stored_of db r) = map_option RelayPrincipalId (at_claimant_principal_id r)"
  "sa_publish (stored_of db r) = publish_of r"
  "sa_messages (stored_of db r) = stage_payloads db (at_attempt_id r)"
  "sa_cancelled (stored_of db r) \<longleftrightarrow> at_cancelled r = 1"
  "sa_capability_take_id (stored_of db r) = map_option ShortCodeCapabilityTakeId (at_capability_take_id r)"
  by (simp_all add: stored_of_def)

lemma publish_of_simps [simp]:
  "ap_locator (publish_of r) = ShortCodePairingLocator (at_locator r)"
  "ap_attempt_id (publish_of r) = ShortCodePairingAttemptId (at_attempt_id r)"
  "ap_deadline_unix_seconds (publish_of r) = of_int (at_deadline_unix_seconds r)"
  by (simp_all add: publish_of_def)

section \<open>The invariant\<close>

text \<open>The stages a stage needs before it.\<close>

fun stage_needs :: "short_code_relay_stage \<Rightarrow> short_code_relay_stage set" where
  "stage_needs CredentialRequest = {}"
| "stage_needs CredentialResponse = {CredentialRequest}"
| "stage_needs ClaimantFinalization = {CredentialResponse}"
| "stage_needs CreatorIdentity = {ClaimantFinalization}"
| "stage_needs CreatorConfirmation = {CreatorIdentity}"
| "stage_needs ClaimantConfirmation = {CreatorIdentity}"
| "stage_needs Capability = {CreatorConfirmation, ClaimantConfirmation}"

lemma stage_dependencies_satisfied_iff:
  "stage_dependencies_satisfied a s \<longleftrightarrow> s \<noteq> CredentialRequest \<and> stage_needs s \<subseteq> dom (sa_messages a)"
  by (cases s) auto

definition stages_closed :: "stage_map \<Rightarrow> bool" where
  "stages_closed m \<longleftrightarrow> (\<forall>s \<in> dom m. stage_needs s \<subseteq> dom m)"

definition attempt_ok :: "short_code_db \<Rightarrow> attempt_row \<Rightarrow> bool" where
  "attempt_ok db r \<longleftrightarrow>
     attempt_row_check r \<and> at_deadline_unix_seconds r < 2 ^ 63 \<and>
     (at_capability_consumed r = 1 \<longleftrightarrow> at_capability_take_id r \<noteq> None) \<and>
     (at_claimant_principal_id r \<noteq> None \<longleftrightarrow> CredentialRequest \<in> dom (stage_payloads db (at_attempt_id r))) \<and>
     at_claimant_principal_id r \<noteq> Some (at_owner_principal_id r) \<and>
     stages_closed (stage_payloads db (at_attempt_id r)) \<and>
     (at_capability_take_id r \<noteq> None \<longrightarrow> Capability \<in> dom (stage_payloads db (at_attempt_id r)))"

definition stages_ok :: "short_code_db \<Rightarrow> bool" where
  "stages_ok db \<longleftrightarrow>
     distinct (map (\<lambda>m. (st_attempt_id m, st_stage m)) (sc_stages db)) \<and>
     (\<forall>m \<in> set (sc_stages db). stage_row_check m \<and> st_attempt_id m \<in> at_attempt_id ` set (sc_attempts db))"

definition claims_by :: "bytes \<Rightarrow> int \<Rightarrow> claim_rate_row list \<Rightarrow> int" where
  "claims_by p w rows = sum_attempts (\<lambda>r. cr_principal_id r = p) (filter (\<lambda>r. cr_window_start r = w) rows)"

definition claims_on :: "bytes \<Rightarrow> int \<Rightarrow> claim_rate_row list \<Rightarrow> int" where
  "claims_on l w rows = sum_attempts (\<lambda>r. cr_locator r = l) (filter (\<lambda>r. cr_window_start r = w) rows)"

definition rate_key :: "claim_rate_row \<Rightarrow> bytes \<times> bytes \<times> int" where
  "rate_key r = (cr_locator r, cr_principal_id r, cr_window_start r)"

definition rates_ok :: "claim_rate_row list \<Rightarrow> bool" where
  "rates_ok rows \<longleftrightarrow>
     distinct (map rate_key rows) \<and>
     (\<forall>r \<in> set rows. claim_rate_row_check r) \<and>
     (\<forall>p w. claims_by p w rows \<le> 10) \<and> (\<forall>l w. claims_on l w rows \<le> 5)"

definition active_rows :: "attempt_row list \<Rightarrow> attempt_row list" where
  "active_rows = filter (\<lambda>r. at_cancelled r = 0)"

definition capacity_ok :: "attempt_row list \<Rightarrow> bool" where
  "capacity_ok rows \<longleftrightarrow>
     length (active_rows rows) \<le> 1000 \<and>
     (\<forall>owner. length (filter (\<lambda>r. at_owner_principal_id r = owner) (active_rows rows)) \<le> 8)"

definition short_code_inv :: "short_code_db \<Rightarrow> bool" where
  "short_code_inv db \<longleftrightarrow>
     distinct (map at_locator (sc_attempts db)) \<and> distinct (map at_attempt_id (sc_attempts db)) \<and>
     (\<forall>r \<in> set (sc_attempts db). attempt_ok db r) \<and>
     stages_ok db \<and> rates_ok (sc_rates db) \<and> capacity_ok (sc_attempts db)"

lemma short_code_inv_empty: "short_code_inv empty_short_code_db"
  by (simp add: short_code_inv_def empty_short_code_db_def stages_ok_def rates_ok_def capacity_ok_def
      active_rows_def claims_by_def claims_on_def sum_attempts_def)

section \<open>Loading\<close>

lemma find_append_list: "List.find P (xs @ ys) = (case List.find P xs of None \<Rightarrow> List.find P ys | Some x \<Rightarrow> Some x)"
  by (induction xs) auto

lemma find_filter_irrelevant: "(\<And>x. x \<in> set xs \<Longrightarrow> P x \<Longrightarrow> Q x) \<Longrightarrow> List.find P (filter Q xs) = List.find P xs"
  by (induction xs) auto

lemma find_eq_filter: "List.find P xs = (case filter P xs of [] \<Rightarrow> None | x # _ \<Rightarrow> Some x)"
  by (induction xs) auto

lemma find_SomeD: "List.find P xs = Some x \<Longrightarrow> x \<in> set xs \<and> P x"
  by (induction xs) (auto split: if_splits)

lemma option_eq_by_Some: "(\<And>p. x = Some p \<longleftrightarrow> y = Some p) \<Longrightarrow> x = y"
  by (cases x; cases y) auto

lemma filter_unique:
  assumes "distinct (map f xs)" "x \<in> set xs"
  shows "filter (\<lambda>y. f y = f x) xs = [x]"
  using assms by (induction xs) (auto simp: filter_empty_conv rev_image_eqI)

lemma stage_payloads_Some:
  assumes "stages_ok db"
  shows "stage_payloads db aid s = Some p \<longleftrightarrow>
    (\<exists>m \<in> set (sc_stages db). st_attempt_id m = aid \<and> st_stage m = short_code_stage_to_sql s \<and> st_payload m = p)"
    (is "?l \<longleftrightarrow> (\<exists>m \<in> ?S. ?P m)")
proof
  assume ?l
  then obtain m where m: "List.find (\<lambda>m. st_attempt_id m = aid \<and> st_stage m = short_code_stage_to_sql s) (sc_stages db) = Some m"
    and p: "st_payload m = p"
    unfolding stage_payloads_def by blast
  from m have "m \<in> ?S" "st_attempt_id m = aid" "st_stage m = short_code_stage_to_sql s"
    using find_SomeD [OF m] by blast+
  with p show "\<exists>m \<in> ?S. ?P m" by blast
next
  assume "\<exists>m \<in> ?S. ?P m"
  then obtain m where m: "m \<in> ?S" "?P m" by blast
  have "filter (\<lambda>m'. (st_attempt_id m', st_stage m') = (st_attempt_id m, st_stage m)) (sc_stages db) = [m]"
    by (rule filter_unique [of "\<lambda>m. (st_attempt_id m, st_stage m)"]) (use assms m(1) in \<open>simp_all add: stages_ok_def\<close>)
  with m(2) show ?l unfolding stage_payloads_def find_eq_filter by simp
qed

lemma stage_of_row:
  assumes "stage_row_check m"
  obtains s where "st_stage m = short_code_stage_to_sql s"
proof -
  from assms have "st_stage m \<in> {1..7}" by (simp add: stage_row_check_def)
  then have "st_stage m \<in> {1, 2, 3, 4, 5, 6, 7}" by (simp only: atLeastAtMost_iff insert_iff empty_iff) linarith
  then have "\<exists>s. short_code_stage_from_sql (st_stage m) = Inr s"
    by (auto simp: short_code_stage_from_sql_def simp del: stage_from_sql_eq_Inr)
  then show ?thesis using that by auto
qed

text \<open>Loading a list of distinct stages builds the map of their payloads.\<close>

definition payload_in :: "stage_row list \<Rightarrow> stage_map" where
  "payload_in ms s = map_option st_payload (List.find (\<lambda>m. st_stage m = short_code_stage_to_sql s) ms)"

lemma payload_in_Nil [simp]: "payload_in [] = Map.empty"
  by (simp add: payload_in_def fun_eq_iff)

lemma payload_in_Cons:
  assumes "st_stage m = short_code_stage_to_sql s"
  shows "payload_in (m # ms) = (payload_in ms)(s \<mapsto> st_payload m)"
  using assms by (auto simp: payload_in_def fun_eq_iff)

lemma payload_in_dom: "s \<in> dom (payload_in ms) \<longleftrightarrow> short_code_stage_to_sql s \<in> st_stage ` set ms"
proof -
  have "List.find (\<lambda>m. st_stage m = short_code_stage_to_sql s) ms = None
      \<longleftrightarrow> short_code_stage_to_sql s \<notin> st_stage ` set ms"
    by (force simp: find_None_iff)
  then show ?thesis by (simp add: payload_in_def domIff)
qed

lemma load_stages_eq:
  assumes "distinct (map st_stage ms)" and "\<forall>m \<in> set ms. stage_row_check m"
    and "dom (sa_messages stored) \<inter> dom (payload_in ms) = {}"
    and "CredentialRequest \<in> dom (payload_in ms) \<Longrightarrow> claimant \<noteq> None \<and> sa_claimant stored = None"
  shows "load_stages claimant ms stored =
    Inr (stored\<lparr>sa_messages := sa_messages stored ++ payload_in ms,
                sa_claimant := (if CredentialRequest \<in> dom (payload_in ms) then claimant else sa_claimant stored)\<rparr>)"
  using assms
proof (induction ms arbitrary: stored)
  case Nil
  then show ?case by simp
next
  case (Cons m ms)
  from Cons.prems(2) have check: "stage_row_check m" by simp
  obtain s where s: "st_stage m = short_code_stage_to_sql s" using stage_of_row [OF check] .
  note pin = payload_in_Cons [OF s, of ms]
  have fresh: "s \<notin> dom (payload_in ms)" using Cons.prems(1) s by (simp add: payload_in_dom)
  have free: "sa_messages stored s = None" using Cons.prems(3) by (auto simp: pin)
  have valid: "ShortCodeRelayMessage_new s (st_payload m) = Inr \<lparr>rm_stage = s, rm_payload = st_payload m\<rparr>"
    using check by (simp add: ShortCodeRelayMessage_new_def validate_payload_def
        MAX_SHORT_CODE_RELAY_PAYLOAD_BYTES_def stage_row_check_def)
  have "CredentialRequest \<in> dom (payload_in (m # ms))" if "s = CredentialRequest" using that by (simp add: pin)
  then have first: "claimant \<noteq> None \<and> sa_claimant stored = None" if "s = CredentialRequest"
    using Cons.prems(4) that by blast
  let ?c = "if s = CredentialRequest then claimant else sa_claimant stored"
  let ?next = "stored\<lparr>sa_messages := (sa_messages stored)(s \<mapsto> st_payload m), sa_claimant := ?c\<rparr>"
  have step: "load_stages claimant (m # ms) stored = load_stages claimant ms ?next"
    using first free valid by (cases claimant) (auto simp: s set_claim_def insert_message_def)
  have "load_stages claimant ms ?next =
    Inr (?next\<lparr>sa_messages := sa_messages ?next ++ payload_in ms,
               sa_claimant := (if CredentialRequest \<in> dom (payload_in ms) then claimant else sa_claimant ?next)\<rparr>)"
  proof (rule Cons.IH)
    show "distinct (map st_stage ms)" "\<forall>m \<in> set ms. stage_row_check m" using Cons.prems(1,2) by simp_all
    show "dom (sa_messages ?next) \<inter> dom (payload_in ms) = {}"
      using Cons.prems(3) fresh by (auto simp: pin)
    show "claimant \<noteq> None \<and> sa_claimant ?next = None" if "CredentialRequest \<in> dom (payload_in ms)"
    proof -
      have "CredentialRequest \<in> dom (payload_in (m # ms))" using that by (simp add: pin)
      then show ?thesis using Cons.prems(4) that fresh by auto
    qed
  qed
  moreover have "sa_messages ?next ++ payload_in ms = sa_messages stored ++ payload_in (m # ms)"
    using fresh by (auto simp: pin map_add_def fun_eq_iff split: option.splits)
  moreover have "CredentialRequest \<in> dom (payload_in (m # ms)) \<longleftrightarrow>
      s = CredentialRequest \<or> CredentialRequest \<in> dom (payload_in ms)"
    unfolding pin by auto
  ultimately show ?case
    unfolding step by (cases "s = CredentialRequest") simp_all
qed

text \<open>The messages of one attempt.\<close>

definition rows_of :: "short_code_db \<Rightarrow> bytes \<Rightarrow> stage_row list" where
  "rows_of db aid = sort_key st_stage (filter (\<lambda>m. st_attempt_id m = aid) (sc_stages db))"

lemma rows_of_distinct:
  assumes "stages_ok db"
  shows "distinct (map st_stage (rows_of db aid))"
proof -
  have "distinct (map (\<lambda>m. (st_attempt_id m, st_stage m)) (sc_stages db))"
    using assms by (simp add: stages_ok_def)
  then have "distinct (map st_stage (filter (\<lambda>m. st_attempt_id m = aid) (sc_stages db)))"
    by (auto simp: distinct_map inj_on_def)
  then show ?thesis
    by (simp add: rows_of_def distinct_map)
qed

lemma payload_in_rows_of:
  assumes "stages_ok db"
  shows "payload_in (rows_of db aid) = stage_payloads db aid"
proof
  fix s
  let ?ms = "rows_of db aid"
  have one: "filter (\<lambda>x. st_stage x = st_stage m) ?ms = [m]" if "m \<in> set ?ms" for m
    by (rule filter_unique [OF rows_of_distinct [OF assms] that])
  have some: "payload_in ?ms s = Some p \<longleftrightarrow>
      (\<exists>m \<in> set ?ms. st_stage m = short_code_stage_to_sql s \<and> st_payload m = p)" for p
  proof
    assume "payload_in ?ms s = Some p"
    then obtain m where "List.find (\<lambda>m. st_stage m = short_code_stage_to_sql s) ?ms = Some m" "st_payload m = p"
      unfolding payload_in_def by blast
    then show "\<exists>m \<in> set ?ms. st_stage m = short_code_stage_to_sql s \<and> st_payload m = p"
      using find_SomeD by fast
  next
    assume "\<exists>m \<in> set ?ms. st_stage m = short_code_stage_to_sql s \<and> st_payload m = p"
    then obtain m where m: "m \<in> set ?ms" "st_stage m = short_code_stage_to_sql s" "st_payload m = p" by blast
    then show "payload_in ?ms s = Some p"
      using one [OF m(1)] by (simp add: payload_in_def find_eq_filter)
  qed
  have "payload_in ?ms s = Some p \<longleftrightarrow> stage_payloads db aid s = Some p" for p
    unfolding some stage_payloads_Some [OF assms] by (auto simp: rows_of_def)
  then show "payload_in ?ms s = stage_payloads db aid s"
    by (rule option_eq_by_Some)
qed

lemma sql_bool_eq [simp]: "sql_bool i = Inr b \<longleftrightarrow> (i = 0 \<and> \<not> b) \<or> (i = 1 \<and> b)"
  by (auto simp: sql_bool_def)

lemma attempt_publish_from_row_eq:
  assumes "attempt_row_check r" and "at_deadline_unix_seconds r < 2 ^ 63"
  shows "attempt_publish_from_row r = Inr (publish_of r)"
proof -
  have "(of_int (at_version_major r) :: u32) \<noteq> 0"
  proof
    assume "(of_int (at_version_major r) :: u32) = 0"
    then have "uint (of_int (at_version_major r) :: u32) = 0" by simp
    then show False
      using assms(1) by (simp add: unsigned_of_int take_bit_int_eq_self attempt_row_check_def)
  qed
  moreover have "(of_int (at_deadline_unix_seconds r) :: u64) \<noteq> 0"
  proof
    assume "(of_int (at_deadline_unix_seconds r) :: u64) = 0"
    then have "unat (of_int (at_deadline_unix_seconds r) :: u64) = 0" by simp
    then show False using assms unat_of_sql [of "at_deadline_unix_seconds r"]
      by (simp add: attempt_row_check_def)
  qed
  ultimately show ?thesis
    using assms by (auto simp: attempt_publish_from_row_def attempt_row_check_def from_sql_u32_def
        from_sql_integer_def ProtocolVersion_new_def id_from_slice_defs from_slice_def sized_blob_def
        ShortCodeAttemptPublishRequest_new_def publish_of_def)
qed

lemma take_id_from_row_eq:
  assumes "attempt_row_check r"
  shows "take_id_from_row r = Inr (map_option ShortCodeCapabilityTakeId (at_capability_take_id r))"
  using assms by (auto simp: take_id_from_row_def attempt_row_check_def nullable_blob_def
      id_from_slice_defs from_slice_def Let_def split: option.splits)

lemma attempt_from_row_eq:
  assumes "stages_ok db" and "attempt_ok db r"
  shows "attempt_from_row db r = Inr (stored_of db r)"
proof -
  have check: "attempt_row_check r" and deadline: "at_deadline_unix_seconds r < 2 ^ 63"
    using assms(2) by (simp_all add: attempt_ok_def)
  let ?c = "map_option RelayPrincipalId (at_claimant_principal_id r)"
  let ?new = "StoredShortCodeAttempt_new (RelayPrincipalId (at_owner_principal_id r)) (publish_of r)"
  let ?ms = "rows_of db (at_attempt_id r)"
  have claimant: "transpose_map (\<lambda>b. map_err (\<lambda>_. InvalidStoredData) (RelayPrincipalId_from_slice b))
      (nullable_blob 32 (at_claimant_principal_id r)) = Inr ?c"
    using check by (auto simp: attempt_row_check_def nullable_blob_def RelayPrincipalId_from_slice_def split: option.splits)
  have claimed: "at_claimant_principal_id r \<noteq> None \<longleftrightarrow> CredentialRequest \<in> dom (payload_in ?ms)"
    using assms by (simp add: attempt_ok_def payload_in_rows_of)
  have load: "load_stages ?c ?ms ?new =
      Inr (?new\<lparr>sa_messages := sa_messages ?new ++ payload_in ?ms,
          sa_claimant := (if CredentialRequest \<in> dom (payload_in ?ms) then ?c else sa_claimant ?new)\<rparr>)"
  proof (rule load_stages_eq)
    show "distinct (map st_stage ?ms)" by (rule rows_of_distinct [OF assms(1)])
    show "\<forall>m \<in> set ?ms. stage_row_check m" using assms(1) by (simp add: rows_of_def stages_ok_def)
  qed (use claimed in \<open>simp_all add: StoredShortCodeAttempt_new_def\<close>)
  have "sa_messages ?new ++ payload_in ?ms = stage_payloads db (at_attempt_id r)"
    using assms(1) by (simp add: StoredShortCodeAttempt_new_def payload_in_rows_of)
  with load claimed have load': "load_stages ?c ?ms ?new =
      Inr (?new\<lparr>sa_messages := stage_payloads db (at_attempt_id r), sa_claimant := ?c\<rparr>)"
    by (auto simp: StoredShortCodeAttempt_new_def)
  have owner: "and_then (sized_blob 32 (at_owner_principal_id r))
      (\<lambda>b. map_err (\<lambda>_. InvalidStoredData) (RelayPrincipalId_from_slice b))
      = Inr (RelayPrincipalId (at_owner_principal_id r))"
    using check by (simp add: attempt_row_check_def sized_blob_def RelayPrincipalId_from_slice_def)
  have flags: "sql_bool (at_cancelled r) = Inr (at_cancelled r = 1)"
    "sql_bool (at_capability_consumed r) = Inr (at_capability_consumed r = 1)"
    using check by (auto simp: attempt_row_check_def)
  have consumed: "(at_capability_consumed r = 1) = (map_option ShortCodeCapabilityTakeId (at_capability_take_id r) \<noteq> None)"
    using assms(2) by (simp add: attempt_ok_def)
  have first: "(?c \<noteq> None) = (stage_payloads db (at_attempt_id r) CredentialRequest \<noteq> None)"
    using claimed assms(1) by (simp add: payload_in_rows_of domIff)
  show ?thesis
    unfolding attempt_from_row_def attempt_publish_from_row_eq [OF check deadline] and_then.simps
      owner claimant flags take_id_from_row_eq [OF check] Let_def
    using load' consumed first
    by (cases "at_capability_take_id r")
      (simp_all add: rows_of_def StoredShortCodeAttempt_new_def stored_of_def cancel_def consume_capability_def)
qed

lemma load_absent:
  assumes "filter (\<lambda>r. Some (at_locator r) = map_option locator_bytes l \<or>
      Some (at_attempt_id r) = map_option attempt_id_bytes a) (sc_attempts db) = []"
  shows "load_short_code_attempt db l a = Inr None"
  using assms by (simp add: load_short_code_attempt_def)

lemma load_present:
  assumes "short_code_inv db"
    and "filter (\<lambda>r. Some (at_locator r) = map_option locator_bytes l \<or>
      Some (at_attempt_id r) = map_option attempt_id_bytes a) (sc_attempts db) = [r]"
  shows "load_short_code_attempt db l a = Inr (Some (stored_of db r))"
proof -
  have "r \<in> set (sc_attempts db)" using filter_eq_ConsD [OF assms(2)] by auto
  then have "attempt_from_row db r = Inr (stored_of db r)"
    using assms(1) by (intro attempt_from_row_eq) (simp_all add: short_code_inv_def)
  with assms(2) show ?thesis by (simp add: load_short_code_attempt_def)
qed

lemma load_conflict:
  assumes "1 < length (filter (\<lambda>r. Some (at_locator r) = map_option locator_bytes l \<or>
      Some (at_attempt_id r) = map_option attempt_id_bytes a) (sc_attempts db))"
  shows "load_short_code_attempt db l a = Inl ShortCodeAttemptConflict"
  using assms by (simp add: load_short_code_attempt_def)

text \<open>Loading by one key finds the row with that key, if there is one.\<close>

lemma load_by_id:
  assumes "short_code_inv db"
  obtains (absent) "attempt_id_bytes a \<notin> at_attempt_id ` set (sc_attempts db)"
      "load_short_code_attempt db None (Some a) = Inr None"
  | (present) r where "r \<in> set (sc_attempts db)" "at_attempt_id r = attempt_id_bytes a"
      "load_short_code_attempt db None (Some a) = Inr (Some (stored_of db r))"
proof (cases "attempt_id_bytes a \<in> at_attempt_id ` set (sc_attempts db)")
  case True
  then obtain r where r: "r \<in> set (sc_attempts db)" "at_attempt_id r = attempt_id_bytes a" by auto
  with assms have "filter (\<lambda>q. at_attempt_id q = attempt_id_bytes a) (sc_attempts db) = [r]"
    using filter_unique [of at_attempt_id "sc_attempts db" r] by (simp add: short_code_inv_def)
  with assms have "load_short_code_attempt db None (Some a) = Inr (Some (stored_of db r))"
    by (intro load_present) simp_all
  with r show ?thesis by (rule present)
next
  case False
  then have "load_short_code_attempt db None (Some a) = Inr None"
    by (intro load_absent) (force simp: filter_empty_conv)
  with False show ?thesis by (rule absent)
qed

lemma load_by_locator:
  assumes "short_code_inv db"
  obtains (absent) "locator_bytes l \<notin> at_locator ` set (sc_attempts db)"
      "load_short_code_attempt db (Some l) None = Inr None"
  | (present) r where "r \<in> set (sc_attempts db)" "at_locator r = locator_bytes l"
      "load_short_code_attempt db (Some l) None = Inr (Some (stored_of db r))"
proof (cases "locator_bytes l \<in> at_locator ` set (sc_attempts db)")
  case True
  then obtain r where r: "r \<in> set (sc_attempts db)" "at_locator r = locator_bytes l" by auto
  with assms have "filter (\<lambda>q. at_locator q = locator_bytes l) (sc_attempts db) = [r]"
    using filter_unique [of at_locator "sc_attempts db" r] by (simp add: short_code_inv_def)
  with assms have "load_short_code_attempt db (Some l) None = Inr (Some (stored_of db r))"
    by (intro load_present) simp_all
  with r show ?thesis by (rule present)
next
  case False
  then have "load_short_code_attempt db (Some l) None = Inr None"
    by (intro load_absent) (force simp: filter_empty_conv)
  with False show ?thesis by (rule absent)
qed

section \<open>Cleanup\<close>

definition window_of :: "u64 \<Rightarrow> int" where
  "window_of now = int (unat now - unat now mod 600)"

lemma short_code_claim_window_eq:
  assumes "unat now < 2 ^ 63"
  shows "short_code_claim_window now = Inr (window_of now)"
proof -
  have m: "unat (now mod 600) = unat now mod 600" by (simp add: unat_mod)
  have "now mod 600 \<le> now" by (simp add: word_le_nat_alt m)
  then have "unat (now - now mod 600) = unat now - unat now mod 600" by (simp add: unat_sub m)
  then show ?thesis
    using assms by (simp add: short_code_claim_window_def SHORT_CODE_CLAIM_WINDOW_SECONDS_def
        to_sql_integer_def window_of_def)
qed

definition cleaned :: "u64 \<Rightarrow> short_code_db \<Rightarrow> short_code_db" where
  "cleaned now db =
     (delete_attempts (\<lambda>r. at_deadline_unix_seconds r \<le> int (unat now)) db)
       \<lparr>sc_rates := filter (\<lambda>r. \<not> cr_window_start r < window_of now) (sc_rates db)\<rparr>"

lemma short_code_cleanup_eq:
  "cleanup_short_code_state now db = (if unat now < 2 ^ 63 then Inr (cleaned now db) else Inl SequenceExhausted)"
  by (simp add: cleanup_short_code_state_def short_code_claim_window_eq cleaned_def to_sql_integer_def
      delete_attempts_def Let_def)

lemma cleaned_attempts:
  "sc_attempts (cleaned now db) = filter (\<lambda>r. int (unat now) < at_deadline_unix_seconds r) (sc_attempts db)"
  by (simp add: cleaned_def delete_attempts_def Let_def not_le)

lemma cleaned_stages:
  "sc_stages (cleaned now db) = filter (\<lambda>m. st_attempt_id m \<notin>
     at_attempt_id ` {r \<in> set (sc_attempts db). at_deadline_unix_seconds r \<le> int (unat now)}) (sc_stages db)"
  by (simp add: cleaned_def delete_attempts_def Let_def)

lemma cleaned_rates:
  "sc_rates (cleaned now db) = filter (\<lambda>r. window_of now \<le> cr_window_start r) (sc_rates db)"
  by (simp add: cleaned_def not_less)

lemma same_attempt:
  assumes "short_code_inv db" "r \<in> set (sc_attempts db)" "q \<in> set (sc_attempts db)" "at_attempt_id r = at_attempt_id q"
  shows "r = q"
  using assms by (auto simp: short_code_inv_def distinct_map inj_on_def)

lemma cleaned_payloads:
  assumes "short_code_inv db" and "r \<in> set (sc_attempts (cleaned now db))"
  shows "stage_payloads (cleaned now db) (at_attempt_id r) = stage_payloads db (at_attempt_id r)"
proof
  fix s
  have r: "r \<in> set (sc_attempts db)" "int (unat now) < at_deadline_unix_seconds r"
    using assms(2) by (simp_all add: cleaned_attempts)
  have "at_attempt_id r \<notin> at_attempt_id ` {q \<in> set (sc_attempts db). at_deadline_unix_seconds q \<le> int (unat now)}"
    using same_attempt [OF assms(1) r(1)] r(2) by force
  then show "stage_payloads (cleaned now db) (at_attempt_id r) s = stage_payloads db (at_attempt_id r) s"
    unfolding stage_payloads_def cleaned_stages by (subst find_filter_irrelevant) auto
qed

lemma attempt_ok_cong:
  "stage_payloads db' (at_attempt_id r) = stage_payloads db (at_attempt_id r) \<Longrightarrow> attempt_ok db' r = attempt_ok db r"
  by (simp add: attempt_ok_def)

lemma sum_attempts_Nil [simp]: "sum_attempts P [] = 0"
  by (simp add: sum_attempts_def)

lemma sum_attempts_Cons [simp]:
  "sum_attempts P (r # rs) = (if P r then cr_attempts r else 0) + sum_attempts P rs"
  by (simp add: sum_attempts_def)

lemma sum_attempts_nonneg: "\<forall>r \<in> set rows. claim_rate_row_check r \<Longrightarrow> 0 \<le> sum_attempts P rows"
  by (induction rows) (auto simp: claim_rate_row_check_def)

lemma sum_attempts_filter_le:
  "\<forall>r \<in> set rows. claim_rate_row_check r \<Longrightarrow> sum_attempts P (filter Q rows) \<le> sum_attempts P rows"
  by (induction rows) (auto simp: claim_rate_row_check_def)

lemma claims_filter_le:
  assumes "rates_ok rows"
  shows "claims_by p w (filter Q rows) \<le> claims_by p w rows" and "claims_on l w (filter Q rows) \<le> claims_on l w rows"
proof -
  have check: "\<forall>r \<in> set (filter (\<lambda>r. cr_window_start r = w) rows). claim_rate_row_check r"
    using assms by (simp add: rates_ok_def)
  have swap: "filter (\<lambda>r. cr_window_start r = w) (filter Q rows) = filter Q (filter (\<lambda>r. cr_window_start r = w) rows)"
    by (simp add: conj_commute)
  show "claims_by p w (filter Q rows) \<le> claims_by p w rows" "claims_on l w (filter Q rows) \<le> claims_on l w rows"
    unfolding claims_by_def claims_on_def swap by (rule sum_attempts_filter_le [OF check])+
qed

lemma rates_ok_filter:
  assumes "rates_ok rows"
  shows "rates_ok (filter Q rows)"
proof -
  have "claims_by p w rows \<le> 10" "claims_on l w rows \<le> 5" for p l w
    using assms by (simp_all add: rates_ok_def)
  then have "claims_by p w (filter Q rows) \<le> 10" "claims_on l w (filter Q rows) \<le> 5" for p l w
    using claims_filter_le [OF assms] by (meson order_trans)+
  then show ?thesis
    using assms by (simp add: rates_ok_def distinct_map_filter)
qed

lemma filter_owner_le:
  "length (filter P (filter Q rows)) \<le> length (filter P rows)"
  by (induction rows) auto

lemma capacity_ok_filter:
  assumes "capacity_ok rows"
  shows "capacity_ok (filter Q rows)"
proof -
  have swap: "active_rows (filter Q rows) = filter Q (active_rows rows)"
    by (simp add: active_rows_def conj_commute)
  have "length (active_rows (filter Q rows)) \<le> length (active_rows rows)"
    unfolding swap by (rule length_filter_le)
  moreover have "length (filter (\<lambda>r. at_owner_principal_id r = owner) (active_rows (filter Q rows)))
      \<le> length (filter (\<lambda>r. at_owner_principal_id r = owner) (active_rows rows))" for owner
    unfolding swap by (rule filter_owner_le)
  ultimately show ?thesis using assms unfolding capacity_ok_def by (meson order_trans)
qed

lemma cleaned_inv:
  assumes "short_code_inv db"
  shows "short_code_inv (cleaned now db)"
  unfolding short_code_inv_def
proof (intro conjI ballI)
  show "distinct (map at_locator (sc_attempts (cleaned now db)))"
    "distinct (map at_attempt_id (sc_attempts (cleaned now db)))"
    "capacity_ok (sc_attempts (cleaned now db))"
    using assms by (simp_all add: cleaned_attempts short_code_inv_def distinct_map_filter capacity_ok_filter)
  show "rates_ok (sc_rates (cleaned now db))"
    using assms by (simp add: cleaned_rates short_code_inv_def rates_ok_filter)
  show "attempt_ok (cleaned now db) r" if "r \<in> set (sc_attempts (cleaned now db))" for r
    using that assms attempt_ok_cong [OF cleaned_payloads [OF assms that]]
    by (simp add: cleaned_attempts short_code_inv_def)
  show "stages_ok (cleaned now db)"
    using assms by (fastforce simp: stages_ok_def short_code_inv_def cleaned_stages cleaned_attempts distinct_map_filter)
qed

section \<open>Effects on the tables\<close>

text \<open>Counting one claim.\<close>

lemma upsert_rate_cases:
  assumes "upsert_rate row (r # rows) = Some rows'"
  obtains (hit) "cr_locator r = cr_locator row" "cr_principal_id r = cr_principal_id row"
      "cr_window_start r = cr_window_start row" "claim_rate_row_check (r\<lparr>cr_attempts := cr_attempts r + 1\<rparr>)"
      "rows' = r\<lparr>cr_attempts := cr_attempts r + 1\<rparr> # rows"
  | (miss) rows'' where "\<not> (cr_locator r = cr_locator row \<and> cr_principal_id r = cr_principal_id row \<and>
        cr_window_start r = cr_window_start row)"
      "upsert_rate row rows = Some rows''" "rows' = r # rows''"
  using assms by (auto simp: Let_def split: if_splits)

lemma upsert_rate_sum:
  fixes p :: "bytes \<Rightarrow> bytes \<Rightarrow> int \<Rightarrow> bool"
  defines "P \<equiv> \<lambda>r :: claim_rate_row. p (cr_locator r) (cr_principal_id r) (cr_window_start r)"
  assumes "upsert_rate row rows = Some rows'" and "cr_attempts row = 1"
  shows "sum_attempts P rows' = sum_attempts P rows + (if P row then 1 else 0)"
  using assms(2)
proof (induction rows arbitrary: rows')
  case Nil
  then show ?case using assms(3) by (auto split: if_splits)
next
  case (Cons r rows)
  from Cons.prems show ?case
  proof (cases rule: upsert_rate_cases)
    case hit
    then show ?thesis by (simp add: P_def)
  next
    case miss
    then show ?thesis using Cons.IH by simp
  qed
qed

lemma upsert_rate_keys:
  "upsert_rate row rows = Some rows' \<Longrightarrow> rate_key ` set rows' = insert (rate_key row) (rate_key ` set rows)"
proof (induction rows arbitrary: rows')
  case Nil
  then show ?case by (auto split: if_splits)
next
  case (Cons r rows)
  from Cons.prems show ?case
    by (cases rule: upsert_rate_cases) (use Cons.IH in \<open>auto simp: rate_key_def\<close>)
qed

lemma upsert_rate_distinct:
  "upsert_rate row rows = Some rows' \<Longrightarrow> distinct (map rate_key rows) \<Longrightarrow> distinct (map rate_key rows')"
proof (induction rows arbitrary: rows')
  case Nil
  then show ?case by (auto split: if_splits)
next
  case (Cons r rows)
  from Cons.prems(1) show ?case
  proof (cases rule: upsert_rate_cases)
    case hit
    then show ?thesis using Cons.prems(2) by (simp add: rate_key_def)
  next
    case (miss rows'')
    then have "rate_key r \<noteq> rate_key row" by (simp add: rate_key_def)
    then show ?thesis using miss Cons upsert_rate_keys [OF miss(2)] by simp
  qed
qed

lemma upsert_rate_check:
  "upsert_rate row rows = Some rows' \<Longrightarrow> \<forall>r \<in> set rows. claim_rate_row_check r \<Longrightarrow>
   \<forall>r \<in> set rows'. claim_rate_row_check r"
proof (induction rows arbitrary: rows')
  case Nil
  then show ?case by (auto split: if_splits)
next
  case (Cons r rows)
  from Cons.prems(1) show ?case
    by (cases rule: upsert_rate_cases) (use Cons in auto)
qed

lemma sum_attempts_filter: "sum_attempts P (filter Q xs) = sum_attempts (\<lambda>r. Q r \<and> P r) xs"
  by (induction xs) auto

lemma claims_by_upsert:
  assumes "upsert_rate row rows = Some rows'" and "cr_attempts row = 1"
  shows "claims_by p w rows' = claims_by p w rows + (if p = cr_principal_id row \<and> w = cr_window_start row then 1 else 0)"
  using upsert_rate_sum [OF assms, of "\<lambda>_ x y. y = w \<and> x = p"]
  unfolding claims_by_def sum_attempts_filter by auto

lemma claims_on_upsert:
  assumes "upsert_rate row rows = Some rows'" and "cr_attempts row = 1"
  shows "claims_on l w rows' = claims_on l w rows + (if l = cr_locator row \<and> w = cr_window_start row then 1 else 0)"
  using upsert_rate_sum [OF assms, of "\<lambda>x _ y. y = w \<and> x = l"]
  unfolding claims_on_def sum_attempts_filter by auto

lemma rates_ok_upsert:
  assumes "rates_ok rows" and "upsert_rate row rows = Some rows'" and "cr_attempts row = 1"
    and "claims_by (cr_principal_id row) (cr_window_start row) rows < 10"
    and "claims_on (cr_locator row) (cr_window_start row) rows < 5"
  shows "rates_ok rows'"
proof -
  have "claims_by p w rows \<le> 10" "claims_on l w rows \<le> 5" for p l w
    using assms(1) by (simp_all add: rates_ok_def)
  then have "claims_by p w rows' \<le> 10" "claims_on l w rows' \<le> 5" for p l w
    using assms(4,5) by (auto simp: claims_by_upsert [OF assms(2,3)] claims_on_upsert [OF assms(2,3)])
  then show ?thesis
    using assms(1) upsert_rate_distinct [OF assms(2)] upsert_rate_check [OF assms(2)]
    by (simp add: rates_ok_def)
qed

text \<open>Below the locator limit the CHECK on \<open>attempts\<close> cannot fail.\<close>

lemma upsert_rate_succeeds:
  assumes "\<forall>r \<in> set rows. claim_rate_row_check r" and "claim_rate_row_check row"
    and "claims_on (cr_locator row) (cr_window_start row) rows < 5"
  shows "\<exists>rows'. upsert_rate row rows = Some rows'"
  using assms
proof (induction rows)
  case (Cons r rows)
  have nonneg: "0 \<le> claims_on (cr_locator row) (cr_window_start row) rows"
    unfolding claims_on_def using Cons.prems(1) by (intro sum_attempts_nonneg) simp
  show ?case
  proof (cases "cr_locator r = cr_locator row \<and> cr_principal_id r = cr_principal_id row \<and> cr_window_start r = cr_window_start row")
    case True
    then have "claims_on (cr_locator row) (cr_window_start row) (r # rows) =
        cr_attempts r + claims_on (cr_locator row) (cr_window_start row) rows"
      by (simp add: claims_on_def)
    then have "cr_attempts r < 5" using Cons.prems(3) nonneg by linarith
    then have "claim_rate_row_check (r\<lparr>cr_attempts := cr_attempts r + 1\<rparr>)"
      using Cons.prems(1) by (simp add: claim_rate_row_check_def)
    with True show ?thesis by simp
  next
    case False
    have "claims_on (cr_locator row) (cr_window_start row) rows \<le> claims_on (cr_locator row) (cr_window_start row) (r # rows)"
      using Cons.prems(1) by (auto simp: claims_on_def claim_rate_row_check_def)
    then have "\<exists>rows'. upsert_rate row rows = Some rows'" using Cons by simp
    with False show ?thesis by auto
  qed
qed simp

text \<open>One attempt is changed, and perhaps one stage is added to it.\<close>

lemma inv_modify:
  assumes inv: "short_code_inv db" and r0: "r0 \<in> set (sc_attempts db)"
    and attempts: "sc_attempts db' = map (\<lambda>r. if at_attempt_id r = at_attempt_id r0 then f r else r) (sc_attempts db)"
    and keys: "at_locator (f r0) = at_locator r0" "at_attempt_id (f r0) = at_attempt_id r0"
      "at_owner_principal_id (f r0) = at_owner_principal_id r0" "at_cancelled (f r0) = 0 \<Longrightarrow> at_cancelled r0 = 0"
    and stages: "stages_ok db'" and rates: "rates_ok (sc_rates db')"
    and others: "\<And>aid. aid \<noteq> at_attempt_id r0 \<Longrightarrow> stage_payloads db' aid = stage_payloads db aid"
    and ok: "attempt_ok db' (f r0)"
  shows "short_code_inv db'"
proof -
  let ?g = "\<lambda>r. if r = r0 then f r0 else r"
  have attempts': "sc_attempts db' = map ?g (sc_attempts db)"
    unfolding attempts using same_attempt [OF inv _ r0] by auto
  have keys': "map at_locator (sc_attempts db') = map at_locator (sc_attempts db)"
    "map at_attempt_id (sc_attempts db') = map at_attempt_id (sc_attempts db)"
    unfolding attempts' using keys by auto
  have le: "length (filter P (active_rows (map ?g rows))) \<le> length (filter P (active_rows rows))"
    if "P (f r0) \<Longrightarrow> P r0" for P rows
    unfolding active_rows_def using keys(4) that by (induction rows) auto
  have "length (active_rows (sc_attempts db')) \<le> length (active_rows (sc_attempts db))"
    unfolding attempts' using le [of "\<lambda>_. True"] by simp
  moreover have "length (filter (\<lambda>r. at_owner_principal_id r = owner) (active_rows (sc_attempts db')))
      \<le> length (filter (\<lambda>r. at_owner_principal_id r = owner) (active_rows (sc_attempts db)))" for owner
    unfolding attempts' by (rule le) (simp add: keys(3))
  ultimately have "capacity_ok (sc_attempts db')"
    using inv unfolding short_code_inv_def capacity_ok_def by (meson order_trans)
  moreover have "attempt_ok db' r" if r: "r \<in> set (sc_attempts db')" for r
  proof -
    from r obtain q where q: "q \<in> set (sc_attempts db)" "r = ?g q" unfolding attempts' by auto
    show ?thesis
    proof (cases "q = r0")
      case True
      with q(2) ok show ?thesis by simp
    next
      case False
      with same_attempt [OF inv q(1) r0] have "at_attempt_id q \<noteq> at_attempt_id r0" by blast
      from attempt_ok_cong [of db' q db, OF others [OF this]] False q inv show ?thesis
        by (simp add: short_code_inv_def)
    qed
  qed
  ultimately show ?thesis
    using inv stages rates by (simp add: short_code_inv_def keys')
qed

text \<open>Adding one stage.\<close>

lemma insert_stage_row_Inr:
  assumes "insert_stage_row operation row db = Inr db'"
  shows "stage_row_check row" "st_attempt_id row \<in> at_attempt_id ` set (sc_attempts db)"
    "(st_attempt_id row, st_stage row) \<notin> (\<lambda>m. (st_attempt_id m, st_stage m)) ` set (sc_stages db)"
    "db' = db\<lparr>sc_stages := sc_stages db @ [row]\<rparr>"
  using assms by (simp_all add: insert_stage_row_def split: if_splits)

lemma stage_payloads_insert:
  assumes "(st_attempt_id row, st_stage row) \<notin> (\<lambda>m. (st_attempt_id m, st_stage m)) ` set (sc_stages db)"
    and "st_stage row = short_code_stage_to_sql s" and "sc_stages db' = sc_stages db @ [row]"
  shows "stage_payloads db' aid =
    (if aid = st_attempt_id row then (stage_payloads db aid)(s \<mapsto> st_payload row) else stage_payloads db aid)"
proof
  fix t
  have "List.find (\<lambda>m. st_attempt_id m = st_attempt_id row \<and> st_stage m = st_stage row) (sc_stages db) = None"
    unfolding find_None_iff
  proof (intro notI, elim exE conjE)
    fix m assume "m \<in> set (sc_stages db)" "st_attempt_id m = st_attempt_id row" "st_stage m = st_stage row"
    then have "(st_attempt_id row, st_stage row) \<in> (\<lambda>m. (st_attempt_id m, st_stage m)) ` set (sc_stages db)"
      by (intro image_eqI [where x = m]) simp_all
    with assms(1) show False by blast
  qed
  then show "stage_payloads db' aid t =
    (if aid = st_attempt_id row then (stage_payloads db aid)(s \<mapsto> st_payload row) else stage_payloads db aid) t"
    by (auto simp: stage_payloads_def assms(2,3) find_append_list split: option.splits)
qed

lemma stages_ok_insert:
  assumes "stages_ok db" and "stage_row_check row"
    and "st_attempt_id row \<in> at_attempt_id ` set (sc_attempts db)"
    and "(st_attempt_id row, st_stage row) \<notin> (\<lambda>m. (st_attempt_id m, st_stage m)) ` set (sc_stages db)"
    and "sc_stages db' = sc_stages db @ [row]" and "at_attempt_id ` set (sc_attempts db') = at_attempt_id ` set (sc_attempts db)"
  shows "stages_ok db'"
  using assms by (auto simp: stages_ok_def)

text \<open>A new attempt has no stages.\<close>

lemma inv_insert_attempt:
  assumes inv: "short_code_inv db" and row: "attempt_row_check row" "at_deadline_unix_seconds row < 2 ^ 63"
      "at_capability_consumed row = 0" "at_capability_take_id row = None" "at_claimant_principal_id row = None"
    and fresh: "at_locator row \<notin> at_locator ` set (sc_attempts db)" "at_attempt_id row \<notin> at_attempt_id ` set (sc_attempts db)"
    and room: "length (active_rows (sc_attempts db)) < 1000"
      "length (filter (\<lambda>r. at_owner_principal_id r = at_owner_principal_id row) (active_rows (sc_attempts db))) < 8"
  shows "short_code_inv (db\<lparr>sc_attempts := sc_attempts db @ [row]\<rparr>)" (is "short_code_inv ?db")
proof -
  have payloads: "stage_payloads ?db = stage_payloads db" by (simp add: stage_payloads_def fun_eq_iff)
  have fk: "\<forall>m \<in> set (sc_stages db). st_attempt_id m \<in> at_attempt_id ` set (sc_attempts db)"
    using inv by (simp add: short_code_inv_def stages_ok_def)
  have "List.find (\<lambda>m. st_attempt_id m = at_attempt_id row \<and> st_stage m = short_code_stage_to_sql s) (sc_stages db) = None" for s
    unfolding find_None_iff using fk fresh(2) by metis
  then have "stage_payloads db (at_attempt_id row) = Map.empty"
    by (simp add: stage_payloads_def fun_eq_iff)
  then have "attempt_ok ?db row"
    using row by (simp add: attempt_ok_def payloads stages_closed_def)
  moreover have "\<forall>r \<in> set (sc_attempts db). attempt_ok ?db r"
    using inv attempt_ok_cong [of ?db _ db] by (simp add: short_code_inv_def payloads)
  moreover have "capacity_ok (sc_attempts ?db)"
  proof -
    have old: "length (filter (\<lambda>r. at_owner_principal_id r = owner) (active_rows (sc_attempts db))) \<le> 8" for owner
      using inv by (simp add: short_code_inv_def capacity_ok_def)
    have "active_rows (sc_attempts db @ [row]) = active_rows (sc_attempts db) @ active_rows [row]"
      by (simp add: active_rows_def)
    moreover have "length (active_rows [row]) \<le> 1" by (simp add: active_rows_def)
    ultimately show ?thesis
      using room old by (auto simp: capacity_ok_def active_rows_def)
  qed
  moreover have "stages_ok ?db"
    using inv fk by (simp add: short_code_inv_def stages_ok_def)
  ultimately show ?thesis
    using inv fresh by (simp add: short_code_inv_def)
qed

section \<open>How attempts evolve\<close>

text \<open>
  While an attempt is kept, its identity, creator, version and deadline stay the same, its
  claimant and its take identifier are set at most once, cancellation is final and stages
  are only added.
\<close>

definition row_le :: "short_code_db \<Rightarrow> attempt_row \<Rightarrow> short_code_db \<Rightarrow> attempt_row \<Rightarrow> bool" where
  "row_le db r db' r' \<longleftrightarrow>
     at_locator r' = at_locator r \<and> at_attempt_id r' = at_attempt_id r \<and>
     at_owner_principal_id r' = at_owner_principal_id r \<and>
     at_version_major r' = at_version_major r \<and> at_version_minor r' = at_version_minor r \<and>
     at_deadline_unix_seconds r' = at_deadline_unix_seconds r \<and>
     (at_claimant_principal_id r \<noteq> None \<longrightarrow> at_claimant_principal_id r' = at_claimant_principal_id r) \<and>
     (at_cancelled r = 1 \<longrightarrow> at_cancelled r' = 1) \<and>
     (at_capability_take_id r \<noteq> None \<longrightarrow> at_capability_take_id r' = at_capability_take_id r) \<and>
     stage_payloads db (at_attempt_id r) \<subseteq>\<^sub>m stage_payloads db' (at_attempt_id r)"

lemma row_le_refl [simp]: "row_le db r db r"
  by (simp add: row_le_def)

lemma row_le_trans: "row_le db r db' r' \<Longrightarrow> row_le db' r' db'' r'' \<Longrightarrow> row_le db r db'' r''"
  by (auto simp: row_le_def elim: map_le_trans)

lemma row_le_same_stages: "sc_stages db' = sc_stages db \<Longrightarrow> row_le db r db' r"
  by (simp add: row_le_def stage_payloads_def map_le_def)

definition db_le :: "short_code_db \<Rightarrow> short_code_db \<Rightarrow> bool" where
  "db_le db db' \<longleftrightarrow> (\<forall>r \<in> set (sc_attempts db). \<exists>r' \<in> set (sc_attempts db'). row_le db r db' r')"

lemma db_le_refl [simp]: "db_le db db"
  by (auto simp: db_le_def intro: row_le_refl)

lemma db_le_extend:
  "set (sc_attempts db) \<subseteq> set (sc_attempts db') \<Longrightarrow> sc_stages db' = sc_stages db \<Longrightarrow> db_le db db'"
  by (auto simp: db_le_def intro: row_le_same_stages)

lemma db_le_trans: "db_le db db' \<Longrightarrow> db_le db' db'' \<Longrightarrow> db_le db db''"
  unfolding db_le_def by (meson row_le_trans)

lemma short_code_inv_rates:
  assumes "short_code_inv db" and "db' = db\<lparr>sc_rates := rates\<rparr>" and "rates_ok rates"
  shows "short_code_inv db'"
proof -
  have "stage_payloads db' = stage_payloads db" using assms(2) by (simp add: stage_payloads_def fun_eq_iff)
  with assms show ?thesis
    using attempt_ok_cong [of db' _ db] by (simp add: short_code_inv_def stages_ok_def)
qed

lemma db_le_modify:
  assumes inv: "short_code_inv db" and r0: "r0 \<in> set (sc_attempts db)"
    and attempts: "sc_attempts db' = map (\<lambda>r. if at_attempt_id r = at_attempt_id r0 then f r else r) (sc_attempts db)"
    and changed: "row_le db r0 db' (f r0)"
    and others: "\<And>aid. aid \<noteq> at_attempt_id r0 \<Longrightarrow> stage_payloads db' aid = stage_payloads db aid"
  shows "db_le db db'"
  unfolding db_le_def
proof
  fix r assume r: "r \<in> set (sc_attempts db)"
  show "\<exists>r' \<in> set (sc_attempts db'). row_le db r db' r'"
  proof (cases "at_attempt_id r = at_attempt_id r0")
    case True
    with same_attempt [OF inv r r0] have "r = r0" by blast
    with changed r attempts show ?thesis by (intro bexI [of _ "f r0"]) auto
  next
    case False
    with r attempts have "r \<in> set (sc_attempts db')" by auto
    moreover have "row_le db r db' r" using others [OF False] by (simp add: row_le_def)
    ultimately show ?thesis by blast
  qed
qed

lemma cleaned_keeps:
  assumes "short_code_inv db" and "r \<in> set (sc_attempts db)" and "int (unat now) < at_deadline_unix_seconds r"
  shows "r \<in> set (sc_attempts (cleaned now db))" and "row_le db r (cleaned now db) r"
proof -
  show in_cleaned: "r \<in> set (sc_attempts (cleaned now db))" using assms(2,3) by (simp add: cleaned_attempts)
  show "row_le db r (cleaned now db) r"
    by (simp add: row_le_def cleaned_payloads [OF assms(1) in_cleaned])
qed

section \<open>The operations\<close>

lemma transact_cases:
  assumes "transact body s = (r, s')"
  obtains (refused) e where "r = Inl e" "s' = s" | (committed) "body s = Inr (r, s')"
  using assms by (auto simp: transact_def split: sum.splits prod.splits)

lemma with_attempt_Inr:
  assumes "short_code_inv db" and "with_attempt now a body db = Inr (r, db')"
  obtains row where "unat now < 2 ^ 63" "row \<in> set (sc_attempts (cleaned now db))" "at_attempt_id row = attempt_id_bytes a"
    "body (stored_of (cleaned now db) row) (cleaned now db) = Inr (r, db')"
proof -
  have now: "unat now < 2 ^ 63"
    using assms(2) by (simp add: with_attempt_def short_code_cleanup_eq split: if_splits)
  note unf = assms(2) [unfolded with_attempt_def short_code_cleanup_eq, simplified now if_True and_then.simps]
  from cleaned_inv [OF assms(1), of now] show thesis
  proof (cases rule: load_by_id [of _ a])
    case absent
    with unf show ?thesis by simp
  next
    case (present row)
    with unf have "body (stored_of (cleaned now db) row) (cleaned now db) = Inr (r, db')" by simp
    with now present(1,2) show ?thesis by (rule that)
  qed
qed

text \<open>An update by attempt identifier changes the one row with it.\<close>

lemma update_attempts_Some:
  assumes inv: "short_code_inv db" and row: "row \<in> set (sc_attempts db)"
    and sel: "\<And>r. C r \<longleftrightarrow> at_attempt_id r = at_attempt_id row \<and> Q r" and q: "Q row"
    and run: "update_attempts C f db = Some (n, db')"
  shows "n = 1" and "attempt_row_check (f row)"
    and "db' = db\<lparr>sc_attempts := map (\<lambda>r. if at_attempt_id r = at_attempt_id row then f r else r) (sc_attempts db)\<rparr>"
proof -
  have cond: "C r \<longleftrightarrow> at_attempt_id r = at_attempt_id row" if "r \<in> set (sc_attempts db)" for r
    using same_attempt [OF inv that row] sel q by auto
  have f: "filter C (sc_attempts db) = filter (\<lambda>r. at_attempt_id r = at_attempt_id row) (sc_attempts db)"
    using cond by (auto intro: filter_cong)
  also have "\<dots> = [row]"
    using inv row by (intro filter_unique) (simp_all add: short_code_inv_def)
  finally have one: "length (filter C (sc_attempts db)) = 1" by simp
  have m: "map (\<lambda>r. if C r then f r else r) (sc_attempts db) =
      map (\<lambda>r. if at_attempt_id r = at_attempt_id row then f r else r) (sc_attempts db)"
    using cond by auto
  show "n = 1" "db' = db\<lparr>sc_attempts := map (\<lambda>r. if at_attempt_id r = at_attempt_id row then f r else r) (sc_attempts db)\<rparr>"
    using run one unfolding update_attempts_def m by (simp_all split: if_splits)
  show "attempt_row_check (f row)"
    using run row cond [OF row] by (auto simp: update_attempts_def list_all_iff split: if_splits)
qed

text \<open>Publishing an attempt.\<close>

definition attempt_row_of :: "relay_principal_id \<Rightarrow> attempt_publish_request \<Rightarrow> attempt_row" where
  "attempt_row_of who request =
     \<lparr>at_locator = locator_bytes (ap_locator request),
      at_attempt_id = attempt_id_bytes (ap_attempt_id request),
      at_owner_principal_id = principal_id_bytes who,
      at_claimant_principal_id = None,
      at_version_major = int (unat (major (ap_version request))),
      at_version_minor = int (unat (minor (ap_version request))),
      at_deadline_unix_seconds = int (unat (ap_deadline_unix_seconds request)),
      at_cancelled = 0, at_capability_consumed = 0, at_capability_take_id = None\<rparr>"

lemma attempt_row_of_simps [simp]:
  "at_locator (attempt_row_of who request) = locator_bytes (ap_locator request)"
  "at_attempt_id (attempt_row_of who request) = attempt_id_bytes (ap_attempt_id request)"
  "at_owner_principal_id (attempt_row_of who request) = principal_id_bytes who"
  "at_claimant_principal_id (attempt_row_of who request) = None"
  "at_deadline_unix_seconds (attempt_row_of who request) = int (unat (ap_deadline_unix_seconds request))"
  "at_cancelled (attempt_row_of who request) = 0"
  "at_capability_consumed (attempt_row_of who request) = 0"
  "at_capability_take_id (attempt_row_of who request) = None"
  by (simp_all add: attempt_row_of_def)

lemma insert_short_code_attempt_Inr:
  assumes "insert_short_code_attempt who request db = Inr db'"
  shows "unat (ap_deadline_unix_seconds request) < 2 ^ 63" "attempt_row_check (attempt_row_of who request)"
    "locator_bytes (ap_locator request) \<notin> at_locator ` set (sc_attempts db)"
    "attempt_id_bytes (ap_attempt_id request) \<notin> at_attempt_id ` set (sc_attempts db)"
    "db' = db\<lparr>sc_attempts := sc_attempts db @ [attempt_row_of who request]\<rparr>"
  using assms
  by (simp_all add: insert_short_code_attempt_def to_sql_integer_def attempt_row_of_def Let_def split: if_splits)

lemma active_counts_cleaned:
  assumes "unat now < 2 ^ 63"
  shows "active_short_code_counts (cleaned now db) who now =
    Inr (length (active_rows (sc_attempts (cleaned now db))),
         length (filter (\<lambda>r. at_owner_principal_id r = principal_id_bytes who) (active_rows (sc_attempts (cleaned now db)))))"
proof -
  have "filter (\<lambda>r. at_deadline_unix_seconds r > int (unat now) \<and> at_cancelled r = 0) (sc_attempts (cleaned now db))
      = active_rows (sc_attempts (cleaned now db))"
    by (auto simp: cleaned_attempts active_rows_def intro: filter_cong)
  moreover have "to_sql_integer now = Inr (int (unat now))" using assms by simp
  ultimately show ?thesis
    unfolding active_short_code_counts_def by (simp only: and_then.simps Let_def)
qed

lemma int_unat_bound: "unat (v :: u64) < 2 ^ 63 \<Longrightarrow> int (unat v) < 2 ^ 63"
  using of_nat_less_iff [of "unat v" "2 ^ 63", where 'a = int] by simp

lemma publish_attempt_cases:
  assumes inv: "short_code_inv db" and run: "publish_short_code_attempt who request now db = (r, db')"
  obtains (refused) e where "r = Inl e" "db' = db"
  | (identical) "r = Inr AttemptAlreadyPublished" "unat now < 2 ^ 63" "db' = cleaned now db"
  | (published) "r = Inr AttemptPublished" "unat now < 2 ^ 63" "now < ap_deadline_unix_seconds request"
      "ap_deadline_unix_seconds request \<le> saturating_add_u64 now SHORT_CODE_ATTEMPT_LIFETIME_SECONDS"
      "db' = (cleaned now db)\<lparr>sc_attempts := sc_attempts (cleaned now db) @ [attempt_row_of who request]\<rparr>"
      "short_code_inv db'"
proof (cases "ap_deadline_unix_seconds request \<le> now")
  case True
  with run have "r = Inl ExpiredShortCodeAttempt" "db' = db" by (simp_all add: publish_short_code_attempt_def)
  then show ?thesis by (rule refused)
next
  case False
  with run have "transact (publish_attempt_transaction who request now) db = (r, db')"
    by (simp add: publish_short_code_attempt_def)
  then show ?thesis
  proof (cases rule: transact_cases)
    case refused': (refused e)
    then show ?thesis by (rule refused)
  next
    case committed
    then have now: "unat now < 2 ^ 63"
      by (simp add: publish_attempt_transaction_def short_code_cleanup_eq split: if_splits)
    note inv' = cleaned_inv [OF inv, of now]
    from committed now obtain existing decision where
      decide: "decide_short_code_publish who request existing now
          (length (active_rows (sc_attempts (cleaned now db))))
          (length (filter (\<lambda>r. at_owner_principal_id r = principal_id_bytes who) (active_rows (sc_attempts (cleaned now db))))) = Inr decision"
      and rest: "(case decision of PublishIdentical \<Rightarrow> Inr (Inr AttemptAlreadyPublished, cleaned now db)
        | PublishInsert \<Rightarrow> and_then (insert_short_code_attempt who request (cleaned now db)) (\<lambda>db. Inr (Inr AttemptPublished, db)))
        = Inr (r, db')"
      unfolding publish_attempt_transaction_def short_code_cleanup_eq by (auto simp: active_counts_cleaned)
    show ?thesis
    proof (cases decision)
      case PublishIdentical
      with rest now show ?thesis by (intro identical) simp_all
    next
      case PublishInsert
      with rest have ins: "insert_short_code_attempt who request (cleaned now db) = Inr db'" "r = Inr AttemptPublished"
        by auto
      note row = insert_short_code_attempt_Inr [OF ins(1)]
      from decide PublishInsert have room:
        "length (active_rows (sc_attempts (cleaned now db))) < 1000"
        "length (filter (\<lambda>r. at_owner_principal_id r = principal_id_bytes who) (active_rows (sc_attempts (cleaned now db)))) < 8"
        "now < ap_deadline_unix_seconds request"
        "ap_deadline_unix_seconds request \<le> saturating_add_u64 now SHORT_CODE_ATTEMPT_LIFETIME_SECONDS"
        by (auto simp: decide_short_code_publish_def short_code_limits split: if_splits option.splits)
      have "at_deadline_unix_seconds (attempt_row_of who request) < 2 ^ 63"
        unfolding attempt_row_of_simps by (rule int_unat_bound [OF row(1)])
      then have "short_code_inv db'"
        unfolding row(5) by (intro inv_insert_attempt [OF inv']) (use row(1-4) room(1,2) in simp_all)
      then show ?thesis by (rule published [OF ins(2) now room(3,4) row(5)])
    qed
  qed
qed

text \<open>Claiming an attempt.\<close>

lemma claim_counts_eq:
  assumes "unat now < 2 ^ 63" and "rates_ok (sc_rates db)"
  shows "short_code_claim_counts db who l now =
    Inr (nat (claims_by (principal_id_bytes who) (window_of now) (sc_rates db)),
         nat (claims_on (locator_bytes l) (window_of now) (sc_rates db)))"
proof -
  have "\<forall>r \<in> set (filter (\<lambda>r. cr_window_start r = window_of now) (sc_rates db)). claim_rate_row_check r"
    using assms(2) by (simp add: rates_ok_def)
  note nonneg = sum_attempts_nonneg [OF this]
  show ?thesis
    unfolding short_code_claim_counts_def short_code_claim_window_eq [OF assms(1)] and_then.simps Let_def
    using nonneg by (simp add: usize_try_from_def claims_by_def claims_on_def not_less)
qed

lemma record_claim_Inr:
  assumes "unat now < 2 ^ 63" and "rates_ok (sc_rates db)"
    and "nat (claims_by (principal_id_bytes who) (window_of now) (sc_rates db)) < 10"
    and "nat (claims_on (locator_bytes l) (window_of now) (sc_rates db)) < 5"
    and "record_short_code_claim who l now db = Inr db'"
  obtains rates where "db' = db\<lparr>sc_rates := rates\<rparr>" "rates_ok rates"
proof -
  let ?row = "\<lparr>cr_locator = locator_bytes l, cr_principal_id = principal_id_bytes who,
                cr_window_start = window_of now, cr_attempts = 1\<rparr>"
  from assms(5) obtain rates where up: "upsert_rate ?row (sc_rates db) = Some rates"
    and db': "db' = db\<lparr>sc_rates := rates\<rparr>"
    unfolding record_short_code_claim_def short_code_claim_window_eq [OF assms(1)] Let_def by auto
  have "rates_ok rates"
    by (rule rates_ok_upsert [OF assms(2) up]) (use assms(3,4) in simp_all)
  with db' show thesis by (rule that)
qed

text \<open>The combined effect of claiming: the claimant is set and the first stage is stored.\<close>

lemma update_claim_effect:
  assumes inv: "short_code_inv db" and row: "row \<in> set (sc_attempts db)"
    and free: "at_claimant_principal_id row = None" "at_capability_take_id row = None"
    and other: "principal_id_bytes who \<noteq> at_owner_principal_id row"
    and run: "update_short_code_claim (ShortCodePairingAttemptId (at_attempt_id row)) who payload db = Inr db'"
  defines "row' \<equiv> row\<lparr>at_claimant_principal_id := Some (principal_id_bytes who)\<rparr>"
  shows "short_code_inv db'" and "db_le db db'" and "row' \<in> set (sc_attempts db')"
    and "stored_of db' row' = (stored_of db row)\<lparr>
      sa_messages := (stage_payloads db (at_attempt_id row))(CredentialRequest \<mapsto> payload), sa_claimant := Some who\<rparr>"
proof -
  let ?id = "at_attempt_id row"
  let ?f = "\<lambda>r. r\<lparr>at_claimant_principal_id := Some (principal_id_bytes who)\<rparr>"
  let ?m = "\<lparr>st_attempt_id = ?id, st_stage = short_code_stage_to_sql CredentialRequest, st_payload = payload\<rparr>"
  from run obtain n db1 where up: "update_attempts
      (\<lambda>r. at_attempt_id r = ?id \<and> at_claimant_principal_id r = None) ?f db = Some (n, db1)"
    and ins: "insert_stage_row ''short-code credential request insert'' ?m db1 = Inr db'"
    by (auto simp: update_short_code_claim_def split: if_splits)
  note up' = update_attempts_Some [OF inv row _ _ up, where Q = "\<lambda>r. at_claimant_principal_id r = None"]
  have db1: "db1 = db\<lparr>sc_attempts := map (\<lambda>r. if at_attempt_id r = ?id then ?f r else r) (sc_attempts db)\<rparr>"
    and check: "attempt_row_check row'"
    using up' free(1) by (simp_all add: row'_def)
  note ins' = insert_stage_row_Inr [OF ins]
  have stages': "sc_stages db' = sc_stages db @ [?m]" using ins'(4) db1 by simp
  have attempts': "sc_attempts db' = map (\<lambda>r. if at_attempt_id r = ?id then ?f r else r) (sc_attempts db)"
    using ins'(4) db1 by simp
  have rates': "sc_rates db' = sc_rates db" using ins'(4) db1 by simp
  have fresh: "(st_attempt_id ?m, st_stage ?m) \<notin> (\<lambda>m. (st_attempt_id m, st_stage m)) ` set (sc_stages db)"
    using ins'(3) db1 by simp
  have payloads: "stage_payloads db' aid = (if aid = ?id then (stage_payloads db aid)(CredentialRequest \<mapsto> payload)
      else stage_payloads db aid)" for aid
    using stage_payloads_insert [OF fresh _ stages', of CredentialRequest aid] by simp
  have old: "attempt_ok db row" using inv row by (simp add: short_code_inv_def)
  have "CredentialRequest \<notin> dom (stage_payloads db ?id)"
    using old free(1) by (simp add: attempt_ok_def)
  then have le: "row_le db row db' row'"
    using free by (auto simp: row_le_def row'_def payloads map_le_def)
  have ok: "attempt_ok db' row'"
    using old check other free by (auto simp: attempt_ok_def row'_def payloads stages_closed_def)
  have ids: "at_attempt_id ` set (sc_attempts db') = at_attempt_id ` set (sc_attempts db)"
    unfolding attempts' set_map image_image by (intro image_cong) simp_all
  have stages: "stages_ok db'"
    by (rule stages_ok_insert [OF _ ins'(1) _ fresh stages' ids]) (use inv row in \<open>simp_all add: short_code_inv_def\<close>)
  show "short_code_inv db'"
    by (rule inv_modify [OF inv row attempts'])
      (use inv stages ok rates' in \<open>simp_all add: short_code_inv_def payloads row'_def\<close>)
  show "db_le db db'"
    by (rule db_le_modify [OF inv row attempts']) (use le in \<open>simp_all add: payloads row'_def\<close>)
  show "row' \<in> set (sc_attempts db')" using row unfolding attempts' row'_def by auto
  show "stored_of db' row' = (stored_of db row)\<lparr>
      sa_messages := (stage_payloads db ?id)(CredentialRequest \<mapsto> payload), sa_claimant := Some who\<rparr>"
    by (simp add: stored_of_def row'_def payloads publish_of_def)
qed

lemma load_row:
  assumes "short_code_inv db" and "row \<in> set (sc_attempts db)"
  shows "load_short_code_attempt db None (Some (ShortCodePairingAttemptId (at_attempt_id row))) = Inr (Some (stored_of db row))"
  by (rule load_by_id [OF assms(1), of "ShortCodePairingAttemptId (at_attempt_id row)"])
    (use assms same_attempt in \<open>auto\<close>)

lemma claim_snapshot_Inr:
  assumes "short_code_inv db" and "row \<in> set (sc_attempts db)" and "at_attempt_id row = at_attempt_id row0"
    and "claim_snapshot (Some (stored_of c row0)) db = Inr (r, db')"
  obtains snapshot where "r = Inr snapshot" "db' = db" "short_code_snapshot (stored_of db row) = Inr snapshot"
  using assms(4) load_row [OF assms(1,2)] assms(3) that by (auto simp: claim_snapshot_def)

lemma RelayPrincipalId_eq_iff: "RelayPrincipalId b = who \<longleftrightarrow> b = principal_id_bytes who"
  by (cases who) simp

lemma decide_claim_identical:
  assumes "decide_short_code_claim who request (Some (stored_of c row)) now np nl = Inr ClaimIdentical"
  shows "at_claimant_principal_id row = Some (principal_id_bytes who)"
  using assms by (auto simp: decide_short_code_claim_def decide_first_claim_def Let_def split: if_splits)

lemma decide_claim_first:
  assumes "decide_short_code_claim who request (Some (stored_of c row)) now np nl = Inr ClaimFirst"
  shows "at_claimant_principal_id row = None" "at_cancelled row \<noteq> 1" "at_capability_take_id row = None"
    "principal_id_bytes who \<noteq> at_owner_principal_id row" "ap_version (publish_of row) = ac_version request"
    "np < 10" "nl < 5"
proof -
  have "at_claimant_principal_id row = None \<and> at_cancelled row \<noteq> 1 \<and> at_capability_take_id row = None \<and>
    RelayPrincipalId (at_owner_principal_id row) \<noteq> who \<and> ap_version (publish_of row) = ac_version request \<and> np < 10 \<and> nl < 5"
    using assms by (auto simp: decide_short_code_claim_def decide_first_claim_def capability_consumed_def
        short_code_limits Let_def split: if_splits)
  then show "at_claimant_principal_id row = None" "at_cancelled row \<noteq> 1" "at_capability_take_id row = None"
    "principal_id_bytes who \<noteq> at_owner_principal_id row" "ap_version (publish_of row) = ac_version request"
    "np < 10" "nl < 5"
    by (auto simp: RelayPrincipalId_eq_iff)
qed

lemma claim_attempt_cases:
  assumes inv: "short_code_inv db" and run: "claim_short_code_attempt who request now db = (r, db')"
  obtains (refused) e where "r = Inl e" "db' = db"
  | (counted) rates where "r = Inl ShortCodeAttemptUnavailable" "unat now < 2 ^ 63"
      "db' = (cleaned now db)\<lparr>sc_rates := rates\<rparr>" "rates_ok rates"
  | (identical) row snapshot where "r = Inr snapshot" "unat now < 2 ^ 63" "db' = cleaned now db"
      "row \<in> set (sc_attempts (cleaned now db))" "at_locator row = locator_bytes (ac_locator request)"
      "at_claimant_principal_id row = Some (principal_id_bytes who)"
      "short_code_snapshot (stored_of (cleaned now db) row) = Inr snapshot"
  | (claimed) row row' snapshot where "r = Inr snapshot" "unat now < 2 ^ 63"
      "row \<in> set (sc_attempts (cleaned now db))" "at_locator row = locator_bytes (ac_locator request)"
      "at_claimant_principal_id row = None" "at_cancelled row \<noteq> 1" "at_capability_take_id row = None"
      "principal_id_bytes who \<noteq> at_owner_principal_id row" "ap_version (publish_of row) = ac_version request"
      "short_code_inv db'" "db_le (cleaned now db) db'" "row' \<in> set (sc_attempts db')"
      "row' = row\<lparr>at_claimant_principal_id := Some (principal_id_bytes who)\<rparr>"
      "stored_of db' row' = (stored_of (cleaned now db) row)\<lparr>
         sa_messages := (stage_payloads (cleaned now db) (at_attempt_id row))(CredentialRequest \<mapsto> ac_payload request),
         sa_claimant := Some who\<rparr>"
      "short_code_snapshot (stored_of db' row') = Inr snapshot"
proof -
  from run have "transact (claim_attempt_transaction who request now) db = (r, db')"
    by (simp add: claim_short_code_attempt_def)
  then show ?thesis
  proof (cases rule: transact_cases)
    case refused': (refused e)
    then show ?thesis by (rule refused)
  next
    case committed
    then have now: "unat now < 2 ^ 63"
      by (simp add: claim_attempt_transaction_def short_code_cleanup_eq split: if_splits)
    define c where "c = cleaned now db"
    have inv': "short_code_inv c" unfolding c_def by (rule cleaned_inv [OF inv])
    have rates: "rates_ok (sc_rates c)" using inv' by (simp add: short_code_inv_def)
    let ?np = "nat (claims_by (principal_id_bytes who) (window_of now) (sc_rates c))"
    let ?nl = "nat (claims_on (locator_bytes (ac_locator request)) (window_of now) (sc_rates c))"
    note unf = committed [unfolded claim_attempt_transaction_def short_code_cleanup_eq, folded c_def,
        simplified now if_True and_then.simps claim_counts_eq [OF now rates] fst_conv snd_conv]
    have count: ?thesis
      if "record_short_code_claim who (ac_locator request) now c = Inr db'" "r = Inl ShortCodeAttemptUnavailable"
        "?np < 10" "?nl < 5"
      by (rule record_claim_Inr [OF now rates that(3,4,1)]) (rule counted [OF that(2) now, folded c_def])
    from inv' show ?thesis
    proof (cases rule: load_by_locator [of _ "ac_locator request"])
      case absent
      from unf [unfolded absent(2) and_then.simps] show ?thesis
        by (auto simp: decide_short_code_claim_def decide_first_claim_def short_code_limits split: if_splits intro: count)
    next
      case (present row)
      show ?thesis
      proof (cases "decide_short_code_claim who request (Some (stored_of c row)) now ?np ?nl")
        case (Inl e)
        with unf [unfolded present(3) and_then.simps] show ?thesis
          by (auto simp: short_code_limits split: if_splits intro: count)
      next
        case (Inr d)
        show ?thesis
        proof (cases d)
          case ClaimIdentical
          with Inr unf [unfolded present(3) and_then.simps] have fin: "claim_snapshot (Some (stored_of c row)) c = Inr (r, db')"
            by simp
          note who = decide_claim_identical [OF Inr [unfolded ClaimIdentical]]
          from inv' present(1) refl fin show ?thesis
          proof (rule claim_snapshot_Inr)
            fix snapshot
            assume "r = Inr snapshot" "db' = c" "short_code_snapshot (stored_of c row) = Inr snapshot"
            then show ?thesis
              using identical [of snapshot row] now present(1,2) who unfolding c_def by blast
          qed
        next
          case ClaimFirst
          note facts = decide_claim_first [OF Inr [unfolded ClaimFirst]]
          from Inr ClaimFirst unf [unfolded present(3) and_then.simps] obtain c1 c2 where
            rec: "record_short_code_claim who (ac_locator request) now c = Inr c1"
            and upd: "update_short_code_claim (ShortCodePairingAttemptId (at_attempt_id row)) who (ac_payload request) c1 = Inr c2"
            and fin: "claim_snapshot (Some (stored_of c row)) c2 = Inr (r, db')"
            by auto
          obtain rs where c1: "c1 = c\<lparr>sc_rates := rs\<rparr>" "rates_ok rs"
            by (rule record_claim_Inr [OF now rates facts(6,7) rec])
          have inv1: "short_code_inv c1" using inv' c1 by (rule short_code_inv_rates)
          have row1: "row \<in> set (sc_attempts c1)" using present(1) c1(1) by simp
          have same1: "stored_of c1 row = stored_of c row" "db_le c c1"
            "stage_payloads c1 (at_attempt_id row) = stage_payloads c (at_attempt_id row)"
            using c1(1) by (simp_all add: stored_of_def stage_payloads_def db_le_extend fun_eq_iff)
          note eff = update_claim_effect [OF inv1 row1 facts(1,3,4) upd]
          from eff(1,3) _ fin show ?thesis
          proof (rule claim_snapshot_Inr)
            fix snapshot
            assume "r = Inr snapshot" "db' = c2" "short_code_snapshot (stored_of c2 (row\<lparr>at_claimant_principal_id := Some (principal_id_bytes who)\<rparr>)) = Inr snapshot"
            then show ?thesis
              using claimed [of snapshot row "row\<lparr>at_claimant_principal_id := Some (principal_id_bytes who)\<rparr>"]
                now present(1,2) facts(1-5) eff(1,3) db_le_trans [OF same1(2) eff(2)] eff(4) [unfolded same1(1,3)]
              unfolding c_def by blast
          qed simp
        qed
      qed
    qed
  qed
qed

text \<open>Publishing a stage.\<close>

lemma stage_cases:
  assumes inv: "short_code_inv db" and run: "publish_short_code_message who request now db = (r, db')"
  obtains (refused) e where "r = Inl e" "db' = db"
  | (identical) row where "r = Inr StageAlreadyPublished" "unat now < 2 ^ 63" "db' = cleaned now db"
      "row \<in> set (sc_attempts (cleaned now db))" "at_attempt_id row = attempt_id_bytes (am_attempt_id request)"
      "decide_short_code_message who request (stored_of (cleaned now db) row) now = Inr MessageIdentical"
  | (stored) row where "r = Inr StagePublished" "unat now < 2 ^ 63"
      "row \<in> set (sc_attempts (cleaned now db))" "at_attempt_id row = attempt_id_bytes (am_attempt_id request)"
      "decide_short_code_message who request (stored_of (cleaned now db) row) now = Inr MessageInsert"
      "short_code_inv db'" "db_le (cleaned now db) db'" "row \<in> set (sc_attempts db')"
      "stored_of db' row = (stored_of (cleaned now db) row)\<lparr>
         sa_messages := (stage_payloads (cleaned now db) (at_attempt_id row))(am_stage request \<mapsto> am_payload request)\<rparr>"
  using run unfolding publish_short_code_message_def
proof (cases rule: transact_cases)
  case (committed)
  from inv committed show ?thesis
  proof (cases rule: with_attempt_Inr)
    case (1 row)
    define c where "c = cleaned now db"
    have inv': "short_code_inv c" unfolding c_def by (rule cleaned_inv [OF inv])
    note row = 1(2) [folded c_def] and id = 1(3)
    from 1(4) obtain decision where d: "decide_short_code_message who request (stored_of c row) now = Inr decision"
      and rest: "(case decision of MessageIdentical \<Rightarrow> Inr (Inr StageAlreadyPublished, c)
        | MessageInsert \<Rightarrow> and_then (insert_short_code_message request c) (\<lambda>db. Inr (Inr StagePublished, db))) = Inr (r, db')"
      unfolding c_def by auto
    show ?thesis
    proof (cases decision)
      case MessageIdentical
      with rest d 1 show ?thesis unfolding c_def by (intro identical) simp_all
    next
      case MessageInsert
      let ?m = "\<lparr>st_attempt_id = at_attempt_id row, st_stage = short_code_stage_to_sql (am_stage request),
                 st_payload = am_payload request\<rparr>"
      from rest MessageInsert id have ins: "insert_stage_row ''short-code message insert'' ?m c = Inr db'"
        and r: "r = Inr StagePublished"
        by (auto simp: insert_short_code_message_def)
      note ins' = insert_stage_row_Inr [OF ins]
      have stages': "sc_stages db' = sc_stages c @ [?m]" and attempts': "sc_attempts db' = sc_attempts c"
        and rates': "sc_rates db' = sc_rates c"
        using ins'(4) by simp_all
      have payloads: "stage_payloads db' aid = (if aid = at_attempt_id row
          then (stage_payloads c aid)(am_stage request \<mapsto> am_payload request) else stage_payloads c aid)" for aid
        using stage_payloads_insert [OF ins'(3) _ stages', of "am_stage request" aid] by simp
      have old: "attempt_ok c row" using inv' row by (simp add: short_code_inv_def)
      from d MessageInsert have new: "stage_payloads c (at_attempt_id row) (am_stage request) = None"
        "am_stage request \<noteq> CredentialRequest" "stage_needs (am_stage request) \<subseteq> dom (stage_payloads c (at_attempt_id row))"
        by (auto simp: decide_short_code_message_def stage_dependencies_satisfied_iff split: if_splits option.splits)
      have le: "row_le c row db' row"
        using new(1) by (auto simp: row_le_def payloads map_le_def)
      have ok: "attempt_ok db' row"
        using old new(2,3) by (auto simp: attempt_ok_def payloads stages_closed_def)
      have stages: "stages_ok db'"
        by (rule stages_ok_insert [OF _ ins'(1-3) stages']) (use inv' attempts' in \<open>simp_all add: short_code_inv_def\<close>)
      have same: "sc_attempts db' = map (\<lambda>r. if at_attempt_id r = at_attempt_id row then id r else r) (sc_attempts c)"
        unfolding attempts' by (rule sym, rule map_idI) simp
      have "short_code_inv db'"
        by (rule inv_modify [OF inv' row same])
          (use inv' stages ok rates' in \<open>simp_all add: short_code_inv_def payloads\<close>)
      moreover have "db_le c db'"
        by (rule db_le_modify [OF inv' row same]) (use le in \<open>simp_all add: payloads\<close>)
      moreover have "stored_of db' row = (stored_of c row)\<lparr>
         sa_messages := (stage_payloads c (at_attempt_id row))(am_stage request \<mapsto> am_payload request)\<rparr>"
        by (simp add: stored_of_def payloads)
      ultimately show ?thesis
        using stored r 1(1-3) d MessageInsert attempts' row unfolding c_def by simp
    qed
  qed
qed (rule refused)

text \<open>Reading an attempt.\<close>

lemma read_cases:
  assumes inv: "short_code_inv db" and run: "read_short_code_attempt who request now db = (r, db')"
  obtains (refused) e where "r = Inl e" "db' = db"
  | (answered) row snapshot where "r = Inr snapshot" "unat now < 2 ^ 63" "db' = cleaned now db"
      "row \<in> set (sc_attempts (cleaned now db))" "at_attempt_id row = attempt_id_bytes (ar_attempt_id request)"
      "authorize_short_code_read who request (stored_of (cleaned now db) row) now = Inr ()"
      "short_code_snapshot (stored_of (cleaned now db) row) = Inr snapshot"
  using run unfolding read_short_code_attempt_def
proof (cases rule: transact_cases)
  case committed
  from inv committed show ?thesis
    by (rule with_attempt_Inr) (auto intro: answered)
qed (rule refused)

text \<open>A change of flags of one row that leaves its keys and stages alone.\<close>

lemma flag_update_effect:
  assumes inv: "short_code_inv db" and row: "row \<in> set (sc_attempts db)"
    and db': "db' = db\<lparr>sc_attempts := map (\<lambda>r. if at_attempt_id r = at_attempt_id row then f r else r) (sc_attempts db)\<rparr>"
    and le: "row_le db row db (f row)" and cancelled: "at_cancelled (f row) = 0 \<Longrightarrow> at_cancelled row = 0"
    and ok: "attempt_ok db (f row)"
  shows "short_code_inv db'" and "db_le db db'" and "f row \<in> set (sc_attempts db')"
    and "stored_of db' (f row) = stored_of db (f row)"
proof -
  have attempts': "sc_attempts db' = map (\<lambda>r. if at_attempt_id r = at_attempt_id row then f r else r) (sc_attempts db)"
    and stages': "sc_stages db' = sc_stages db" and rates': "sc_rates db' = sc_rates db"
    using db' by simp_all
  have payloads: "stage_payloads db' = stage_payloads db" using stages' by (simp add: stage_payloads_def fun_eq_iff)
  have keys: "at_locator (f row) = at_locator row" "at_attempt_id (f row) = at_attempt_id row"
    "at_owner_principal_id (f row) = at_owner_principal_id row"
    using le by (simp_all add: row_le_def)
  have "at_attempt_id ` set (sc_attempts db') = at_attempt_id ` set (sc_attempts db)"
    unfolding attempts' set_map image_image
    by (intro image_cong) (use keys(2) same_attempt [OF inv _ row] in auto)
  then have stages: "stages_ok db'"
    using inv by (simp add: stages_ok_def short_code_inv_def stages')
  have le': "row_le db row db' (f row)" using le by (simp add: row_le_def payloads)
  have ok': "attempt_ok db' (f row)" using ok attempt_ok_cong [of db' "f row" db] payloads by simp
  show "short_code_inv db'"
    by (rule inv_modify [OF inv row attempts'])
      (use keys cancelled stages ok' inv rates' payloads in \<open>simp_all add: short_code_inv_def\<close>)
  show "db_le db db'"
    by (rule db_le_modify [OF inv row attempts' le']) (simp add: payloads)
  show "f row \<in> set (sc_attempts db')" using row unfolding attempts' by auto
  show "stored_of db' (f row) = stored_of db (f row)" by (simp add: stored_of_def payloads)
qed

text \<open>Cancelling an attempt.\<close>

lemma cancel_cases:
  assumes inv: "short_code_inv db" and run: "cancel_short_code_attempt who request now db = (r, db')"
  obtains (refused) e where "r = Inl e" "db' = db"
  | (cancelled) row where "r = Inr ()" "unat now < 2 ^ 63"
      "row \<in> set (sc_attempts (cleaned now db))" "at_attempt_id row = attempt_id_bytes (ar_attempt_id request)"
      "authorize_short_code_cancel who request (stored_of (cleaned now db) row) = Inr ()"
      "short_code_inv db'" "db_le (cleaned now db) db'" "row\<lparr>at_cancelled := 1\<rparr> \<in> set (sc_attempts db')"
      "stored_of db' (row\<lparr>at_cancelled := 1\<rparr>) = cancel (stored_of (cleaned now db) row)"
  using run unfolding cancel_short_code_attempt_def
proof (cases rule: transact_cases)
  case committed
  from inv committed show ?thesis
  proof (cases rule: with_attempt_Inr)
    case (1 row)
    define c where "c = cleaned now db"
    have inv': "short_code_inv c" unfolding c_def by (rule cleaned_inv [OF inv])
    note row = 1(2) [folded c_def]
    let ?up = "update_attempts (\<lambda>r. at_attempt_id r = at_attempt_id row) (\<lambda>r. r\<lparr>at_cancelled := 1\<rparr>) c"
    have body: "and_then (authorize_short_code_cancel who request (stored_of c row)) (\<lambda>_.
        and_then (ok_or (StorageFailure ''short-code cancellation'') ?up) (\<lambda>(_, db). Inr (Inr (), db))) = Inr (r, db')"
      using 1(4) [folded 1(3) c_def] .
    then have auth: "authorize_short_code_cancel who request (stored_of c row) = Inr ()"
      by (cases "authorize_short_code_cancel who request (stored_of c row)") simp_all
    obtain n where up: "?up = Some (n, db')" and r: "r = Inr ()"
      using body unfolding auth by (cases ?up) auto
    note up' = update_attempts_Some [OF inv' row _ _ up, where Q = "\<lambda>_. True", simplified]
    have old: "attempt_ok c row" using inv' row by (simp add: short_code_inv_def)
    have ok: "attempt_ok c (row\<lparr>at_cancelled := 1\<rparr>)"
      using old up'(2) by (simp add: attempt_ok_def)
    have le: "row_le c row c (row\<lparr>at_cancelled := 1\<rparr>)" by (simp add: row_le_def)
    have eff: "short_code_inv db'" "db_le c db'" "row\<lparr>at_cancelled := 1\<rparr> \<in> set (sc_attempts db')"
      "stored_of db' (row\<lparr>at_cancelled := 1\<rparr>) = stored_of c (row\<lparr>at_cancelled := 1\<rparr>)"
      by (rule flag_update_effect [OF inv' row up'(3) le _ ok]; simp)+
    have "stored_of db' (row\<lparr>at_cancelled := 1\<rparr>) = cancel (stored_of c row)"
      unfolding eff(4) by (simp add: stored_of_def cancel_def publish_of_def)
    with eff(1-3) show ?thesis
      using cancelled r 1(1-3) auth unfolding c_def by blast
  qed
qed (rule refused)

text \<open>Taking the capability.\<close>

lemma capability_cases:
  assumes inv: "short_code_inv db" and run: "take_short_code_capability who request now db = (r, db')"
  obtains (refused) e where "r = Inl e" "db' = db"
  | (identical) row payload where "r = Inr payload" "unat now < 2 ^ 63" "db' = cleaned now db"
      "row \<in> set (sc_attempts (cleaned now db))" "at_attempt_id row = attempt_id_bytes (ct_attempt_id request)"
      "decide_short_code_capability_take who request (stored_of (cleaned now db) row) now = Inr CapabilityIdentical"
      "stage_payloads (cleaned now db) (at_attempt_id row) Capability = Some payload"
  | (consumed) row row' payload where "r = Inr payload" "unat now < 2 ^ 63"
      "row \<in> set (sc_attempts (cleaned now db))" "at_attempt_id row = attempt_id_bytes (ct_attempt_id request)"
      "decide_short_code_capability_take who request (stored_of (cleaned now db) row) now = Inr CapabilityConsume"
      "stage_payloads (cleaned now db) (at_attempt_id row) Capability = Some payload"
      "row' = row\<lparr>at_capability_consumed := 1, at_capability_take_id := Some (take_id_bytes (ct_take_id request))\<rparr>"
      "short_code_inv db'" "db_le (cleaned now db) db'" "row' \<in> set (sc_attempts db')"
      "stored_of db' row' = consume_capability (ct_take_id request) (stored_of (cleaned now db) row)"
  using run unfolding take_short_code_capability_def
proof (cases rule: transact_cases)
  case committed
  from inv committed show ?thesis
  proof (cases rule: with_attempt_Inr)
    case (1 row)
    define c where "c = cleaned now db"
    have inv': "short_code_inv c" unfolding c_def by (rule cleaned_inv [OF inv])
    note row = 1(2) [folded c_def]
    let ?C = "\<lambda>r. at_attempt_id r = at_attempt_id row \<and> at_capability_consumed r = 0 \<and> at_capability_take_id r = None"
    let ?f = "\<lambda>r. r\<lparr>at_capability_consumed := 1, at_capability_take_id := Some (take_id_bytes (ct_take_id request))\<rparr>"
    from 1(4) [folded 1(3)] obtain decision payload where
      d: "decide_short_code_capability_take who request (stored_of c row) now = Inr decision"
      and p: "stage_payloads c (at_attempt_id row) Capability = Some payload"
      and rest: "(case decision of CapabilityIdentical \<Rightarrow> Inr (Inr payload, c)
        | CapabilityConsume \<Rightarrow> and_then (ok_or (StorageFailure ''short-code capability consumption'')
             (update_attempts ?C ?f c)) (\<lambda>(updated, db).
           if updated \<noteq> 1 then Inl (StorageFailure ''short-code capability outcome'')
           else Inr (Inr payload, db))) = Inr (r, db')"
      unfolding c_def by auto
    show ?thesis
    proof (cases decision)
      case CapabilityIdentical
      with rest have "r = Inr payload" "db' = c" by simp_all
      then show ?thesis
        using identical [of payload row] 1(1-3) d CapabilityIdentical p unfolding c_def by blast
    next
      case CapabilityConsume
      with rest obtain n where up: "update_attempts ?C ?f c = Some (n, db')" and r: "r = Inr payload"
        by (auto split: if_splits)
      have old: "attempt_ok c row" using inv' row by (simp add: short_code_inv_def)
      from d CapabilityConsume have "at_capability_take_id row = None"
        by (auto simp: decide_short_code_capability_take_def split: if_splits option.splits)
      moreover from this old have "at_capability_consumed row = 0"
        by (auto simp: attempt_ok_def attempt_row_check_def)
      ultimately have free: "at_capability_consumed row = 0 \<and> at_capability_take_id row = None" by simp
      note up' = update_attempts_Some [where Q = "\<lambda>r. at_capability_consumed r = 0 \<and> at_capability_take_id r = None", OF inv' row refl free up]
      have ok: "attempt_ok c (?f row)"
        using old up'(2) p by (auto simp: attempt_ok_def)
      have le: "row_le c row c (?f row)" using free by (simp add: row_le_def)
      have eff: "short_code_inv db'" "db_le c db'" "?f row \<in> set (sc_attempts db')"
        "stored_of db' (?f row) = stored_of c (?f row)"
        by (rule flag_update_effect [OF inv' row up'(3) le _ ok]; simp)+
      have "stored_of db' (?f row) = consume_capability (ct_take_id request) (stored_of c row)"
        unfolding eff(4) by (simp add: stored_of_def consume_capability_def publish_of_def)
      with eff(1-3) show ?thesis
        using consumed [of payload row "?f row"] r 1(1-3) d CapabilityConsume p unfolding c_def by blast
    qed
  qed
qed (rule refused)

section \<open>Histories\<close>

datatype short_code_op =
    Publish_attempt relay_principal_id attempt_publish_request u64
  | Claim_attempt relay_principal_id attempt_claim_request u64
  | Publish_stage relay_principal_id attempt_message_request u64
  | Read_attempt relay_principal_id attempt_read_request u64
  | Cancel_attempt relay_principal_id attempt_read_request u64
  | Take_capability relay_principal_id capability_take_request u64

datatype short_code_reply =
    Attempt_reply attempt_publish_outcome
  | Snapshot_reply attempt_snapshot
  | Stage_reply attempt_message_outcome
  | Cancel_reply
  | Capability_reply bytes

fun short_code_step :: "short_code_op \<Rightarrow> short_code_db \<Rightarrow> (relay_error + short_code_reply) \<times> short_code_db" where
  "short_code_step (Publish_attempt who request now) db =
     apfst (map_sum id Attempt_reply) (publish_short_code_attempt who request now db)"
| "short_code_step (Claim_attempt who request now) db =
     apfst (map_sum id Snapshot_reply) (claim_short_code_attempt who request now db)"
| "short_code_step (Publish_stage who request now) db =
     apfst (map_sum id Stage_reply) (publish_short_code_message who request now db)"
| "short_code_step (Read_attempt who request now) db =
     apfst (map_sum id Snapshot_reply) (read_short_code_attempt who request now db)"
| "short_code_step (Cancel_attempt who request now) db =
     apfst (map_sum id (\<lambda>_. Cancel_reply)) (cancel_short_code_attempt who request now db)"
| "short_code_step (Take_capability who request now) db =
     apfst (map_sum id Capability_reply) (take_short_code_capability who request now db)"

fun short_code_clock :: "short_code_op \<Rightarrow> u64" where
  "short_code_clock (Publish_attempt _ _ now) = now"
| "short_code_clock (Claim_attempt _ _ now) = now"
| "short_code_clock (Publish_stage _ _ now) = now"
| "short_code_clock (Read_attempt _ _ now) = now"
| "short_code_clock (Cancel_attempt _ _ now) = now"
| "short_code_clock (Take_capability _ _ now) = now"

lemma short_code_step_effect:
  fixes op
  assumes inv: "short_code_inv db"
  defines "db' \<equiv> snd (short_code_step op db)"
  shows "short_code_inv db' \<and> (db' = db \<or> db_le (cleaned (short_code_clock op) db) db')"
proof (cases op)
  case (Publish_attempt who request now)
  obtain r d where run: "publish_short_code_attempt who request now db = (r, d)" by fastforce
  then have eq: "db' = d" by (simp add: db'_def Publish_attempt)
  from inv run show ?thesis
    by (cases rule: publish_attempt_cases)
      (use inv eq in \<open>auto simp: Publish_attempt cleaned_inv intro: db_le_extend\<close>)
next
  case (Claim_attempt who request now)
  obtain r d where run: "claim_short_code_attempt who request now db = (r, d)" by fastforce
  then have eq: "db' = d" by (simp add: db'_def Claim_attempt)
  from inv run show ?thesis
    by (cases rule: claim_attempt_cases)
      (use inv eq in \<open>auto simp: Claim_attempt cleaned_inv intro: db_le_extend short_code_inv_rates [OF cleaned_inv]\<close>)
next
  case (Publish_stage who request now)
  obtain r d where run: "publish_short_code_message who request now db = (r, d)" by fastforce
  then have eq: "db' = d" by (simp add: db'_def Publish_stage)
  from inv run show ?thesis
    by (cases rule: stage_cases)
      (use inv eq in \<open>auto simp: Publish_stage cleaned_inv\<close>)
next
  case (Read_attempt who request now)
  obtain r d where run: "read_short_code_attempt who request now db = (r, d)" by fastforce
  then have eq: "db' = d" by (simp add: db'_def Read_attempt)
  from inv run show ?thesis
    by (cases rule: read_cases)
      (use inv eq in \<open>auto simp: Read_attempt cleaned_inv\<close>)
next
  case (Cancel_attempt who request now)
  obtain r d where run: "cancel_short_code_attempt who request now db = (r, d)" by fastforce
  then have eq: "db' = d" by (simp add: db'_def Cancel_attempt)
  from inv run show ?thesis
    by (cases rule: cancel_cases)
      (use inv eq in \<open>auto simp: Cancel_attempt\<close>)
next
  case (Take_capability who request now)
  obtain r d where run: "take_short_code_capability who request now db = (r, d)" by fastforce
  then have eq: "db' = d" by (simp add: db'_def Take_capability)
  from inv run show ?thesis
    by (cases rule: capability_cases)
      (use inv eq in \<open>auto simp: Take_capability cleaned_inv\<close>)
qed

interpretation relay_short_code: durable_store short_code_step short_code_inv
  by unfold_locales (use short_code_step_effect in blast)

text \<open>Operations whose clocks are before an attempt's deadline keep the attempt.\<close>

lemma step_keeps_attempt:
  assumes inv: "short_code_inv db" and r: "r \<in> set (sc_attempts db)"
    and clock: "int (unat (short_code_clock op)) < at_deadline_unix_seconds r"
  obtains r' where "r' \<in> set (sc_attempts (snd (short_code_step op db)))" "row_le db r (snd (short_code_step op db)) r'"
proof -
  let ?c = "cleaned (short_code_clock op) db"
  note kept = cleaned_keeps [OF inv r clock]
  from short_code_step_effect [OF inv, of op] consider
    "snd (short_code_step op db) = db" | "db_le ?c (snd (short_code_step op db))" by blast
  then show thesis
  proof cases
    case 1
    with r that [of r] show ?thesis by simp
  next
    case 2
    then obtain r' where "r' \<in> set (sc_attempts (snd (short_code_step op db)))" "row_le ?c r (snd (short_code_step op db)) r'"
      using kept(1) by (auto simp: db_le_def)
    with row_le_trans [OF kept(2)] that show ?thesis by blast
  qed
qed

lemma run_keeps_attempt:
  assumes "short_code_inv db" and "r \<in> set (sc_attempts db)"
    and "\<forall>op \<in> set ops. int (unat (short_code_clock op)) < at_deadline_unix_seconds r"
  shows "\<exists>r' \<in> set (sc_attempts (run_ops short_code_step ops db)). row_le db r (run_ops short_code_step ops db) r'"
  using assms
proof (induction ops arbitrary: db r)
  case Nil
  then show ?case by (intro bexI [of _ r]) simp_all
next
  case (Cons op ops)
  let ?d = "snd (short_code_step op db)"
  obtain r' where r': "r' \<in> set (sc_attempts ?d)" "row_le db r ?d r'"
    using step_keeps_attempt [OF Cons.prems(1,2), of op] Cons.prems(3) by auto
  have "short_code_inv ?d" using short_code_step_effect [OF Cons.prems(1)] by blast
  moreover have "\<forall>op \<in> set ops. int (unat (short_code_clock op)) < at_deadline_unix_seconds r'"
    using Cons.prems(3) r'(2) by (simp add: row_le_def)
  ultimately obtain r'' where "r'' \<in> set (sc_attempts (run_ops short_code_step ops ?d))"
    "row_le ?d r' (run_ops short_code_step ops ?d) r''"
    using Cons.IH r'(1) by blast
  with row_le_trans [OF r'(2)] show ?case by auto
qed

end
