(* ===== verification/Relay_Short_Code_Props.thy ===== *)
theory Relay_Short_Code_Props
  imports Relay_Short_Code_Inv
begin

text \<open>
  What the relay guarantees about short-code pairing, over every history of its six
  operations: the capacity and claim limits, one claimant per attempt, stages in order and
  from the right participant, the release of the capability to the claimant alone after
  both confirmations, one take identifier per capability, and the finality of cancellation.
\<close>

section \<open>Loading and evolution of an attempt\<close>

lemma load_stored:
  assumes "short_code_inv db"
  shows "load_short_code_attempt db None (Some a) = Inr (Some x) \<longleftrightarrow>
    (\<exists>r \<in> set (sc_attempts db). at_attempt_id r = attempt_id_bytes a \<and> x = stored_of db r)"
proof
  assume "load_short_code_attempt db None (Some a) = Inr (Some x)"
  with assms show "\<exists>r \<in> set (sc_attempts db). at_attempt_id r = attempt_id_bytes a \<and> x = stored_of db r"
    by (cases rule: load_by_id [of db a]) auto
next
  assume "\<exists>r \<in> set (sc_attempts db). at_attempt_id r = attempt_id_bytes a \<and> x = stored_of db r"
  then obtain r where r: "r \<in> set (sc_attempts db)" "at_attempt_id r = attempt_id_bytes a" "x = stored_of db r" by blast
  then show "load_short_code_attempt db None (Some a) = Inr (Some x)"
    using load_row [OF assms r(1)] by simp
qed

lemma load_stored_row:
  assumes "short_code_inv db" and "r \<in> set (sc_attempts db)" and "at_attempt_id r = attempt_id_bytes a"
  shows "load_short_code_attempt db None (Some a) = Inr (Some (stored_of db r))"
  using load_row [OF assms(1,2)] assms(3) by simp

lemma deadline_of:
  assumes "short_code_inv db" and "r \<in> set (sc_attempts db)"
  shows "int (unat (ap_deadline_unix_seconds (publish_of r))) = at_deadline_unix_seconds r"
proof -
  have "1 \<le> at_deadline_unix_seconds r" "at_deadline_unix_seconds r < 2 ^ 63"
    using assms by (auto simp: short_code_inv_def attempt_ok_def attempt_row_check_def)
  then show ?thesis using unat_of_sql [of "at_deadline_unix_seconds r"] by simp
qed

lemma clock_before_deadline:
  assumes "short_code_inv db" and "r \<in> set (sc_attempts db)"
  shows "now < ap_deadline_unix_seconds (publish_of r) \<longleftrightarrow> int (unat now) < at_deadline_unix_seconds r"
  unfolding deadline_of [OF assms, symmetric] by (simp add: word_less_def)

lemma cleaned_row:
  assumes "short_code_inv db" and "r \<in> set (sc_attempts (cleaned now db))"
  shows "r \<in> set (sc_attempts db)" and "stored_of (cleaned now db) r = stored_of db r"
    and "now < ap_deadline_unix_seconds (publish_of r)"
proof -
  have r: "r \<in> set (sc_attempts db)" "int (unat now) < at_deadline_unix_seconds r"
    using assms(2) by (simp_all add: cleaned_attempts)
  show "r \<in> set (sc_attempts db)" by (rule r(1))
  show "stored_of (cleaned now db) r = stored_of db r"
    by (simp add: stored_of_def cleaned_payloads [OF assms])
  show "now < ap_deadline_unix_seconds (publish_of r)"
    using clock_before_deadline [OF assms(1) r(1)] r(2) by simp
qed

lemma publish_of_row_le: "row_le db r db' r' \<Longrightarrow> publish_of r' = publish_of r"
  by (simp add: row_le_def publish_of_def)

text \<open>A row that a later state still has under the same identifier is the one it became.\<close>

lemma later_row:
  assumes inv: "short_code_inv db" and r: "r \<in> set (sc_attempts db)"
    and clocks: "\<forall>op \<in> set ops. short_code_clock op < ap_deadline_unix_seconds (publish_of r)"
    and q: "q \<in> set (sc_attempts (run_ops short_code_step ops db))" "at_attempt_id q = at_attempt_id r"
  shows "row_le db r (run_ops short_code_step ops db) q"
proof -
  have "\<forall>op \<in> set ops. int (unat (short_code_clock op)) < at_deadline_unix_seconds r"
    using clocks clock_before_deadline [OF inv r] by simp
  from run_keeps_attempt [OF inv r this] obtain r' where
    r': "r' \<in> set (sc_attempts (run_ops short_code_step ops db))" "row_le db r (run_ops short_code_step ops db) r'"
    by blast
  have "r' = q"
    by (rule same_attempt [OF relay_short_code.run_invar [OF inv] r'(1) q(1)]) (use r'(2) q(2) in \<open>simp add: row_le_def\<close>)
  with r'(2) show ?thesis by simp
qed

section \<open>Capacity and rate limits\<close>

text \<open>
  C30: Whatever the history and whatever the clocks, the relay never holds more than 1,000
  attempts that are not cancelled, nor more than 8 of one creator, and in no claim window
  does it count more than 10 claims of one principal or more than 5 on one locator.
\<close>
theorem short_code_bounded:
  fixes ops
  defines "db \<equiv> run_ops short_code_step ops empty_short_code_db"
  shows "length (active_rows (sc_attempts db)) \<le> 1000 \<and>
    (\<forall>owner. length (filter (\<lambda>r. at_owner_principal_id r = owner) (active_rows (sc_attempts db))) \<le> 8) \<and>
    (\<forall>p w. claims_by p w (sc_rates db) \<le> 10) \<and> (\<forall>l w. claims_on l w (sc_rates db) \<le> 5)"
  using relay_short_code.run_invar [OF short_code_inv_empty, of ops]
  unfolding db_def short_code_inv_def capacity_ok_def rates_ok_def by blast

text \<open>
  A claim is never refused by the constraint on the stored counter: whenever the relay
  decides to count a claim, below both limits, the counting statement succeeds.
\<close>
lemma claim_count_never_fails:
  fixes ops
  defines "db \<equiv> run_ops short_code_step ops empty_short_code_db"
  assumes "unat now < 2 ^ 63" and "length (locator_bytes l) = 32" and "length (principal_id_bytes who) = 32"
    and "short_code_claim_counts db who l now = Inr (np, nl)"
    and "np < MAX_SHORT_CODE_CLAIMS_PER_PRINCIPAL_WINDOW" and "nl < MAX_SHORT_CODE_CLAIMS_PER_LOCATOR_WINDOW"
  shows "\<exists>db'. record_short_code_claim who l now db = Inr db' \<and>
    short_code_claim_counts db' who l now = Inr (np + 1, nl + 1)"
proof -
  have inv: "short_code_inv db" unfolding db_def by (rule relay_short_code.run_invar [OF short_code_inv_empty])
  then have rates: "rates_ok (sc_rates db)" by (simp add: short_code_inv_def)
  note counts = claim_counts_eq [OF assms(2) rates, of who l]
  let ?row = "\<lparr>cr_locator = locator_bytes l, cr_principal_id = principal_id_bytes who,
                cr_window_start = window_of now, cr_attempts = 1\<rparr>"
  have np: "np = nat (claims_by (principal_id_bytes who) (window_of now) (sc_rates db))"
    and nl: "nl = nat (claims_on (locator_bytes l) (window_of now) (sc_rates db))"
    using assms(5) counts by simp_all
  have "0 \<le> window_of now" unfolding window_of_def by (rule of_nat_0_le_iff)
  then have "claim_rate_row_check ?row" using assms(3,4) by (simp add: claim_rate_row_check_def)
  moreover have "claims_on (cr_locator ?row) (cr_window_start ?row) (sc_rates db) < 5"
    using assms(7) nl by (simp add: short_code_limits)
  moreover have "\<forall>r \<in> set (sc_rates db). claim_rate_row_check r" using rates by (simp add: rates_ok_def)
  ultimately obtain rates' where up: "upsert_rate ?row (sc_rates db) = Some rates'"
    using upsert_rate_succeeds by blast
  let ?db = "db\<lparr>sc_rates := rates'\<rparr>"
  have "rates_ok rates'"
    by (rule rates_ok_upsert [OF rates up]) (use assms(6,7) np nl in \<open>simp_all add: short_code_limits\<close>)
  then have "short_code_claim_counts ?db who l now =
      Inr (nat (claims_by (principal_id_bytes who) (window_of now) rates'), nat (claims_on (locator_bytes l) (window_of now) rates'))"
    using claim_counts_eq [OF assms(2), of ?db who l] by simp
  also have "\<dots> = Inr (np + 1, nl + 1)"
  proof -
    have check: "\<forall>r \<in> set (filter (\<lambda>r. cr_window_start r = window_of now) (sc_rates db)). claim_rate_row_check r"
      using rates by (simp add: rates_ok_def)
    note nonneg = sum_attempts_nonneg [OF check]
    show ?thesis
      using nonneg unfolding np nl claims_by_upsert [OF up, simplified] claims_on_upsert [OF up, simplified]
      by (simp add: claims_by_def claims_on_def nat_add_distrib)
  qed
  moreover have "record_short_code_claim who l now db = Inr ?db"
    unfolding record_short_code_claim_def short_code_claim_window_eq [OF assms(2)] Let_def
    using up by simp
  ultimately show ?thesis by auto
qed

section \<open>Refinement of the pure attempt\<close>

lemma snapshot_fields:
  assumes "short_code_snapshot a = Inr snapshot"
  shows "as_version snapshot = ap_version (sa_publish a)" "as_attempt_id snapshot = ap_attempt_id (sa_publish a)"
    "as_deadline_unix_seconds snapshot = ap_deadline_unix_seconds (sa_publish a)"
    "as_cancelled snapshot = sa_cancelled a"
  using assms by (auto simp: short_code_snapshot_def ShortCodeAttemptSnapshot_new_def Let_def split: if_splits)

lemma ShortCodePairingLocator_eq_iff: "ShortCodePairingLocator b = l \<longleftrightarrow> b = locator_bytes l"
  by (cases l) simp

lemma ShortCodePairingAttemptId_eq_iff: "ShortCodePairingAttemptId b = a \<longleftrightarrow> b = attempt_id_bytes a"
  by (cases a) simp

lemma claim_refines:
  assumes inv: "short_code_inv db" and run: "claim_short_code_attempt who request now db = (Inr snapshot, db')"
  shows "\<exists>a a'. load_short_code_attempt db None (Some (as_attempt_id snapshot)) = Inr (Some a) \<and>
    load_short_code_attempt db' None (Some (as_attempt_id snapshot)) = Inr (Some a') \<and>
    ap_locator (sa_publish a) = ac_locator request \<and> sa_claimant a' = Some who \<and>
    (a' = a \<or> set_claim who (ac_payload request) a = Inr a')"
  using inv run
proof (cases rule: claim_attempt_cases)
  case (identical row s)
  note row = cleaned_row [OF inv identical(4)]
  note inv' = cleaned_inv [OF inv, of now]
  have id: "as_attempt_id snapshot = ShortCodePairingAttemptId (at_attempt_id row)"
    using snapshot_fields(2) [OF identical(7)] identical(1) by simp
  have "load_short_code_attempt db None (Some (as_attempt_id snapshot)) = Inr (Some (stored_of db row))"
    "load_short_code_attempt db' None (Some (as_attempt_id snapshot)) = Inr (Some (stored_of db row))"
    unfolding id identical(3) load_row [OF inv row(1)] load_row [OF inv' identical(4)] by (simp_all add: row(2))
  moreover have "ap_locator (sa_publish (stored_of db row)) = ac_locator request"
    using identical(5) by (simp add: ShortCodePairingLocator_eq_iff)
  moreover have "sa_claimant (stored_of db row) = Some who"
    using identical(6) by (simp add: RelayPrincipalId_eq_iff)
  ultimately show ?thesis by blast
next
  case (claimed row row' s)
  note row = cleaned_row [OF inv claimed(3)]
  have ok: "attempt_ok db row" using inv row(1) by (simp add: short_code_inv_def)
  have same: "stage_payloads (cleaned now db) (at_attempt_id row) = stage_payloads db (at_attempt_id row)"
    by (rule cleaned_payloads [OF inv claimed(3)])
  have ids: "at_attempt_id row' = at_attempt_id row" using claimed(13) by simp
  have id: "as_attempt_id snapshot = ShortCodePairingAttemptId (at_attempt_id row)"
    using snapshot_fields(2) [OF claimed(15)] claimed(1) ids by simp
  have "load_short_code_attempt db None (Some (as_attempt_id snapshot)) = Inr (Some (stored_of db row))"
    unfolding id by (rule load_row [OF inv row(1)])
  moreover have "load_short_code_attempt db' None (Some (as_attempt_id snapshot)) = Inr (Some (stored_of db' row'))"
    using load_row [OF claimed(10,12)] unfolding id ids .
  moreover have "set_claim who (ac_payload request) (stored_of db row) = Inr (stored_of db' row')"
    unfolding claimed(14) row(2) same
    using claimed(5) ok by (simp add: set_claim_def attempt_ok_def domIff)
  moreover have "ap_locator (sa_publish (stored_of db row)) = ac_locator request"
    using claimed(4) by (simp add: ShortCodePairingLocator_eq_iff)
  moreover have "sa_claimant (stored_of db' row') = Some who" unfolding claimed(14) by simp
  ultimately show ?thesis by blast
qed simp_all

lemma decide_message_identical:
  assumes "decide_short_code_message who request a now = Inr MessageIdentical"
  shows "sa_messages a (am_stage request) = Some (am_payload request)" "\<not> sa_cancelled a"
    "stage_owner a (am_stage request) = who"
  using assms by (simp_all add: decide_short_code_message_def split: if_splits option.splits)

lemma decide_message_insert:
  assumes "decide_short_code_message who request a now = Inr MessageInsert"
  shows "sa_messages a (am_stage request) = None" "\<not> sa_cancelled a"
    "stage_owner a (am_stage request) = who" "stage_dependencies_satisfied a (am_stage request)"
  using assms by (simp_all add: decide_short_code_message_def split: if_splits option.splits)

lemma stage_refines:
  assumes inv: "short_code_inv db" and run: "publish_short_code_message who request now db = (Inr outcome, db')"
  obtains a a' where "load_short_code_attempt db None (Some (am_attempt_id request)) = Inr (Some a)"
    "load_short_code_attempt db' None (Some (am_attempt_id request)) = Inr (Some a')"
    "if outcome = StagePublished then insert_message (am_stage request) (am_payload request) a = Inr a' else a' = a"
    "\<not> sa_cancelled a" "now < ap_deadline_unix_seconds (sa_publish a)" "stage_owner a (am_stage request) = who"
    "sa_messages a' (am_stage request) = Some (am_payload request)"
    "outcome = StagePublished \<Longrightarrow> stage_dependencies_satisfied a (am_stage request)"
  using inv run
proof (cases rule: stage_cases)
  case (identical row)
  note row = cleaned_row [OF inv identical(4)]
  note dec = identical(6) [unfolded row(2)]
  have l: "load_short_code_attempt db None (Some (am_attempt_id request)) = Inr (Some (stored_of db row))"
    by (rule load_stored_row [OF inv row(1) identical(5)])
  have l': "load_short_code_attempt db' None (Some (am_attempt_id request)) = Inr (Some (stored_of db row))"
    unfolding identical(3) using load_stored_row [OF cleaned_inv [OF inv] identical(4,5)] by (simp add: row(2))
  note facts = decide_message_identical [OF dec]
  have out: "outcome = StageAlreadyPublished" using identical(1) by simp
  show ?thesis
    by (rule that [OF l l']) (use facts row(3) in \<open>simp_all add: out\<close>)
next
  case (stored row)
  note row = cleaned_row [OF inv stored(3)]
  note dec = stored(5) [unfolded row(2)]
  have same: "stage_payloads (cleaned now db) (at_attempt_id row) = stage_payloads db (at_attempt_id row)"
    by (rule cleaned_payloads [OF inv stored(3)])
  have l: "load_short_code_attempt db None (Some (am_attempt_id request)) = Inr (Some (stored_of db row))"
    by (rule load_stored_row [OF inv row(1) stored(4)])
  have l': "load_short_code_attempt db' None (Some (am_attempt_id request)) = Inr (Some (stored_of db' row))"
    by (rule load_stored_row [OF stored(6,8,4)])
  note facts = decide_message_insert [OF dec]
  have "insert_message (am_stage request) (am_payload request) (stored_of db row) = Inr (stored_of db' row)"
    unfolding stored(9) row(2) same using facts(1,4)
    by (auto simp: insert_message_def stage_dependencies_satisfied_iff)
  moreover have "sa_messages (stored_of db' row) (am_stage request) = Some (am_payload request)"
    unfolding stored(9) by simp
  ultimately show ?thesis
    using facts row(3) stored(1) by (intro that [OF l l']) simp_all
next
  case (refused e)
  from refused(1) show ?thesis by simp
qed

lemma cancel_refines:
  assumes inv: "short_code_inv db" and run: "cancel_short_code_attempt who request now db = (Inr (), db')"
  obtains a where "load_short_code_attempt db None (Some (ar_attempt_id request)) = Inr (Some a)"
    "load_short_code_attempt db' None (Some (ar_attempt_id request)) = Inr (Some (cancel a))"
    "who = sa_owner a \<or> Some who = sa_claimant a"
  using inv run
proof (cases rule: cancel_cases)
  case (cancelled row)
  note row = cleaned_row [OF inv cancelled(3)]
  have l: "load_short_code_attempt db None (Some (ar_attempt_id request)) = Inr (Some (stored_of db row))"
    by (rule load_stored_row [OF inv row(1) cancelled(4)])
  have l': "load_short_code_attempt db' None (Some (ar_attempt_id request)) = Inr (Some (cancel (stored_of db row)))"
    using load_stored_row [OF cancelled(6,8)] cancelled(4) by (simp add: cancelled(9) row(2))
  from cancelled(5) [unfolded row(2)] show ?thesis
    by (intro that [OF l l']) (simp add: authorize_short_code_cancel_def split: if_splits)
next
  case (refused e)
  from refused(1) show ?thesis by simp
qed

lemma decide_take_Inr:
  assumes "decide_short_code_capability_take who request a now = Inr d"
  shows "sa_claimant a = Some who" "\<not> sa_cancelled a" "ap_version (sa_publish a) = ct_version request"
    "now < ap_deadline_unix_seconds (sa_publish a)"
    "sa_capability_take_id a = (if d = CapabilityIdentical then Some (ct_take_id request) else None)"
  using assms by (auto simp: decide_short_code_capability_take_def split: if_splits option.splits)

lemma consume_same: "sa_capability_take_id a = Some t \<Longrightarrow> consume_capability t a = a"
  by (cases a) (simp add: consume_capability_def)

lemma take_refines:
  assumes inv: "short_code_inv db" and run: "take_short_code_capability who request now db = (Inr payload, db')"
  obtains a where "load_short_code_attempt db None (Some (ct_attempt_id request)) = Inr (Some a)"
    "load_short_code_attempt db' None (Some (ct_attempt_id request)) = Inr (Some (consume_capability (ct_take_id request) a))"
    "sa_messages a Capability = Some payload" "sa_claimant a = Some who" "\<not> sa_cancelled a"
    "now < ap_deadline_unix_seconds (sa_publish a)" "ap_version (sa_publish a) = ct_version request"
    "short_code_inv db'"
  using inv run
proof (cases rule: capability_cases)
  case (identical row p)
  note row = cleaned_row [OF inv identical(4)]
  note dec = identical(6) [unfolded row(2)]
  note facts = decide_take_Inr [OF dec]
  have same: "consume_capability (ct_take_id request) (stored_of db row) = stored_of db row"
    by (rule consume_same) (use facts(5) in simp)
  have l: "load_short_code_attempt db None (Some (ct_attempt_id request)) = Inr (Some (stored_of db row))"
    by (rule load_stored_row [OF inv row(1) identical(5)])
  have l': "load_short_code_attempt db' None (Some (ct_attempt_id request)) =
      Inr (Some (consume_capability (ct_take_id request) (stored_of db row)))"
    unfolding identical(3) same using load_stored_row [OF cleaned_inv [OF inv] identical(4,5)] by (simp add: row(2))
  have "short_code_inv db'" unfolding identical(3) by (rule cleaned_inv [OF inv])
  then show ?thesis
    using facts(1-4) identical(1,7) cleaned_payloads [OF inv identical(4)] by (intro that [OF l l']) simp_all
next
  case (consumed row row' p)
  note row = cleaned_row [OF inv consumed(3)]
  note dec = consumed(5) [unfolded row(2)]
  note facts = decide_take_Inr [OF dec]
  have l: "load_short_code_attempt db None (Some (ct_attempt_id request)) = Inr (Some (stored_of db row))"
    by (rule load_stored_row [OF inv row(1) consumed(4)])
  have l': "load_short_code_attempt db' None (Some (ct_attempt_id request)) =
      Inr (Some (consume_capability (ct_take_id request) (stored_of db row)))"
  proof -
    have "at_attempt_id row' = attempt_id_bytes (ct_attempt_id request)" using consumed(4,7) by simp
    from load_stored_row [OF consumed(8,10) this] show ?thesis unfolding consumed(11) row(2) .
  qed
  show ?thesis
    using facts(1-4) consumed(1,6,8) cleaned_payloads [OF inv consumed(3)] by (intro that [OF l l']) simp_all
next
  case (refused e)
  from refused(1) show ?thesis by simp
qed

text \<open>
  C28: The durable store refines the pure attempt state. On every state the relay can reach,
  a successful claim, stage, cancellation or take changes the attempt it loads exactly as
  \<open>set_claim\<close>, \<open>insert_message\<close>, \<open>cancel\<close> or \<open>consume_capability\<close> changes it,
  or, for an exact retry, leaves it as it was.
\<close>
theorem short_code_refines:
  fixes ops
  defines "db \<equiv> run_ops short_code_step ops empty_short_code_db"
  shows "(claim_short_code_attempt who creq now db = (Inr snapshot, db1) \<longrightarrow>
      (\<exists>a a'. load_short_code_attempt db None (Some (as_attempt_id snapshot)) = Inr (Some a) \<and>
        load_short_code_attempt db1 None (Some (as_attempt_id snapshot)) = Inr (Some a') \<and>
        ap_locator (sa_publish a) = ac_locator creq \<and> sa_claimant a' = Some who \<and>
        (a' = a \<or> set_claim who (ac_payload creq) a = Inr a')))
    \<and> (publish_short_code_message who mreq now db = (Inr outcome, db2) \<longrightarrow>
      (\<exists>a a'. load_short_code_attempt db None (Some (am_attempt_id mreq)) = Inr (Some a) \<and>
        load_short_code_attempt db2 None (Some (am_attempt_id mreq)) = Inr (Some a') \<and>
        (if outcome = StagePublished then insert_message (am_stage mreq) (am_payload mreq) a = Inr a' else a' = a)))
    \<and> (cancel_short_code_attempt who rreq now db = (Inr (), db3) \<longrightarrow>
      (\<exists>a. load_short_code_attempt db None (Some (ar_attempt_id rreq)) = Inr (Some a) \<and>
        load_short_code_attempt db3 None (Some (ar_attempt_id rreq)) = Inr (Some (cancel a))))
    \<and> (take_short_code_capability who treq now db = (Inr payload, db4) \<longrightarrow>
      (\<exists>a. load_short_code_attempt db None (Some (ct_attempt_id treq)) = Inr (Some a) \<and>
        load_short_code_attempt db4 None (Some (ct_attempt_id treq)) =
          Inr (Some (consume_capability (ct_take_id treq) a))))"
proof -
  have inv: "short_code_inv db" unfolding db_def by (rule relay_short_code.run_invar [OF short_code_inv_empty])
  show ?thesis
    using claim_refines [OF inv, of who creq now snapshot db1]
    by (intro conjI impI)
      (blast, blast elim: stage_refines [OF inv], blast elim: cancel_refines [OF inv], blast elim: take_refines [OF inv])
qed

section \<open>The exchange\<close>

lemma loaded_ok:
  assumes "short_code_inv db" and "load_short_code_attempt db None (Some x) = Inr (Some a)"
  shows "stages_closed (sa_messages a)" and "sa_claimant a \<noteq> Some (sa_owner a)"
    and "sa_claimant a \<noteq> None \<longleftrightarrow> sa_messages a CredentialRequest \<noteq> None"
    and "capability_consumed a \<Longrightarrow> sa_messages a Capability \<noteq> None"
proof -
  obtain r where r: "r \<in> set (sc_attempts db)" "a = stored_of db r"
    using assms load_stored by blast
  then have ok: "attempt_ok db r" using assms(1) by (simp add: short_code_inv_def)
  show "stages_closed (sa_messages a)" "sa_claimant a \<noteq> Some (sa_owner a)"
    "sa_claimant a \<noteq> None \<longleftrightarrow> sa_messages a CredentialRequest \<noteq> None"
    using ok by (auto simp: attempt_ok_def r(2) domIff)
  show "sa_messages a Capability \<noteq> None" if "capability_consumed a"
    using ok that by (auto simp: attempt_ok_def r(2) capability_consumed_def)
qed

text \<open>
  C31: In every state the relay can reach, an attempt that is loaded has a stage only
  together with all the stages that stage depends on, it has a credential request exactly
  when it has a claimant, its claimant is never its creator, and its capability is only
  ever marked consumed when it is there.
\<close>
theorem short_code_stage_order:
  fixes ops
  defines "db \<equiv> run_ops short_code_step ops empty_short_code_db"
  assumes "load_short_code_attempt db None (Some x) = Inr (Some a)"
  shows "(\<forall>s. s \<noteq> CredentialRequest \<and> sa_messages a s \<noteq> None \<longrightarrow> stage_dependencies_satisfied a s) \<and>
    (sa_claimant a \<noteq> None \<longleftrightarrow> sa_messages a CredentialRequest \<noteq> None) \<and>
    sa_claimant a \<noteq> Some (sa_owner a) \<and>
    (capability_consumed a \<longrightarrow> sa_messages a Capability \<noteq> None)"
proof -
  have inv: "short_code_inv db" unfolding db_def by (rule relay_short_code.run_invar [OF short_code_inv_empty])
  note ok = loaded_ok [OF inv assms(2)]
  show ?thesis
    using ok unfolding stage_dependencies_satisfied_iff stages_closed_def by blast
qed

lemma closed_with_capability:
  assumes "stages_closed m" and "m Capability \<noteq> None"
  shows "m s \<noteq> None"
proof -
  have step: "stage_needs s \<subseteq> dom m" if "m s \<noteq> None" for s
    using assms(1) that by (auto simp: stages_closed_def)
  have "m CreatorConfirmation \<noteq> None" "m ClaimantConfirmation \<noteq> None" using step [OF assms(2)] by auto
  moreover from step [OF this(1)] have "m CreatorIdentity \<noteq> None" by auto
  moreover from step [OF this] have "m ClaimantFinalization \<noteq> None" by auto
  moreover from step [OF this] have "m CredentialResponse \<noteq> None" by auto
  moreover from step [OF this] have "m CredentialRequest \<noteq> None" by auto
  ultimately show ?thesis using assms(2) by (cases s) simp_all
qed

text \<open>
  C27: The capability is released only to the claimant, who is not the creator, before the
  deadline, while the attempt is not cancelled and after all seven stages, both
  confirmations among them, are stored. What is returned is the stored capability, and the
  take identifier of the request is recorded.
\<close>
theorem capability_release:
  fixes ops
  defines "db \<equiv> run_ops short_code_step ops empty_short_code_db"
  assumes "take_short_code_capability who request now db = (Inr payload, db')"
  shows "\<exists>a. load_short_code_attempt db' None (Some (ct_attempt_id request)) = Inr (Some a) \<and>
    sa_claimant a = Some who \<and> sa_owner a \<noteq> who \<and> \<not> sa_cancelled a \<and>
    now < ap_deadline_unix_seconds (sa_publish a) \<and> ap_version (sa_publish a) = ct_version request \<and>
    (\<forall>s. sa_messages a s \<noteq> None) \<and> sa_messages a Capability = Some payload \<and>
    sa_capability_take_id a = Some (ct_take_id request)"
proof -
  have inv: "short_code_inv db" unfolding db_def by (rule relay_short_code.run_invar [OF short_code_inv_empty])
  from inv assms(2) show ?thesis
  proof (rule take_refines)
    fix a
    assume a: "load_short_code_attempt db None (Some (ct_attempt_id request)) = Inr (Some a)"
      "load_short_code_attempt db' None (Some (ct_attempt_id request)) = Inr (Some (consume_capability (ct_take_id request) a))"
      "sa_messages a Capability = Some payload" "sa_claimant a = Some who" "\<not> sa_cancelled a"
      "now < ap_deadline_unix_seconds (sa_publish a)" "ap_version (sa_publish a) = ct_version request"
    note ok = loaded_ok [OF inv a(1)]
    have "sa_messages a s \<noteq> None" for s by (rule closed_with_capability [OF ok(1)]) (simp add: a(3))
    with a ok(2) show ?thesis by (auto simp: consume_capability_def)
  qed
qed

text \<open>The loaded attempt of a later state, before the deadline.\<close>

lemma later_attempt:
  assumes inv: "short_code_inv db" and load: "load_short_code_attempt db None (Some x) = Inr (Some a)"
    and clocks: "\<forall>op \<in> set ops. short_code_clock op < ap_deadline_unix_seconds (sa_publish a)"
    and later: "load_short_code_attempt (run_ops short_code_step ops db) None (Some x) = Inr (Some b)"
  shows "sa_publish b = sa_publish a" "sa_owner b = sa_owner a"
    "sa_claimant a \<noteq> None \<Longrightarrow> sa_claimant b = sa_claimant a"
    "sa_cancelled a \<Longrightarrow> sa_cancelled b"
    "sa_capability_take_id a \<noteq> None \<Longrightarrow> sa_capability_take_id b = sa_capability_take_id a"
    "sa_messages a \<subseteq>\<^sub>m sa_messages b"
proof -
  obtain r where r: "r \<in> set (sc_attempts db)" "at_attempt_id r = attempt_id_bytes x" "a = stored_of db r"
    using load load_stored [OF inv] by blast
  note inv' = relay_short_code.run_invar [OF inv, of ops]
  obtain q where q: "q \<in> set (sc_attempts (run_ops short_code_step ops db))" "at_attempt_id q = attempt_id_bytes x"
    "b = stored_of (run_ops short_code_step ops db) q"
    using later load_stored [OF inv'] by blast
  have le: "row_le db r (run_ops short_code_step ops db) q"
    by (rule later_row [OF inv r(1) _ q(1)]) (use clocks r q(2) in simp_all)
  show "sa_publish b = sa_publish a" using publish_of_row_le [OF le] by (simp add: r(3) q(3))
  show "sa_owner b = sa_owner a" "sa_claimant a \<noteq> None \<Longrightarrow> sa_claimant b = sa_claimant a"
    "sa_cancelled a \<Longrightarrow> sa_cancelled b"
    "sa_capability_take_id a \<noteq> None \<Longrightarrow> sa_capability_take_id b = sa_capability_take_id a"
    "sa_messages a \<subseteq>\<^sub>m sa_messages b"
    using le by (auto simp: row_le_def r(3) q(3))
qed

end
