(* ===== verification/Relay_Short_Code_Exchange.thy ===== *)
theory Relay_Short_Code_Exchange
  imports Relay_Short_Code_Props
begin

text \<open>
  The short-code exchange run to its end: when each operation of the relay succeeds, that
  a creator and a claimant who follow the protocol always get from the published attempt
  to the delivered capability, and what the claims, cancellations and takes of others can
  and cannot change about it.
\<close>

section \<open>When the operations succeed\<close>

lemma loaded_cleaned:
  assumes inv: "short_code_inv db" and load: "load_short_code_attempt db None (Some x) = Inr (Some a)"
    and clock: "now < ap_deadline_unix_seconds (sa_publish a)"
  obtains row where "row \<in> set (sc_attempts (cleaned now db))" "at_attempt_id row = attempt_id_bytes x"
    "a = stored_of (cleaned now db) row" "unat now < 2 ^ 63"
proof -
  obtain r where r: "r \<in> set (sc_attempts db)" "at_attempt_id r = attempt_id_bytes x" "a = stored_of db r"
    using load load_stored [OF inv] by blast
  have before: "int (unat now) < at_deadline_unix_seconds r"
    using clock clock_before_deadline [OF inv r(1)] r(3) by simp
  then have mem: "r \<in> set (sc_attempts (cleaned now db))" using r(1) by (simp add: cleaned_attempts)
  have "at_deadline_unix_seconds r < 2 ^ 63" using inv r(1) by (simp add: short_code_inv_def attempt_ok_def)
  then have "int (unat now) < 2 ^ 63" using before by linarith
  then have "unat now < 2 ^ 63" using of_nat_less_iff [of "unat now" "2 ^ 63", where 'a = int] by simp
  with that [OF mem r(2)] cleaned_row(2) [OF inv mem] r(3) show thesis by simp
qed

lemma with_attempt_run:
  assumes inv: "short_code_inv db" and load: "load_short_code_attempt db None (Some x) = Inr (Some a)"
    and clock: "now < ap_deadline_unix_seconds (sa_publish a)"
  shows "with_attempt now x body db = body a (cleaned now db)"
proof -
  obtain row where row: "row \<in> set (sc_attempts (cleaned now db))" "at_attempt_id row = attempt_id_bytes x"
    "a = stored_of (cleaned now db) row" "unat now < 2 ^ 63"
    by (rule loaded_cleaned [OF assms])
  have "load_short_code_attempt (cleaned now db) None (Some x) = Inr (Some a)"
    using load_stored_row [OF cleaned_inv [OF inv] row(1,2)] row(3) by simp
  then show ?thesis
    using row(4) by (simp add: with_attempt_def short_code_cleanup_eq)
qed

lemma stage_key_fresh:
  assumes "stages_ok db" and "stage_payloads db aid s = None"
  shows "(aid, short_code_stage_to_sql s) \<notin> (\<lambda>m. (st_attempt_id m, st_stage m)) ` set (sc_stages db)"
proof
  assume "(aid, short_code_stage_to_sql s) \<in> (\<lambda>m. (st_attempt_id m, st_stage m)) ` set (sc_stages db)"
  then obtain m where "m \<in> set (sc_stages db)" "st_attempt_id m = aid" "st_stage m = short_code_stage_to_sql s" by auto
  then have "stage_payloads db aid s = Some (st_payload m)" using stage_payloads_Some [OF assms(1)] by blast
  with assms(2) show False by simp
qed

lemma stage_succeeds:
  assumes inv: "short_code_inv db"
    and load: "load_short_code_attempt db None (Some (am_attempt_id request)) = Inr (Some a)"
    and decide: "decide_short_code_message who request a now = Inr MessageInsert"
    and size: "1 \<le> length (am_payload request)" "length (am_payload request) \<le> 9216"
  obtains db' where "publish_short_code_message who request now db = (Inr StagePublished, db')" "short_code_inv db'"
    "load_short_code_attempt db' None (Some (am_attempt_id request)) =
       Inr (Some (a\<lparr>sa_messages := (sa_messages a)(am_stage request \<mapsto> am_payload request)\<rparr>))"
proof -
  have clock: "now < ap_deadline_unix_seconds (sa_publish a)"
    using decide by (auto simp: decide_short_code_message_def split: if_splits)
  obtain row where row: "row \<in> set (sc_attempts (cleaned now db))" "at_attempt_id row = attempt_id_bytes (am_attempt_id request)"
    "a = stored_of (cleaned now db) row" "unat now < 2 ^ 63"
    by (rule loaded_cleaned [OF inv load clock])
  let ?c = "cleaned now db"
  let ?m = "\<lparr>st_attempt_id = attempt_id_bytes (am_attempt_id request),
             st_stage = short_code_stage_to_sql (am_stage request), st_payload = am_payload request\<rparr>"
  have inv': "short_code_inv ?c" by (rule cleaned_inv [OF inv])
  have free: "stage_payloads ?c (at_attempt_id row) (am_stage request) = None"
    using decide_message_insert(1) [OF decide] row(3) by simp
  have "(st_attempt_id ?m, st_stage ?m) \<notin> (\<lambda>m. (st_attempt_id m, st_stage m)) ` set (sc_stages ?c)"
    using stage_key_fresh [OF _ free] inv' row(2) by (simp add: short_code_inv_def)
  moreover have "length (attempt_id_bytes (am_attempt_id request)) = 16"
    using inv' row(1,2) by (auto simp: short_code_inv_def attempt_ok_def attempt_row_check_def)
  then have "stage_row_check ?m"
    using size by (cases "am_stage request") (simp_all add: stage_row_check_def)
  moreover have "attempt_id_bytes (am_attempt_id request) \<in> at_attempt_id ` set (sc_attempts ?c)"
    using row(1,2) by (metis image_eqI)
  ultimately have ins: "insert_short_code_message request ?c = Inr (?c\<lparr>sc_stages := sc_stages ?c @ [?m]\<rparr>)"
    by (simp add: insert_short_code_message_def insert_stage_row_def)
  let ?db = "?c\<lparr>sc_stages := sc_stages ?c @ [?m]\<rparr>"
  have run: "publish_short_code_message who request now db = (Inr StagePublished, ?db)"
    unfolding publish_short_code_message_def transact_def with_attempt_run [OF inv load clock] decide and_then.simps
    by (simp add: ins)
  have inv'': "short_code_inv ?db"
    using short_code_step_effect [OF inv, of "Publish_stage who request now"] run by simp
  from inv run show thesis
  proof (rule stage_refines)
    fix b b'
    assume b: "load_short_code_attempt db None (Some (am_attempt_id request)) = Inr (Some b)"
      "load_short_code_attempt ?db None (Some (am_attempt_id request)) = Inr (Some b')"
      "if StagePublished = StagePublished then insert_message (am_stage request) (am_payload request) b = Inr b' else b' = b"
    have "b = a" using b(1) load by simp
    with b(3) have "b' = a\<lparr>sa_messages := (sa_messages a)(am_stage request \<mapsto> am_payload request)\<rparr>"
      by (auto simp: insert_message_def split: if_splits)
    with b(2) show thesis using that [OF run inv''] by simp
  qed
qed

lemma update_attempts_run:
  assumes inv: "short_code_inv db" and row: "row \<in> set (sc_attempts db)"
    and sel: "\<And>r. C r \<longleftrightarrow> at_attempt_id r = at_attempt_id row \<and> Q r" and q: "Q row"
    and check: "attempt_row_check (f row)"
  obtains db' where "update_attempts C f db = Some (1, db')"
proof -
  have only: "r = row" if "r \<in> set (sc_attempts db)" "C r" for r
    using same_attempt [OF inv that(1) row] that(2) sel by simp
  have "filter C (sc_attempts db) = filter (\<lambda>r. at_attempt_id r = at_attempt_id row) (sc_attempts db)"
    using only sel q same_attempt [OF inv _ row] by (intro filter_cong) auto
  also have "\<dots> = [row]"
    using inv row by (intro filter_unique) (simp_all add: short_code_inv_def)
  finally have "length (filter C (sc_attempts db)) = 1" by simp
  moreover have "list_all (\<lambda>r. C r \<longrightarrow> attempt_row_check (f r)) (sc_attempts db)"
    unfolding list_all_iff using only check by blast
  ultimately show thesis using that by (simp add: update_attempts_def)
qed

lemma take_succeeds:
  assumes inv: "short_code_inv db"
    and load: "load_short_code_attempt db None (Some (ct_attempt_id request)) = Inr (Some a)"
    and decide: "decide_short_code_capability_take who request a now = Inr d"
    and size: "length (take_id_bytes (ct_take_id request)) = 16"
  obtains db' payload where "take_short_code_capability who request now db = (Inr payload, db')"
    "sa_messages a Capability = Some payload"
proof -
  note facts = decide_take_Inr [OF decide]
  obtain payload where p: "sa_messages a Capability = Some payload"
    using decide by (auto simp: decide_short_code_capability_take_def split: if_splits)
  obtain row where row: "row \<in> set (sc_attempts (cleaned now db))" "at_attempt_id row = attempt_id_bytes (ct_attempt_id request)"
    "a = stored_of (cleaned now db) row" "unat now < 2 ^ 63"
    by (rule loaded_cleaned [OF inv load facts(4)])
  let ?c = "cleaned now db"
  let ?C = "\<lambda>r. at_attempt_id r = attempt_id_bytes (ct_attempt_id request) \<and>
                    at_capability_consumed r = 0 \<and> at_capability_take_id r = None"
  let ?f = "\<lambda>r. r\<lparr>at_capability_consumed := 1, at_capability_take_id := Some (take_id_bytes (ct_take_id request))\<rparr>"
  have inv': "short_code_inv ?c" by (rule cleaned_inv [OF inv])
  note run = take_short_code_capability_def [of who request now, THEN fun_cong, of db, unfolded transact_def
      with_attempt_run [OF inv load facts(4)] decide and_then.simps p ok_or.simps]
  show thesis
  proof (cases d)
    case CapabilityIdentical
    with run that p show ?thesis by simp
  next
    case CapabilityConsume
    have old: "attempt_ok ?c row" using inv' row(1) by (simp add: short_code_inv_def)
    have "at_capability_take_id row = None" using facts(5) CapabilityConsume row(3) by simp
    moreover from this old have "at_capability_consumed row = 0" by (auto simp: attempt_ok_def attempt_row_check_def)
    ultimately have free: "at_capability_consumed row = 0 \<and> at_capability_take_id row = None" by simp
    have check: "attempt_row_check (?f row)"
      using old size by (simp add: attempt_ok_def attempt_row_check_def)
    obtain c' where "update_attempts ?C ?f ?c = Some (1, c')"
    proof (rule update_attempts_run [OF inv' row(1), of ?C "\<lambda>r. at_capability_consumed r = 0 \<and> at_capability_take_id r = None" ?f])
    qed (use free check row(2) in auto)
    with run CapabilityConsume that p show ?thesis by simp
  qed
qed

lemma publish_succeeds:
  assumes inv: "short_code_inv db"
    and fresh: "locator_bytes (ap_locator request) \<notin> at_locator ` set (sc_attempts db)"
      "attempt_id_bytes (ap_attempt_id request) \<notin> at_attempt_id ` set (sc_attempts db)"
    and clock: "now < ap_deadline_unix_seconds request"
      "ap_deadline_unix_seconds request \<le> saturating_add_u64 now SHORT_CODE_ATTEMPT_LIFETIME_SECONDS"
      "unat (ap_deadline_unix_seconds request) < 2 ^ 63"
    and row: "attempt_row_check (attempt_row_of who request)"
    and room: "length (active_rows (sc_attempts db)) < 1000"
      "length (filter (\<lambda>r. at_owner_principal_id r = principal_id_bytes who) (active_rows (sc_attempts db))) < 8"
  obtains db' where "publish_short_code_attempt who request now db = (Inr AttemptPublished, db')" "short_code_inv db'"
    "attempt_row_of who request \<in> set (sc_attempts db')" "stage_payloads db' (attempt_id_bytes (ap_attempt_id request)) = Map.empty"
    "\<exists>Q. sc_rates db' = filter Q (sc_rates db)"
proof -
  have now: "unat now < 2 ^ 63" using clock(1,3) word_less_nat_alt [of now "ap_deadline_unix_seconds request"] by linarith
  let ?c = "cleaned now db"
  have inv': "short_code_inv ?c" by (rule cleaned_inv [OF inv])
  have fresh': "locator_bytes (ap_locator request) \<notin> at_locator ` set (sc_attempts ?c)"
      "attempt_id_bytes (ap_attempt_id request) \<notin> at_attempt_id ` set (sc_attempts ?c)"
    using fresh by (auto simp: cleaned_attempts)
  have load: "load_short_code_attempt ?c (Some (ap_locator request)) (Some (ap_attempt_id request)) = Inr None"
    by (rule load_absent) (use fresh' in \<open>force simp: filter_empty_conv\<close>)
  have swap: "active_rows (sc_attempts ?c) = filter (\<lambda>r. int (unat now) < at_deadline_unix_seconds r) (active_rows (sc_attempts db))"
    by (simp add: active_rows_def cleaned_attempts conj_commute)
  have "length (active_rows (sc_attempts ?c)) \<le> length (active_rows (sc_attempts db))"
    unfolding swap by (rule length_filter_le)
  moreover have "length (filter (\<lambda>r. at_owner_principal_id r = principal_id_bytes who) (active_rows (sc_attempts ?c)))
      \<le> length (filter (\<lambda>r. at_owner_principal_id r = principal_id_bytes who) (active_rows (sc_attempts db)))"
    unfolding swap by (rule filter_owner_le)
  ultimately have decide: "decide_short_code_publish who request None now (length (active_rows (sc_attempts ?c)))
      (length (filter (\<lambda>r. at_owner_principal_id r = principal_id_bytes who) (active_rows (sc_attempts ?c)))) = Inr PublishInsert"
    using clock(1,2) room by (simp add: decide_short_code_publish_def short_code_limits not_le not_less)
  let ?db = "?c\<lparr>sc_attempts := sc_attempts ?c @ [attempt_row_of who request]\<rparr>"
  have ins: "insert_short_code_attempt who request ?c = Inr ?db"
    using row clock(3) fresh'
    by (simp add: insert_short_code_attempt_def to_sql_integer_def attempt_row_of_def Let_def)
  have "publish_attempt_transaction who request now db = Inr (Inr AttemptPublished, ?db)"
    unfolding publish_attempt_transaction_def short_code_cleanup_eq using now
    by (simp add: load active_counts_cleaned decide ins)
  then have run: "publish_short_code_attempt who request now db = (Inr AttemptPublished, ?db)"
    using clock(1) by (simp add: publish_short_code_attempt_def transact_def not_le [symmetric])
  have inv'': "short_code_inv ?db"
    using short_code_step_effect [OF inv, of "Publish_attempt who request now"] run by simp
  have fk: "\<forall>m \<in> set (sc_stages ?c). st_attempt_id m \<in> at_attempt_id ` set (sc_attempts ?c)"
    using inv' by (simp add: short_code_inv_def stages_ok_def)
  have "List.find (\<lambda>m. st_attempt_id m = attempt_id_bytes (ap_attempt_id request) \<and> st_stage m = short_code_stage_to_sql s) (sc_stages ?c) = None" for s
    unfolding find_None_iff using fk fresh'(2) by metis
  then have "stage_payloads ?db (attempt_id_bytes (ap_attempt_id request)) = Map.empty"
    by (simp add: stage_payloads_def fun_eq_iff)
  moreover have "\<exists>Q. sc_rates ?db = filter Q (sc_rates db)" by (auto simp: cleaned_rates)
  ultimately show thesis by (intro that [OF run inv'']) simp_all
qed

section \<open>Snapshots\<close>

text \<open>What a snapshot shows: every stored stage but the capability, in stage order.\<close>

definition shown_messages :: "stage_map \<Rightarrow> short_code_relay_message list" where
  "shown_messages m =
     map (\<lambda>s. \<lparr>rm_stage = s, rm_payload = the (m s)\<rparr>) (filter (\<lambda>s. m s \<noteq> None \<and> s \<noteq> Capability) all_stages)"

lemma stage_entries_eq: "stage_entries m = map (\<lambda>s. (s, the (m s))) (filter (\<lambda>s. m s \<noteq> None) all_stages)"
proof -
  have "List.map_filter (\<lambda>s. map_option (Pair s) (m s)) xs = map (\<lambda>s. (s, the (m s))) (filter (\<lambda>s. m s \<noteq> None) xs)" for xs
    by (induction xs) (auto simp: map_filter_simps split: option.splits)
  then show ?thesis by (simp add: stage_entries_def)
qed

lemma shown_messages_sorted: "sorted_wrt (\<lambda>x y. rm_stage x < rm_stage y) (shown_messages m)"
  unfolding shown_messages_def sorted_wrt_map
  using sorted_wrt_filter [OF all_stages_sorted] by simp

lemma shown_messages_length: "length (shown_messages m) \<le> 7"
  unfolding shown_messages_def length_map
  by (rule order_trans [OF length_filter_le]) (simp add: all_stages_def)

lemma no_adjacent_equal:
  assumes "sorted_wrt (\<lambda>x y. f x < (f y :: 'b :: linorder)) xs"
  shows "\<not> windows2_any (\<lambda>a b. f a = f b) xs"
  using assms by (induction xs rule: induct_list012) auto

lemma snapshot_eq:
  assumes "ap_deadline_unix_seconds (sa_publish a) \<noteq> 0"
    and "\<forall>s p. sa_messages a s = Some p \<longrightarrow> 1 \<le> length p \<and> length p \<le> 9216"
  shows "short_code_snapshot a = Inr \<lparr>as_version = ap_version (sa_publish a),
    as_attempt_id = ap_attempt_id (sa_publish a), as_deadline_unix_seconds = ap_deadline_unix_seconds (sa_publish a),
    as_cancelled = sa_cancelled a, as_capability_consumed = capability_consumed a,
    as_messages = shown_messages (sa_messages a)\<rparr>"
proof -
  let ?m = "sa_messages a"
  have entries: "filter (\<lambda>(stage, _). stage \<noteq> Capability) (stage_entries ?m) =
      map (\<lambda>s. (s, the (?m s))) (filter (\<lambda>s. ?m s \<noteq> None \<and> s \<noteq> Capability) all_stages)"
    by (simp add: stage_entries_eq filter_map comp_def conj_commute)
  have "collect (\<lambda>(stage, payload). ShortCodeRelayMessage_new stage payload)
      (filter (\<lambda>(stage, _). stage \<noteq> Capability) (stage_entries ?m)) = Inr (shown_messages ?m)"
  proof -
    have "collect (\<lambda>(stage, payload). ShortCodeRelayMessage_new stage payload)
        (filter (\<lambda>(stage, _). stage \<noteq> Capability) (stage_entries ?m)) =
      Inr (map (\<lambda>(s, p). \<lparr>rm_stage = s, rm_payload = p\<rparr>) (filter (\<lambda>(stage, _). stage \<noteq> Capability) (stage_entries ?m)))"
      by (rule collect_all_ok) (use assms(2) in \<open>auto simp: entries ShortCodeRelayMessage_new_def
          validate_payload_def MAX_SHORT_CODE_RELAY_PAYLOAD_BYTES_def\<close>)
    then show ?thesis by (simp add: entries shown_messages_def comp_def)
  qed
  moreover have "sort_key rm_stage (shown_messages ?m) = shown_messages ?m"
  proof (rule sort_key_id_if_sorted)
    have "sorted_wrt (\<lambda>x y. rm_stage x \<le> rm_stage y) (shown_messages ?m)"
      by (rule sorted_wrt_mono_rel [OF _ shown_messages_sorted]) simp
    then show "sorted (map rm_stage (shown_messages ?m))" by (simp add: sorted_wrt_map)
  qed
  ultimately show ?thesis
    using assms(1) shown_messages_length [of ?m] no_adjacent_equal [OF shown_messages_sorted, of ?m]
    by (simp add: short_code_snapshot_def ShortCodeAttemptSnapshot_new_def MAX_SHORT_CODE_RELAY_STAGES_def Let_def)
qed

lemma loaded_snapshot:
  assumes inv: "short_code_inv db" and load: "load_short_code_attempt db None (Some x) = Inr (Some a)"
  shows "short_code_snapshot a = Inr \<lparr>as_version = ap_version (sa_publish a),
    as_attempt_id = ap_attempt_id (sa_publish a), as_deadline_unix_seconds = ap_deadline_unix_seconds (sa_publish a),
    as_cancelled = sa_cancelled a, as_capability_consumed = capability_consumed a,
    as_messages = shown_messages (sa_messages a)\<rparr>"
proof (rule snapshot_eq)
  obtain r where r: "r \<in> set (sc_attempts db)" "a = stored_of db r"
    using load load_stored [OF inv] by blast
  have "1 \<le> at_deadline_unix_seconds r" using inv r(1) by (auto simp: short_code_inv_def attempt_ok_def attempt_row_check_def)
  then show "ap_deadline_unix_seconds (sa_publish a) \<noteq> 0"
    using deadline_of [OF inv r(1)] r(2) by auto
  have stages: "stages_ok db" using inv by (simp add: short_code_inv_def)
  show "\<forall>s p. sa_messages a s = Some p \<longrightarrow> 1 \<le> length p \<and> length p \<le> 9216"
  proof (intro allI impI)
    fix s p assume "sa_messages a s = Some p"
    then obtain m where "m \<in> set (sc_stages db)" "st_payload m = p"
      unfolding r(2) stored_of_simps stage_payloads_Some [OF stages] by blast
    with stages show "1 \<le> length p \<and> length p \<le> 9216" by (auto simp: stages_ok_def stage_row_check_def)
  qed
qed

lemma update_claim_succeeds:
  assumes inv: "short_code_inv db" and row: "row \<in> set (sc_attempts db)" and free: "at_claimant_principal_id row = None"
    and who: "length (principal_id_bytes who) = 32" and size: "1 \<le> length payload" "length payload \<le> 9216"
  obtains db' where "update_short_code_claim (ShortCodePairingAttemptId (at_attempt_id row)) who payload db = Inr db'"
proof -
  let ?C = "\<lambda>r. at_attempt_id r = at_attempt_id row \<and> at_claimant_principal_id r = None"
  let ?f = "\<lambda>r. r\<lparr>at_claimant_principal_id := Some (principal_id_bytes who)\<rparr>"
  let ?m = "\<lparr>st_attempt_id = at_attempt_id row, st_stage = short_code_stage_to_sql CredentialRequest, st_payload = payload\<rparr>"
  have ok: "attempt_ok db row" and stages: "stages_ok db" using inv row by (simp_all add: short_code_inv_def)
  have "attempt_row_check row" using ok by (simp add: attempt_ok_def)
  then have "attempt_row_check (?f row)" using who by (auto simp: attempt_row_check_def)
  then obtain db1 where up: "update_attempts ?C ?f db = Some (1, db1)"
    by (rule update_attempts_run [OF inv row, of ?C "\<lambda>r. at_claimant_principal_id r = None", OF refl free])
  have db1: "db1 = db\<lparr>sc_attempts := map (\<lambda>r. if at_attempt_id r = at_attempt_id row then ?f r else r) (sc_attempts db)\<rparr>"
    by (rule update_attempts_Some(3) [where Q = "\<lambda>r. at_claimant_principal_id r = None", OF inv row refl free up])
  have "stage_payloads db (at_attempt_id row) CredentialRequest = None"
    using ok free by (simp add: attempt_ok_def domIff)
  from stage_key_fresh [OF stages this] have "(at_attempt_id row, 1) \<notin> (\<lambda>m. (st_attempt_id m, st_stage m)) ` set (sc_stages db1)"
    by (simp add: db1)
  moreover have "length (at_attempt_id row) = 16" using ok by (simp add: attempt_ok_def attempt_row_check_def)
  then have "stage_row_check ?m" using size by (simp add: stage_row_check_def)
  moreover have "at_attempt_id row \<in> at_attempt_id ` set (sc_attempts db1)"
    unfolding db1 by (rule image_eqI [of _ _ "?f row"]) (use row in auto)
  ultimately have "insert_stage_row ''short-code credential request insert'' ?m db1 = Inr (db1\<lparr>sc_stages := sc_stages db1 @ [?m]\<rparr>)"
    by (simp add: insert_stage_row_def)
  with up that show thesis by (simp add: update_short_code_claim_def)
qed

lemma claim_succeeds:
  assumes inv: "short_code_inv db" and row: "row \<in> set (sc_attempts db)" "at_locator row = locator_bytes (ac_locator request)"
    and free: "at_claimant_principal_id row = None" "at_cancelled row \<noteq> 1" "at_capability_take_id row = None"
    and who: "principal_id_bytes who \<noteq> at_owner_principal_id row" "length (principal_id_bytes who) = 32"
    and clock: "now < ap_deadline_unix_seconds (publish_of row)" and version: "ap_version (publish_of row) = ac_version request"
    and counts: "claims_by (principal_id_bytes who) (window_of now) (sc_rates db) < 10"
      "claims_on (locator_bytes (ac_locator request)) (window_of now) (sc_rates db) < 5"
    and size: "1 \<le> length (ac_payload request)" "length (ac_payload request) \<le> 9216"
  obtains snapshot db' where "claim_short_code_attempt who request now db = (Inr snapshot, db')" "short_code_inv db'"
    "load_short_code_attempt db' None (Some (ShortCodePairingAttemptId (at_attempt_id row))) =
       Inr (Some ((stored_of db row)\<lparr>sa_messages := (sa_messages (stored_of db row))(CredentialRequest \<mapsto> ac_payload request),
                                     sa_claimant := Some who\<rparr>))"
proof -
  define c where "c = cleaned now db"
  have before: "int (unat now) < at_deadline_unix_seconds row"
    using clock clock_before_deadline [OF inv row(1)] by simp
  have row': "row \<in> set (sc_attempts c)" using row(1) before by (simp add: c_def cleaned_attempts)
  have inv': "short_code_inv c" unfolding c_def by (rule cleaned_inv [OF inv])
  have now: "unat now < 2 ^ 63"
    by (rule loaded_cleaned [OF inv load_row [OF inv row(1)], of now]) (use clock in simp_all)
  have same: "stored_of c row = stored_of db row" unfolding c_def by (rule cleaned_row(2) [OF inv row' [unfolded c_def]])
  have load: "load_short_code_attempt c (Some (ac_locator request)) None = Inr (Some (stored_of c row))"
  proof (rule load_present [OF inv'])
    have "filter (\<lambda>r. at_locator r = at_locator row) (sc_attempts c) = [row]"
      using inv' row' by (intro filter_unique) (simp_all add: short_code_inv_def)
    then show "filter (\<lambda>r. Some (at_locator r) = map_option locator_bytes (Some (ac_locator request)) \<or>
        Some (at_attempt_id r) = map_option attempt_id_bytes None) (sc_attempts c) = [row]"
      using row(2) by simp
  qed
  have window: "filter (\<lambda>r. cr_window_start r = window_of now) (sc_rates c) =
      filter (\<lambda>r. cr_window_start r = window_of now) (sc_rates db)"
    by (auto simp: c_def cleaned_rates intro: filter_cong)
  have rates: "rates_ok (sc_rates c)" using inv' by (simp add: short_code_inv_def)
  let ?np = "nat (claims_by (principal_id_bytes who) (window_of now) (sc_rates c))"
  let ?nl = "nat (claims_on (locator_bytes (ac_locator request)) (window_of now) (sc_rates c))"
  have n: "?np < 10" "?nl < 5" using counts by (simp_all add: claims_by_def claims_on_def window)
  have owner: "RelayPrincipalId (at_owner_principal_id row) \<noteq> who" using who(1) by (auto simp: RelayPrincipalId_eq_iff)
  have decide: "decide_short_code_claim who request (Some (stored_of c row)) now ?np ?nl = Inr ClaimFirst"
    using version free clock owner n
    by (simp add: decide_short_code_claim_def decide_first_claim_def capability_consumed_def short_code_limits not_le)
  let ?rate = "\<lparr>cr_locator = locator_bytes (ac_locator request), cr_principal_id = principal_id_bytes who,
                cr_window_start = window_of now, cr_attempts = 1\<rparr>"
  have "attempt_ok db row" using inv row(1) by (simp add: short_code_inv_def)
  then have "attempt_row_check row" by (simp add: attempt_ok_def)
  then have len: "length (at_locator row) = 32" by (simp add: attempt_row_check_def)
  have "0 \<le> window_of now" unfolding window_of_def by (rule of_nat_0_le_iff)
  then have "claim_rate_row_check ?rate" using who(2) len row(2) by (simp add: claim_rate_row_check_def)
  moreover have "claims_on (cr_locator ?rate) (cr_window_start ?rate) (sc_rates c) < 5"
    using counts(2) by (simp add: claims_on_def window)
  moreover have "\<forall>r \<in> set (sc_rates c). claim_rate_row_check r" using rates by (simp add: rates_ok_def)
  ultimately obtain rs where up: "upsert_rate ?rate (sc_rates c) = Some rs" using upsert_rate_succeeds by blast
  let ?c1 = "c\<lparr>sc_rates := rs\<rparr>"
  have rec: "record_short_code_claim who (ac_locator request) now c = Inr ?c1"
    unfolding record_short_code_claim_def short_code_claim_window_eq [OF now] Let_def using up by simp
  have rs: "rates_ok rs" by (rule rates_ok_upsert [OF rates up]) (use n in simp_all)
  have inv1: "short_code_inv ?c1" by (rule short_code_inv_rates [OF inv' refl rs])
  have row1: "row \<in> set (sc_attempts ?c1)" using row' by simp
  obtain c2 where upd: "update_short_code_claim (ShortCodePairingAttemptId (at_attempt_id row)) who (ac_payload request) ?c1 = Inr c2"
    by (rule update_claim_succeeds [OF inv1 row1 free(1) who(2) size])
  note eff = update_claim_effect [OF inv1 row1 free(1,3) who(1) upd]
  let ?row' = "row\<lparr>at_claimant_principal_id := Some (principal_id_bytes who)\<rparr>"
  have load2: "load_short_code_attempt c2 None (Some (ShortCodePairingAttemptId (at_attempt_id row))) = Inr (Some (stored_of c2 ?row'))"
    using load_row [OF eff(1,3)] by simp
  obtain snapshot where "short_code_snapshot (stored_of c2 ?row') = Inr snapshot"
    using loaded_snapshot [OF eff(1) load2] by blast
  then have fin: "claim_snapshot (Some (stored_of c row)) c2 = Inr (Inr snapshot, c2)"
    using load2 by (simp add: claim_snapshot_def)
  have "claim_attempt_transaction who request now db = Inr (Inr snapshot, c2)"
    unfolding claim_attempt_transaction_def short_code_cleanup_eq
    using now by (simp add: c_def [symmetric] load claim_counts_eq [OF now rates] decide rec upd fin)
  then have run: "claim_short_code_attempt who request now db = (Inr snapshot, c2)"
    by (simp add: claim_short_code_attempt_def transact_def)
  have payloads: "stored_of ?c1 row = stored_of c row" by (simp add: stored_of_def stage_payloads_def fun_eq_iff)
  have "stored_of c2 ?row' = (stored_of db row)\<lparr>sa_messages := (sa_messages (stored_of db row))(CredentialRequest \<mapsto> ac_payload request),
      sa_claimant := Some who\<rparr>"
    using eff(4) unfolding payloads same by (metis payloads same stored_of_simps(4))
  with load2 that [OF run eff(1)] show thesis by simp
qed

section \<open>A complete exchange\<close>

text \<open>The attempt of creator \<open>own\<close> and claimant \<open>cl\<close> once the stages \<open>S\<close> are stored.\<close>

definition attempt_at ::
    "relay_principal_id \<Rightarrow> relay_principal_id \<Rightarrow> attempt_publish_request \<Rightarrow> (short_code_relay_stage \<Rightarrow> bytes) \<Rightarrow>
     short_code_relay_stage set \<Rightarrow> stored_short_code_attempt" where
  "attempt_at own cl request pay S =
     \<lparr>sa_owner = own, sa_claimant = Some cl, sa_publish = request,
      sa_messages = (\<lambda>s. if s \<in> S then Some (pay s) else None), sa_cancelled = False, sa_capability_take_id = None\<rparr>"

definition stage_message ::
    "attempt_publish_request \<Rightarrow> (short_code_relay_stage \<Rightarrow> bytes) \<Rightarrow> short_code_relay_stage \<Rightarrow> attempt_message_request" where
  "stage_message request pay s =
     \<lparr>am_version = ap_version request, am_attempt_id = ap_attempt_id request, am_stage = s, am_payload = pay s\<rparr>"

definition exchange ::
    "relay_principal_id \<Rightarrow> relay_principal_id \<Rightarrow> attempt_publish_request \<Rightarrow> (short_code_relay_stage \<Rightarrow> bytes) \<Rightarrow>
     (nat \<Rightarrow> u64) \<Rightarrow> short_code_op list" where
  "exchange own cl request pay clk =
     [Publish_attempt own request (clk 0),
      Claim_attempt cl \<lparr>ac_version = ap_version request, ac_locator = ap_locator request, ac_payload = pay CredentialRequest\<rparr> (clk 1),
      Publish_stage own (stage_message request pay CredentialResponse) (clk 2),
      Publish_stage cl (stage_message request pay ClaimantFinalization) (clk 3),
      Publish_stage own (stage_message request pay CreatorIdentity) (clk 4),
      Publish_stage own (stage_message request pay CreatorConfirmation) (clk 5),
      Publish_stage cl (stage_message request pay ClaimantConfirmation) (clk 6),
      Publish_stage own (stage_message request pay Capability) (clk 7)]"

lemma exchange_stage:
  assumes inv: "short_code_inv db"
    and load: "load_short_code_attempt db None (Some (ap_attempt_id request)) = Inr (Some (attempt_at own cl request pay S))"
    and order: "s \<notin> S" "s \<noteq> CredentialRequest" "stage_needs s \<subseteq> S"
    and who: "stage_owner (attempt_at own cl request pay S) s = who"
    and clock: "now < ap_deadline_unix_seconds request"
    and size: "1 \<le> length (pay s)" "length (pay s) \<le> 9216"
  defines "db' \<equiv> snd (short_code_step (Publish_stage who (stage_message request pay s) now) db)"
  shows "short_code_inv db'"
    and "load_short_code_attempt db' None (Some (ap_attempt_id request)) = Inr (Some (attempt_at own cl request pay (insert s S)))"
proof -
  let ?a = "attempt_at own cl request pay S"
  let ?m = "stage_message request pay s"
  have "stage_dependencies_satisfied ?a s"
    using order(2,3) by (auto simp: stage_dependencies_satisfied_iff attempt_at_def)
  then have "decide_short_code_message who ?m ?a now = Inr MessageInsert"
    using order(1) who clock
    by (auto simp: decide_short_code_message_def stage_message_def attempt_at_def capability_consumed_def not_le)
  moreover have "load_short_code_attempt db None (Some (am_attempt_id ?m)) = Inr (Some ?a)"
    using load by (simp add: stage_message_def)
  moreover have "1 \<le> length (am_payload ?m)" "length (am_payload ?m) \<le> 9216"
    using size by (simp_all add: stage_message_def)
  ultimately obtain d where d: "publish_short_code_message who ?m now db = (Inr StagePublished, d)" "short_code_inv d"
    "load_short_code_attempt d None (Some (am_attempt_id ?m)) =
       Inr (Some (?a\<lparr>sa_messages := (sa_messages ?a)(am_stage ?m \<mapsto> am_payload ?m)\<rparr>))"
    using stage_succeeds [OF inv] by blast
  have "db' = d" using d(1) by (simp add: db'_def)
  moreover have "?a\<lparr>sa_messages := (sa_messages ?a)(am_stage ?m \<mapsto> am_payload ?m)\<rparr> = attempt_at own cl request pay (insert s S)"
    by (auto simp: attempt_at_def stage_message_def)
  ultimately show "short_code_inv db'"
    and "load_short_code_attempt db' None (Some (ap_attempt_id request)) = Inr (Some (attempt_at own cl request pay (insert s S)))"
    using d(2,3) by (simp_all add: stage_message_def)
qed

lemma publish_of_attempt_row: "publish_of (attempt_row_of own request) = request"
  by (simp add: publish_of_def attempt_row_of_def)

lemma exchange_claim:
  assumes inv: "short_code_inv db"
    and fresh: "locator_bytes (ap_locator request) \<notin> at_locator ` set (sc_attempts db)"
      "attempt_id_bytes (ap_attempt_id request) \<notin> at_attempt_id ` set (sc_attempts db)"
    and clock: "t0 < ap_deadline_unix_seconds request" "t1 < ap_deadline_unix_seconds request"
      "ap_deadline_unix_seconds request \<le> saturating_add_u64 t0 SHORT_CODE_ATTEMPT_LIFETIME_SECONDS"
      "unat (ap_deadline_unix_seconds request) < 2 ^ 63"
    and row: "attempt_row_check (attempt_row_of own request)"
    and room: "length (active_rows (sc_attempts db)) < 1000"
      "length (filter (\<lambda>r. at_owner_principal_id r = principal_id_bytes own) (active_rows (sc_attempts db))) < 8"
    and who: "cl \<noteq> own" "length (principal_id_bytes cl) = 32"
    and counts: "claims_by (principal_id_bytes cl) (window_of t1) (sc_rates db) < 10"
      "claims_on (locator_bytes (ap_locator request)) (window_of t1) (sc_rates db) < 5"
    and size: "1 \<le> length (pay CredentialRequest)" "length (pay CredentialRequest) \<le> 9216"
  defines "creq \<equiv> \<lparr>ac_version = ap_version request, ac_locator = ap_locator request, ac_payload = pay CredentialRequest\<rparr>"
  defines "db' \<equiv> snd (short_code_step (Claim_attempt cl creq t1) (snd (short_code_step (Publish_attempt own request t0) db)))"
  shows "short_code_inv db'"
    and "load_short_code_attempt db' None (Some (ap_attempt_id request)) =
      Inr (Some (attempt_at own cl request pay {CredentialRequest}))"
proof -
  let ?row = "attempt_row_of own request"
  obtain d where d: "publish_short_code_attempt own request t0 db = (Inr AttemptPublished, d)" "short_code_inv d"
    "?row \<in> set (sc_attempts d)" "stage_payloads d (attempt_id_bytes (ap_attempt_id request)) = Map.empty"
    and "\<exists>Q. sc_rates d = filter Q (sc_rates db)"
    by (rule publish_succeeds [OF inv fresh clock(1,3,4) row room])
  then obtain Q where Q: "sc_rates d = filter Q (sc_rates db)" by blast
  have rates: "rates_ok (sc_rates db)" using inv by (simp add: short_code_inv_def)
  have counts': "claims_by (principal_id_bytes cl) (window_of t1) (sc_rates d) < 10"
    "claims_on (locator_bytes (ac_locator creq)) (window_of t1) (sc_rates d) < 5"
    using order.strict_trans1 [OF claims_filter_le(1) [OF rates] counts(1), of Q]
      order.strict_trans1 [OF claims_filter_le(2) [OF rates] counts(2), of Q]
    by (simp_all add: Q creq_def)
  have other: "principal_id_bytes cl \<noteq> at_owner_principal_id ?row"
    using who(1) by (auto simp: relay_principal_id.expand)
  obtain snapshot d' where d': "claim_short_code_attempt cl creq t1 d = (Inr snapshot, d')" "short_code_inv d'"
    "load_short_code_attempt d' None (Some (ShortCodePairingAttemptId (at_attempt_id ?row))) =
       Inr (Some ((stored_of d ?row)\<lparr>sa_messages := (sa_messages (stored_of d ?row))(CredentialRequest \<mapsto> ac_payload creq),
                                     sa_claimant := Some cl\<rparr>))"
    by (rule claim_succeeds [OF d(2,3), of creq cl t1])
      (use other who(2) clock(2) counts' size in \<open>simp_all add: creq_def publish_of_attempt_row\<close>)
  have "db' = d'" using d(1) d'(1) by (simp add: db'_def)
  moreover have "(stored_of d ?row)\<lparr>sa_messages := (sa_messages (stored_of d ?row))(CredentialRequest \<mapsto> ac_payload creq),
      sa_claimant := Some cl\<rparr> = attempt_at own cl request pay {CredentialRequest}"
    by (auto simp: stored_of_def attempt_at_def creq_def publish_of_attempt_row d(4) fun_eq_iff)
  ultimately show "short_code_inv db'"
    and "load_short_code_attempt db' None (Some (ap_attempt_id request)) =
      Inr (Some (attempt_at own cl request pay {CredentialRequest}))"
    using d'(2,3) by simp_all
qed

lemma exchange_reaches:
  assumes inv: "short_code_inv db"
    and fresh: "locator_bytes (ap_locator request) \<notin> at_locator ` set (sc_attempts db)"
      "attempt_id_bytes (ap_attempt_id request) \<notin> at_attempt_id ` set (sc_attempts db)"
    and clock: "\<And>i. clk i < ap_deadline_unix_seconds request"
      "ap_deadline_unix_seconds request \<le> saturating_add_u64 (clk 0) SHORT_CODE_ATTEMPT_LIFETIME_SECONDS"
      "unat (ap_deadline_unix_seconds request) < 2 ^ 63"
    and row: "attempt_row_check (attempt_row_of own request)"
    and room: "length (active_rows (sc_attempts db)) < 1000"
      "length (filter (\<lambda>r. at_owner_principal_id r = principal_id_bytes own) (active_rows (sc_attempts db))) < 8"
    and who: "cl \<noteq> own" "length (principal_id_bytes cl) = 32"
    and counts: "claims_by (principal_id_bytes cl) (window_of (clk 1)) (sc_rates db) < 10"
      "claims_on (locator_bytes (ap_locator request)) (window_of (clk 1)) (sc_rates db) < 5"
    and size: "\<And>s. 1 \<le> length (pay s)" "\<And>s. length (pay s) \<le> 9216"
  defines "db' \<equiv> run_ops short_code_step (exchange own cl request pay clk) db"
  shows "short_code_inv db'"
    and "load_short_code_attempt db' None (Some (ap_attempt_id request)) = Inr (Some (attempt_at own cl request pay UNIV))"
proof -
  define d1 where "d1 = snd (short_code_step (Claim_attempt cl \<lparr>ac_version = ap_version request,
      ac_locator = ap_locator request, ac_payload = pay CredentialRequest\<rparr> (clk 1))
      (snd (short_code_step (Publish_attempt own request (clk 0)) db)))"
  let ?at = "\<lambda>d S. short_code_inv d \<and>
    load_short_code_attempt d None (Some (ap_attempt_id request)) = Inr (Some (attempt_at own cl request pay S))"
  have s1: "?at d1 {CredentialRequest}"
    using exchange_claim [where pay = pay, OF inv fresh clock(1) clock(1) clock(2,3) row room who counts size]
    unfolding d1_def by blast
  have stage: "?at (snd (short_code_step (Publish_stage q (stage_message request pay s) (clk i)) d)) (insert s S)"
    if "?at d S" "s \<notin> S" "s \<noteq> CredentialRequest" "stage_needs s \<subseteq> S"
      "stage_owner (attempt_at own cl request pay S) s = q" for d S s q i
    using exchange_stage [OF _ _ that(2-5) clock(1) size] that(1) by blast
  define d2 where "d2 = snd (short_code_step (Publish_stage own (stage_message request pay CredentialResponse) (clk 2)) d1)"
  have s2: "?at d2 (insert CredentialResponse {CredentialRequest})"
    unfolding d2_def by (rule stage [OF s1]) (simp_all add: attempt_at_def)
  define d3 where "d3 = snd (short_code_step (Publish_stage cl (stage_message request pay ClaimantFinalization) (clk 3)) d2)"
  have s3: "?at d3 (insert ClaimantFinalization (insert CredentialResponse {CredentialRequest}))"
    unfolding d3_def by (rule stage [OF s2]) (simp_all add: attempt_at_def)
  define d4 where "d4 = snd (short_code_step (Publish_stage own (stage_message request pay CreatorIdentity) (clk 4)) d3)"
  have s4: "?at d4 (insert CreatorIdentity (insert ClaimantFinalization (insert CredentialResponse {CredentialRequest})))"
    unfolding d4_def by (rule stage [OF s3]) (simp_all add: attempt_at_def)
  define d5 where "d5 = snd (short_code_step (Publish_stage own (stage_message request pay CreatorConfirmation) (clk 5)) d4)"
  have s5: "?at d5 (insert CreatorConfirmation (insert CreatorIdentity (insert ClaimantFinalization (insert CredentialResponse {CredentialRequest}))))"
    unfolding d5_def by (rule stage [OF s4]) (simp_all add: attempt_at_def)
  define d6 where "d6 = snd (short_code_step (Publish_stage cl (stage_message request pay ClaimantConfirmation) (clk 6)) d5)"
  have s6: "?at d6 (insert ClaimantConfirmation (insert CreatorConfirmation (insert CreatorIdentity (insert ClaimantFinalization (insert CredentialResponse {CredentialRequest})))))"
    unfolding d6_def by (rule stage [OF s5]) (simp_all add: attempt_at_def)
  define d7 where "d7 = snd (short_code_step (Publish_stage own (stage_message request pay Capability) (clk 7)) d6)"
  have s7: "?at d7 (insert Capability (insert ClaimantConfirmation (insert CreatorConfirmation (insert CreatorIdentity (insert ClaimantFinalization (insert CredentialResponse {CredentialRequest}))))))"
    unfolding d7_def by (rule stage [OF s6]) (simp_all add: attempt_at_def)
  have "(insert Capability (insert ClaimantConfirmation (insert CreatorConfirmation (insert CreatorIdentity (insert ClaimantFinalization (insert CredentialResponse {CredentialRequest})))))) = UNIV"
    by (auto, metis short_code_relay_stage.exhaust)
  with s7 have final: "?at d7 UNIV" by simp
  have "db' = d7"
    by (simp only: db'_def exchange_def run_ops.simps d1_def d2_def d3_def d4_def d5_def d6_def d7_def)
  with final show "short_code_inv db'"
    and "load_short_code_attempt db' None (Some (ap_attempt_id request)) = Inr (Some (attempt_at own cl request pay UNIV))"
    by simp_all
qed

text \<open>
  C29: An exchange that follows the protocol is delivered. From any state the relay can
  reach, if the locator and attempt identifier are unused, the creator and the relay have
  room, the claimant is not over the claim limits, the payloads have 1 to 9,216 bytes and
  every clock is before a valid deadline, then publishing, claiming and the six further
  stages succeed and the claimant's take returns exactly the creator's capability.
\<close>
theorem exchange_delivers:
  fixes ops
  defines "db \<equiv> run_ops short_code_step ops empty_short_code_db"
  assumes "locator_bytes (ap_locator request) \<notin> at_locator ` set (sc_attempts db)"
    and "attempt_id_bytes (ap_attempt_id request) \<notin> at_attempt_id ` set (sc_attempts db)"
    and "\<And>i. clk i < ap_deadline_unix_seconds request"
    and "ap_deadline_unix_seconds request \<le> saturating_add_u64 (clk 0) SHORT_CODE_ATTEMPT_LIFETIME_SECONDS"
    and "unat (ap_deadline_unix_seconds request) < 2 ^ 63"
    and "attempt_row_check (attempt_row_of own request)"
    and "length (active_rows (sc_attempts db)) < 1000"
    and "length (filter (\<lambda>r. at_owner_principal_id r = principal_id_bytes own) (active_rows (sc_attempts db))) < 8"
    and "cl \<noteq> own" and "length (principal_id_bytes cl) = 32" and "length (take_id_bytes take_id) = 16"
    and "claims_by (principal_id_bytes cl) (window_of (clk 1)) (sc_rates db) < 10"
    and "claims_on (locator_bytes (ap_locator request)) (window_of (clk 1)) (sc_rates db) < 5"
    and "\<And>s. 1 \<le> length (pay s)" and "\<And>s. length (pay s) \<le> 9216"
  shows "fst (take_short_code_capability cl
      \<lparr>ct_version = ap_version request, ct_attempt_id = ap_attempt_id request, ct_take_id = take_id\<rparr> (clk 8)
      (run_ops short_code_step (exchange own cl request pay clk) db)) = Inr (pay Capability)"
proof -
  let ?d = "run_ops short_code_step (exchange own cl request pay clk) db"
  let ?t = "\<lparr>ct_version = ap_version request, ct_attempt_id = ap_attempt_id request, ct_take_id = take_id\<rparr>"
  let ?a = "attempt_at own cl request pay UNIV"
  have inv: "short_code_inv db" unfolding db_def by (rule relay_short_code.run_invar [OF short_code_inv_empty])
  note reached = exchange_reaches [where clk = clk and pay = pay, OF inv assms(2-11) assms(13-16)]
  have "decide_short_code_capability_take cl ?t ?a (clk 8) = Inr CapabilityConsume"
    using assms(4) [of 8] by (simp add: decide_short_code_capability_take_def attempt_at_def not_le)
  moreover have "load_short_code_attempt ?d None (Some (ct_attempt_id ?t)) = Inr (Some ?a)" using reached(2) by simp
  moreover have "length (take_id_bytes (ct_take_id ?t)) = 16" using assms(12) by simp
  ultimately obtain d' payload where "take_short_code_capability cl ?t (clk 8) ?d = (Inr payload, d')"
    "sa_messages ?a Capability = Some payload"
    using take_succeeds [OF reached(1)] by blast
  then show ?thesis by (simp add: attempt_at_def)
qed

section \<open>What nobody can change\<close>

text \<open>
  A capability has one take. After a take with one identifier, and through any
  operations before the deadline, no take of the attempt with another identifier succeeds,
  and an exact retry by the claimant returns the same capability unless the attempt was
  cancelled in between.
\<close>
lemma capability_taken_once:
  fixes ops later
  defines "db \<equiv> run_ops short_code_step ops empty_short_code_db"
  assumes "take_short_code_capability who request now db = (Inr payload, db')"
    and "load_short_code_attempt db None (Some (ct_attempt_id request)) = Inr (Some a)"
    and "\<forall>op \<in> set later. short_code_clock op < ap_deadline_unix_seconds (sa_publish a)"
  defines "db'' \<equiv> run_ops short_code_step later db'"
  shows "(ct_attempt_id request' = ct_attempt_id request \<and> ct_take_id request' \<noteq> ct_take_id request \<longrightarrow>
      (\<nexists>p. fst (take_short_code_capability who' request' now' db'') = Inr p)) \<and>
    (\<forall>b. load_short_code_attempt db'' None (Some (ct_attempt_id request)) = Inr (Some b) \<and> \<not> sa_cancelled b \<and>
      now' < ap_deadline_unix_seconds (sa_publish a) \<and> length (take_id_bytes (ct_take_id request)) = 16 \<longrightarrow>
      fst (take_short_code_capability who request now' db'') = Inr payload)"
proof -
  have inv: "short_code_inv db" unfolding db_def by (rule relay_short_code.run_invar [OF short_code_inv_empty])
  let ?a' = "consume_capability (ct_take_id request) a"
  obtain a0 where a0: "load_short_code_attempt db None (Some (ct_attempt_id request)) = Inr (Some a0)"
    "load_short_code_attempt db' None (Some (ct_attempt_id request)) = Inr (Some (consume_capability (ct_take_id request) a0))"
    "sa_messages a0 Capability = Some payload" "sa_claimant a0 = Some who" "\<not> sa_cancelled a0"
    "now < ap_deadline_unix_seconds (sa_publish a0)" "ap_version (sa_publish a0) = ct_version request" "short_code_inv db'"
    by (rule take_refines [OF inv assms(2)])
  have "a0 = a" using a0(1) assms(3) by simp
  note a = a0(2-8) [unfolded this]
  have inv'': "short_code_inv db''" unfolding db''_def by (rule relay_short_code.run_invar [OF a(7)])
  have clocks: "\<forall>op \<in> set later. short_code_clock op < ap_deadline_unix_seconds (sa_publish ?a')"
    using assms(4) by (simp add: consume_capability_def)
  note kept = later_attempt [OF a(7) a(1) clocks, folded db''_def]
  have once: "\<nexists>p. fst (take_short_code_capability who' request' now' db'') = Inr p"
    if same: "ct_attempt_id request' = ct_attempt_id request" and other: "ct_take_id request' \<noteq> ct_take_id request"
  proof
    assume "\<exists>p. fst (take_short_code_capability who' request' now' db'') = Inr p"
    then obtain p d where run: "take_short_code_capability who' request' now' db'' = (Inr p, d)"
      by (metis prod.collapse)
    from inv'' run show False
    proof (cases rule: capability_cases)
      case (identical row q)
      note row = cleaned_row [OF inv'' identical(4)]
      have "load_short_code_attempt db'' None (Some (ct_attempt_id request)) = Inr (Some (stored_of db'' row))"
        by (rule load_stored_row [OF inv'' row(1)]) (use identical(5) same in simp)
      from kept(5) [OF this] decide_take_Inr(5) [OF identical(6)] other show False
        by (auto simp: consume_capability_def row(2))
    next
      case (consumed row row' q)
      note row = cleaned_row [OF inv'' consumed(3)]
      have "load_short_code_attempt db'' None (Some (ct_attempt_id request)) = Inr (Some (stored_of db'' row))"
        by (rule load_stored_row [OF inv'' row(1)]) (use consumed(4) same in simp)
      from kept(5) [OF this] decide_take_Inr(5) [OF consumed(5)] show False
        by (auto simp: consume_capability_def row(2))
    qed simp
  qed
  have retry: "fst (take_short_code_capability who request now' db'') = Inr payload"
    if b: "load_short_code_attempt db'' None (Some (ct_attempt_id request)) = Inr (Some b)" "\<not> sa_cancelled b"
      and now': "now' < ap_deadline_unix_seconds (sa_publish a)" and len: "length (take_id_bytes (ct_take_id request)) = 16" for b
  proof -
    note k = kept [OF b(1)]
    have msgs: "sa_messages b Capability = Some payload"
      using k(6) a(2) by (force simp: map_le_def consume_capability_def)
    have closed: "sa_messages b s \<noteq> None" for s
      by (rule closed_with_capability [OF loaded_ok(1) [OF inv'' b(1)]]) (simp add: msgs)
    have "decide_short_code_capability_take who request b now' = Inr CapabilityIdentical"
      using k(1,3,5) a(3,6) b(2) now' closed
      by (simp add: decide_short_code_capability_take_def consume_capability_def not_le)
    from take_succeeds [OF inv'' b(1) this len] msgs show ?thesis by (metis fst_conv option.inject)
  qed
  from once retry show ?thesis by blast
qed

text \<open>
  An attempt has one claimant. After a successful claim, and through any operations
  before the deadline, no other principal's claim on the locator succeeds.
\<close>
lemma claim_exclusive:
  fixes ops later
  defines "db \<equiv> run_ops short_code_step ops empty_short_code_db"
  assumes "claim_short_code_attempt who request now db = (Inr snapshot, db')"
    and "\<forall>op \<in> set later. short_code_clock op < as_deadline_unix_seconds snapshot"
    and "ac_locator request' = ac_locator request" and "who' \<noteq> who"
  shows "\<nexists>s. fst (claim_short_code_attempt who' request' now' (run_ops short_code_step later db')) = Inr s"
proof
  let ?d = "run_ops short_code_step later db'"
  have inv: "short_code_inv db" unfolding db_def by (rule relay_short_code.run_invar [OF short_code_inv_empty])
  have inv': "short_code_inv db'"
    using short_code_step_effect [OF inv, of "Claim_attempt who request now"] assms(2) by simp
  note inv'' = relay_short_code.run_invar [OF inv', of later]
  have "\<exists>r \<in> set (sc_attempts db'). at_locator r = locator_bytes (ac_locator request) \<and>
      at_claimant_principal_id r = Some (principal_id_bytes who) \<and>
      ap_deadline_unix_seconds (publish_of r) = as_deadline_unix_seconds snapshot"
    using inv assms(2)
  proof (cases rule: claim_attempt_cases)
    case (identical row s)
    then show ?thesis using snapshot_fields(3) [OF identical(7)] by auto
  next
    case (claimed row row' s)
    then show ?thesis using snapshot_fields(3) [OF claimed(15)] by (intro bexI [of _ row']) auto
  qed simp_all
  then obtain r where r: "r \<in> set (sc_attempts db')" "at_locator r = locator_bytes (ac_locator request)"
    "at_claimant_principal_id r = Some (principal_id_bytes who)"
    "ap_deadline_unix_seconds (publish_of r) = as_deadline_unix_seconds snapshot" by blast
  have "\<forall>op \<in> set later. int (unat (short_code_clock op)) < at_deadline_unix_seconds r"
    using assms(3) clock_before_deadline [OF inv' r(1)] r(4) by simp
  from run_keeps_attempt [OF inv' r(1) this] obtain q where q: "q \<in> set (sc_attempts ?d)" "row_le db' r ?d q" by blast
  assume "\<exists>s. fst (claim_short_code_attempt who' request' now' ?d) = Inr s"
  then obtain s e where run: "claim_short_code_attempt who' request' now' ?d = (Inr s, e)" by (metis prod.collapse)
  have loc: "p = q" if "p \<in> set (sc_attempts ?d)" "at_locator p = locator_bytes (ac_locator request')" for p
  proof -
    have "at_locator p = at_locator q" using that(2) q(2) r(2) assms(4) by (simp add: row_le_def)
    then show ?thesis using inv'' that(1) q(1) by (auto simp: short_code_inv_def distinct_map inj_on_def)
  qed
  have bytes: "principal_id_bytes who' \<noteq> principal_id_bytes who" using assms(5) by (auto dest: relay_principal_id.expand)
  have claimant: "at_claimant_principal_id q = Some (principal_id_bytes who)" using q(2) r(3) by (simp add: row_le_def)
  from inv'' run show False
  proof (cases rule: claim_attempt_cases)
    case (identical row t)
    then show False using loc [OF cleaned_row(1) [OF inv'' identical(4)] identical(5)] claimant bytes by simp
  next
    case (claimed row row' t)
    then show False using loc [OF cleaned_row(1) [OF inv'' claimed(3)] claimed(4)] claimant by simp
  qed simp_all
qed

text \<open>
  Cancellation is final. After a participant cancels an attempt, and through any
  operations before its deadline, no stage is accepted for it, it cannot be read and its
  capability cannot be taken.
\<close>
lemma cancel_final:
  fixes ops later
  defines "db \<equiv> run_ops short_code_step ops empty_short_code_db"
  assumes "cancel_short_code_attempt who request now db = (Inr (), db')"
    and "load_short_code_attempt db None (Some (ar_attempt_id request)) = Inr (Some a)"
    and "\<forall>op \<in> set later. short_code_clock op < ap_deadline_unix_seconds (sa_publish a)"
    and "am_attempt_id mreq = ar_attempt_id request" and "ar_attempt_id rreq = ar_attempt_id request"
    and "ct_attempt_id treq = ar_attempt_id request"
  defines "db'' \<equiv> run_ops short_code_step later db'"
  shows "(\<nexists>r. fst (publish_short_code_message who' mreq now' db'') = Inr r) \<and>
    (\<nexists>r. fst (read_short_code_attempt who' rreq now' db'') = Inr r) \<and>
    (\<nexists>r. fst (take_short_code_capability who' treq now' db'') = Inr r)"
proof -
  have inv: "short_code_inv db" unfolding db_def by (rule relay_short_code.run_invar [OF short_code_inv_empty])
  have inv': "short_code_inv db'"
    using short_code_step_effect [OF inv, of "Cancel_attempt who request now"] assms(2) by simp
  have inv'': "short_code_inv db''" unfolding db''_def by (rule relay_short_code.run_invar [OF inv'])
  obtain a0 where "load_short_code_attempt db None (Some (ar_attempt_id request)) = Inr (Some a0)"
    and a0: "load_short_code_attempt db' None (Some (ar_attempt_id request)) = Inr (Some (cancel a0))"
    by (rule cancel_refines [OF inv assms(2)])
  with assms(3) have "a0 = a" by simp
  with assms(4) have clocks: "\<forall>op \<in> set later. short_code_clock op < ap_deadline_unix_seconds (sa_publish (cancel a0))"
    by (simp add: cancel_def)
  have gone: "sa_cancelled (stored_of (cleaned now' db'') row)"
    if row: "row \<in> set (sc_attempts (cleaned now' db''))" "at_attempt_id row = attempt_id_bytes (ar_attempt_id request)" for row
  proof -
    note r = cleaned_row [OF inv'' row(1)]
    have "sa_cancelled (cancel a0)" by (simp add: cancel_def)
    from later_attempt(4) [OF inv' a0 clocks, folded db''_def, OF load_stored_row [OF inv'' r(1) row(2)] this]
    show ?thesis by (simp add: r(2))
  qed
  have "\<nexists>r. fst (publish_short_code_message who' mreq now' db'') = Inr r"
  proof
    assume "\<exists>r. fst (publish_short_code_message who' mreq now' db'') = Inr r"
    then obtain r d where run: "publish_short_code_message who' mreq now' db'' = (Inr r, d)" by (metis prod.collapse)
    from inv'' run show False
    proof (cases rule: stage_cases)
      case (identical row)
      with gone [of row] decide_message_identical(2) [OF identical(6)] assms(5) show False by simp
    next
      case (stored row)
      with gone [of row] decide_message_insert(2) [OF stored(5)] assms(5) show False by simp
    qed simp
  qed
  moreover have "\<nexists>r. fst (read_short_code_attempt who' rreq now' db'') = Inr r"
  proof
    assume "\<exists>r. fst (read_short_code_attempt who' rreq now' db'') = Inr r"
    then obtain r d where run: "read_short_code_attempt who' rreq now' db'' = (Inr r, d)" by (metis prod.collapse)
    from inv'' run show False
    proof (cases rule: read_cases)
      case (answered row s)
      with gone [of row] assms(6) show False by (simp add: authorize_short_code_read_def)
    qed simp
  qed
  moreover have "\<nexists>r. fst (take_short_code_capability who' treq now' db'') = Inr r"
  proof
    assume "\<exists>r. fst (take_short_code_capability who' treq now' db'') = Inr r"
    then obtain r d where run: "take_short_code_capability who' treq now' db'' = (Inr r, d)" by (metis prod.collapse)
    from inv'' run show False
    proof (cases rule: capability_cases)
      case (identical row p)
      with gone [of row] decide_take_Inr(2) [OF identical(6)] assms(7) show False by simp
    next
      case (consumed row row' p)
      with gone [of row] decide_take_Inr(2) [OF consumed(5)] assms(7) show False by simp
    qed simp
  qed
  ultimately show ?thesis by blast
qed

text \<open>
  A snapshot never shows the capability. What a read or a claim returns is exactly the
  stored stages other than the capability, in strictly increasing stage order, and a read
  is answered only to the creator or the claimant.
\<close>
lemma snapshot_hides_capability:
  fixes ops
  defines "db \<equiv> run_ops short_code_step ops empty_short_code_db"
  assumes "read_short_code_attempt who rreq now db = (Inr snapshot, db') \<or>
    claim_short_code_attempt who creq now db = (Inr snapshot, db')"
  shows "sorted_wrt (\<lambda>x y. rm_stage x < rm_stage y) (as_messages snapshot) \<and>
    Capability \<notin> rm_stage ` set (as_messages snapshot) \<and>
    (\<exists>a. load_short_code_attempt db' None (Some (as_attempt_id snapshot)) = Inr (Some a) \<and>
      (\<forall>s p. s \<noteq> Capability \<longrightarrow> (\<lparr>rm_stage = s, rm_payload = p\<rparr> \<in> set (as_messages snapshot) \<longleftrightarrow> sa_messages a s = Some p)) \<and>
      (who = sa_owner a \<or> Some who = sa_claimant a))"
proof -
  have inv: "short_code_inv db" unfolding db_def by (rule relay_short_code.run_invar [OF short_code_inv_empty])
  have "\<exists>a. short_code_inv db' \<and> load_short_code_attempt db' None (Some (as_attempt_id snapshot)) = Inr (Some a) \<and>
      short_code_snapshot a = Inr snapshot \<and> (who = sa_owner a \<or> Some who = sa_claimant a)"
    using assms(2)
  proof
    assume "read_short_code_attempt who rreq now db = (Inr snapshot, db')"
    with inv show ?thesis
    proof (cases rule: read_cases)
      case (answered row s)
      have id: "as_attempt_id snapshot = ShortCodePairingAttemptId (at_attempt_id row)"
        using snapshot_fields(2) [OF answered(7)] answered(1) by simp
      have "who = sa_owner (stored_of (cleaned now db) row) \<or> Some who = sa_claimant (stored_of (cleaned now db) row)"
        using answered(6) by (auto simp: authorize_short_code_read_def split: if_splits)
      then show ?thesis
        using load_row [OF cleaned_inv [OF inv] answered(4)] cleaned_inv [OF inv] answered(1,3,7) id by auto
    qed simp
  next
    assume run: "claim_short_code_attempt who creq now db = (Inr snapshot, db')"
    from inv run show ?thesis
    proof (cases rule: claim_attempt_cases)
      case (identical row s)
      have id: "as_attempt_id snapshot = ShortCodePairingAttemptId (at_attempt_id row)"
        using snapshot_fields(2) [OF identical(7)] identical(1) by simp
      have "sa_claimant (stored_of (cleaned now db) row) = Some who"
        using identical(6) by (simp add: RelayPrincipalId_eq_iff)
      then show ?thesis
        using load_row [OF cleaned_inv [OF inv] identical(4)] cleaned_inv [OF inv] identical(1,3,7) id by auto
    next
      case (claimed row row' s)
      have id: "as_attempt_id snapshot = ShortCodePairingAttemptId (at_attempt_id row')"
        using snapshot_fields(2) [OF claimed(15)] claimed(1) by simp
      have "sa_claimant (stored_of db' row') = Some who" unfolding claimed(14) by simp
      then show ?thesis
        using load_row [OF claimed(10,12)] claimed(1,10,15) id by auto
    qed simp_all
  qed
  then obtain a where a: "short_code_inv db'" "load_short_code_attempt db' None (Some (as_attempt_id snapshot)) = Inr (Some a)"
    "short_code_snapshot a = Inr snapshot" "who = sa_owner a \<or> Some who = sa_claimant a" by blast
  have msgs: "as_messages snapshot = shown_messages (sa_messages a)"
    using loaded_snapshot [OF a(1,2)] a(3) by auto
  have "\<forall>s p. s \<noteq> Capability \<longrightarrow> (\<lparr>rm_stage = s, rm_payload = p\<rparr> \<in> set (shown_messages (sa_messages a)) \<longleftrightarrow> sa_messages a s = Some p)"
    by (auto simp: shown_messages_def)
  moreover have "Capability \<notin> rm_stage ` set (shown_messages (sa_messages a))" by (auto simp: shown_messages_def)
  ultimately show ?thesis using shown_messages_sorted a(2,4) unfolding msgs by blast
qed

section \<open>Guessing locators\<close>

lemma window_of_eq_iff: "window_of t = window_of u \<longleftrightarrow> unat t div 600 = unat u div 600"
proof -
  have block: "n - n mod 600 = 600 * (n div 600)" for n :: nat by (simp add: minus_mod_eq_mult_div)
  show ?thesis unfolding window_of_def block by (simp only: of_nat_eq_iff) simp
qed

lemma window_of_mono: "t \<le> u \<Longrightarrow> window_of t \<le> window_of u"
proof -
  have block: "n - n mod 600 = 600 * (n div 600)" for n :: nat by (simp add: minus_mod_eq_mult_div)
  assume "t \<le> u"
  then show ?thesis unfolding window_of_def block by (simp add: word_le_nat_alt div_le_mono)
qed

text \<open>The counters that a clean-up at \<open>now\<close> leaves alone.\<close>

lemma cleaned_claims:
  assumes "window_of now \<le> w"
  shows "claims_by p w (sc_rates (cleaned now db)) = claims_by p w (sc_rates db)"
    and "claims_on l w (sc_rates (cleaned now db)) = claims_on l w (sc_rates db)"
proof -
  have "filter (\<lambda>r. cr_window_start r = w) (sc_rates (cleaned now db)) = filter (\<lambda>r. cr_window_start r = w) (sc_rates db)"
    using assms by (auto simp: cleaned_rates intro: filter_cong)
  then show "claims_by p w (sc_rates (cleaned now db)) = claims_by p w (sc_rates db)"
    "claims_on l w (sc_rates (cleaned now db)) = claims_on l w (sc_rates db)"
    by (simp_all add: claims_by_def claims_on_def)
qed

text \<open>One claim of a locator under which nothing is published: the answer, and what is counted.\<close>

lemma guess_effect:
  fixes who request now db
  defines "p \<equiv> principal_id_bytes who" and "l \<equiv> locator_bytes (ac_locator request)" and "w \<equiv> window_of now"
  assumes inv: "short_code_inv db" and now: "unat now < 2 ^ 63" and len: "length p = 32" "length l = 32"
    and absent: "\<forall>r \<in> set (sc_attempts db). at_locator r \<noteq> l" and room: "claims_on l w (sc_rates db) < 5"
  obtains db' where "claim_short_code_attempt who request now db =
      (Inl (if 10 \<le> claims_by p w (sc_rates db) then ShortCodeClaimRateLimited else ShortCodeAttemptUnavailable), db')"
    "short_code_inv db'" "set (sc_attempts db') \<subseteq> set (sc_attempts db)"
    "\<And>q v. w \<le> v \<Longrightarrow> claims_by q v (sc_rates db') = claims_by q v (sc_rates db) +
       (if claims_by p w (sc_rates db) < 10 \<and> q = p \<and> v = w then 1 else 0)"
    "\<And>m v. w \<le> v \<Longrightarrow> claims_on m v (sc_rates db') = claims_on m v (sc_rates db) +
       (if claims_by p w (sc_rates db) < 10 \<and> m = l \<and> v = w then 1 else 0)"
proof -
  define c where "c = cleaned now db"
  have inv': "short_code_inv c" unfolding c_def by (rule cleaned_inv [OF inv])
  have rates: "rates_ok (sc_rates c)" using inv' by (simp add: short_code_inv_def)
  have sub: "set (sc_attempts c) \<subseteq> set (sc_attempts db)" by (auto simp: c_def cleaned_attempts)
  note same = cleaned_claims [of now _ _ db, folded c_def w_def]
  have load: "load_short_code_attempt c (Some (ac_locator request)) None = Inr None"
    using absent sub by (intro load_absent) (force simp: filter_empty_conv l_def)
  have counts: "short_code_claim_counts c who (ac_locator request) now =
      Inr (nat (claims_by p w (sc_rates db)), nat (claims_on l w (sc_rates db)))"
    using claim_counts_eq [OF now rates] same [of w] by (simp add: p_def l_def w_def)
  have small: "nat (claims_on l w (sc_rates db)) < 5"
    "10 \<le> nat (claims_by p w (sc_rates db)) \<longleftrightarrow> 10 \<le> claims_by p w (sc_rates db)"
    "nat (claims_by p w (sc_rates db)) < 10 \<longleftrightarrow> \<not> 10 \<le> claims_by p w (sc_rates db)" using room by linarith+
  have "decide_short_code_claim who request None now (nat (claims_by p w (sc_rates db))) (nat (claims_on l w (sc_rates db))) =
      Inl (if 10 \<le> claims_by p w (sc_rates db) then ShortCodeClaimRateLimited else ShortCodeAttemptUnavailable)"
    using small by (simp add: decide_short_code_claim_def decide_first_claim_def short_code_limits)
  then have run: "claim_attempt_transaction who request now db =
      (if 10 \<le> claims_by p w (sc_rates db) then Inl ShortCodeClaimRateLimited
       else and_then (record_short_code_claim who (ac_locator request) now c) (\<lambda>db. Inr (Inl ShortCodeAttemptUnavailable, db)))"
    unfolding claim_attempt_transaction_def short_code_cleanup_eq
    using now small by (simp add: c_def [symmetric] load counts short_code_limits)
  show thesis
  proof (cases "10 \<le> claims_by p w (sc_rates db)")
    case True
    then have "claim_attempt_transaction who request now db = Inl ShortCodeClaimRateLimited"
      unfolding run by simp
    then have "claim_short_code_attempt who request now db = (Inl ShortCodeClaimRateLimited, db)"
      by (simp add: claim_short_code_attempt_def transact_def)
    then show thesis using that [of db] True inv by simp
  next
    case False
    let ?rate = "\<lparr>cr_locator = l, cr_principal_id = p, cr_window_start = w, cr_attempts = 1\<rparr>"
    have "0 \<le> w" unfolding w_def window_of_def by (rule of_nat_0_le_iff)
    then have "claim_rate_row_check ?rate" using len by (simp add: claim_rate_row_check_def)
    moreover have "claims_on (cr_locator ?rate) (cr_window_start ?rate) (sc_rates c) < 5" using room same(2) [of w l] by simp
    moreover have "\<forall>r \<in> set (sc_rates c). claim_rate_row_check r" using rates by (simp add: rates_ok_def)
    ultimately obtain rs where up: "upsert_rate ?rate (sc_rates c) = Some rs" using upsert_rate_succeeds by blast
    have ok: "rates_ok rs"
      by (rule rates_ok_upsert [OF rates up]) (use False room same(1) [of w p] same(2) [of w l] in simp_all)
    have "record_short_code_claim who (ac_locator request) now c = Inr (c\<lparr>sc_rates := rs\<rparr>)"
      unfolding record_short_code_claim_def short_code_claim_window_eq [OF now] Let_def
      using up by (simp add: p_def l_def w_def)
    then have "claim_attempt_transaction who request now db = Inr (Inl ShortCodeAttemptUnavailable, c\<lparr>sc_rates := rs\<rparr>)"
      unfolding run using False by simp
    then have "claim_short_code_attempt who request now db = (Inl ShortCodeAttemptUnavailable, c\<lparr>sc_rates := rs\<rparr>)"
      by (simp add: claim_short_code_attempt_def transact_def)
    moreover have "short_code_inv (c\<lparr>sc_rates := rs\<rparr>)" by (rule short_code_inv_rates [OF inv' refl ok])
    ultimately show thesis
      using that [of "c\<lparr>sc_rates := rs\<rparr>"] False sub same
      by (simp add: claims_by_upsert [OF up] claims_on_upsert [OF up])
  qed
qed

text \<open>The state after a sequence of such claims, and what it has counted in the current window or a later one.\<close>

abbreviation guesses :: "relay_principal_id \<Rightarrow> (attempt_claim_request \<times> u64) list \<Rightarrow> short_code_op list" where
  "guesses who gs \<equiv> map (\<lambda>(request, now). Claim_attempt who request now) gs"

definition guessable :: "short_code_db \<Rightarrow> attempt_claim_request \<times> u64 \<Rightarrow> bool" where
  "guessable db = (\<lambda>(request, now). unat now < 2 ^ 63 \<and> length (locator_bytes (ac_locator request)) = 32 \<and>
     (\<forall>r \<in> set (sc_attempts db). at_locator r \<noteq> locator_bytes (ac_locator request)) \<and>
     (\<forall>w. claims_on (locator_bytes (ac_locator request)) w (sc_rates db) = 0))"

lemma guesses_counted:
  assumes inv: "short_code_inv db" and who: "length (principal_id_bytes who) = 32"
    and fresh: "\<forall>w. claims_by (principal_id_bytes who) w (sc_rates db) = 0"
  defines "after \<equiv> \<lambda>gs. run_ops short_code_step (guesses who gs) db"
  shows "\<forall>g \<in> set gs. guessable db g \<Longrightarrow> distinct (map (locator_bytes \<circ> ac_locator \<circ> fst) gs) \<Longrightarrow> sorted (map snd gs) \<Longrightarrow>
    short_code_inv (after gs) \<and> set (sc_attempts (after gs)) \<subseteq> set (sc_attempts db) \<and>
    (\<forall>w. (\<forall>g \<in> set gs. window_of (snd g) \<le> w) \<longrightarrow>
       claims_by (principal_id_bytes who) w (sc_rates (after gs)) =
         min 10 (int (length (filter (\<lambda>g. window_of (snd g) = w) gs))) \<and>
       (\<forall>l. l \<notin> (locator_bytes \<circ> ac_locator \<circ> fst) ` set gs \<longrightarrow>
          claims_on l w (sc_rates (after gs)) = claims_on l w (sc_rates db)))"
proof (induction gs rule: rev_induct)
  case Nil
  then show ?case using inv fresh by (simp add: after_def)
next
  case (snoc g gs)
  obtain request now where g: "g = (request, now)" by fastforce
  let ?l = "locator_bytes (ac_locator request)" and ?p = "principal_id_bytes who" and ?w = "window_of now"
  let ?db = "after gs"
  have IH: "short_code_inv ?db" "set (sc_attempts ?db) \<subseteq> set (sc_attempts db)"
    "\<And>w. \<forall>g \<in> set gs. window_of (snd g) \<le> w \<Longrightarrow>
       claims_by ?p w (sc_rates ?db) = min 10 (int (length (filter (\<lambda>g. window_of (snd g) = w) gs)))"
    "\<And>w l. \<forall>g \<in> set gs. window_of (snd g) \<le> w \<Longrightarrow> l \<notin> (locator_bytes \<circ> ac_locator \<circ> fst) ` set gs \<Longrightarrow>
       claims_on l w (sc_rates ?db) = claims_on l w (sc_rates db)"
    using snoc by (simp_all add: sorted_append)
  have g': "guessable db (request, now)" "?l \<notin> (locator_bytes \<circ> ac_locator \<circ> fst) ` set gs"
    and upto: "\<forall>g \<in> set gs. window_of (snd g) \<le> ?w"
    using snoc.prems g by (auto simp: sorted_append window_of_mono)
  have "claims_on ?l ?w (sc_rates ?db) < 5" using IH(4) [OF upto g'(2)] g'(1) by (simp add: guessable_def)
  then obtain db' where run: "claim_short_code_attempt who request now ?db =
      (Inl (if 10 \<le> claims_by ?p ?w (sc_rates ?db) then ShortCodeClaimRateLimited else ShortCodeAttemptUnavailable), db')"
    and db': "short_code_inv db'" "set (sc_attempts db') \<subseteq> set (sc_attempts ?db)"
    "\<And>q v. ?w \<le> v \<Longrightarrow> claims_by q v (sc_rates db') = claims_by q v (sc_rates ?db) +
       (if claims_by ?p ?w (sc_rates ?db) < 10 \<and> q = ?p \<and> v = ?w then 1 else 0)"
    "\<And>m v. ?w \<le> v \<Longrightarrow> claims_on m v (sc_rates db') = claims_on m v (sc_rates ?db) +
       (if claims_by ?p ?w (sc_rates ?db) < 10 \<and> m = ?l \<and> v = ?w then 1 else 0)"
    using guess_effect [OF IH(1), of now who request] g'(1) IH(2) who unfolding guessable_def by blast
  have after: "after (gs @ [g]) = db'" using run by (simp add: after_def g)
  have "claims_by ?p w (sc_rates db') = min 10 (int (length (filter (\<lambda>g. window_of (snd g) = w) (gs @ [g]))))"
    if w: "\<forall>g \<in> set (gs @ [g]). window_of (snd g) \<le> w" for w
    using db'(3) [of w ?p] IH(3) [of w] IH(3) [OF upto] w by (cases "w = ?w") (simp_all add: g)
  moreover have "claims_on l w (sc_rates db') = claims_on l w (sc_rates db)"
    if "\<forall>g \<in> set (gs @ [g]). window_of (snd g) \<le> w" "l \<notin> (locator_bytes \<circ> ac_locator \<circ> fst) ` set (gs @ [g])" for w l
    using db'(4) [of w l] IH(4) [of w l] that by (simp add: g)
  ultimately show ?case unfolding after using db'(1,2) IH(2) by blast
qed

text \<open>
  C32: Claims are limited per fixed window of ten minutes, aligned to multiples of 600
  seconds, not per sliding window. A principal that has claimed nothing yet claims
  unpublished locators, each once, with clocks that do not run backwards. Then a claim is
  answered as rate limited exactly when at least ten of its earlier claims fall in the same
  aligned block of 600 seconds, however recent the others are, and as unavailable otherwise.
  So ten claims in the second 599 do not limit a claim in the second 600. This holds from
  every state the relay can reach in which nothing is published under these locators and no
  claim of the principal or of the locators is counted.
\<close>
theorem claim_window_fixed:
  fixes ops
  defines "db \<equiv> run_ops short_code_step ops empty_short_code_db"
  assumes "length (principal_id_bytes who) = 32"
    and "\<forall>w. claims_by (principal_id_bytes who) w (sc_rates db) = 0"
    and "\<forall>g \<in> set (gs @ [(request, now)]). guessable db g"
    and "distinct (map (locator_bytes \<circ> ac_locator \<circ> fst) (gs @ [(request, now)]))"
    and "sorted (map snd (gs @ [(request, now)]))"
  shows "fst (claim_short_code_attempt who request now (run_ops short_code_step (guesses who gs) db)) =
    Inl (if 10 \<le> length (filter (\<lambda>g. unat (snd g) div 600 = unat now div 600) gs)
         then ShortCodeClaimRateLimited else ShortCodeAttemptUnavailable)"
proof -
  have inv: "short_code_inv db" unfolding db_def by (rule relay_short_code.run_invar [OF short_code_inv_empty])
  let ?l = "locator_bytes (ac_locator request)" and ?p = "principal_id_bytes who" and ?w = "window_of now"
  let ?db = "run_ops short_code_step (guesses who gs) db"
  have gs: "\<forall>g \<in> set gs. guessable db g" "distinct (map (locator_bytes \<circ> ac_locator \<circ> fst) gs)" "sorted (map snd gs)"
    and g: "guessable db (request, now)" "?l \<notin> (locator_bytes \<circ> ac_locator \<circ> fst) ` set gs"
    and upto: "\<forall>g \<in> set gs. window_of (snd g) \<le> ?w"
    using assms(4-6) by (auto simp: sorted_append window_of_mono)
  note counted = guesses_counted [OF inv assms(2,3) gs]
  have reached: "short_code_inv ?db" "set (sc_attempts ?db) \<subseteq> set (sc_attempts db)"
    and count: "claims_by ?p ?w (sc_rates ?db) = min 10 (int (length (filter (\<lambda>g. window_of (snd g) = ?w) gs)))"
    and same: "claims_on ?l ?w (sc_rates ?db) = claims_on ?l ?w (sc_rates db)"
    using counted upto g(2) by blast+
  have on: "claims_on ?l ?w (sc_rates ?db) < 5" unfolding same using g(1) by (simp add: guessable_def)
  have request: "unat now < 2 ^ 63" "length ?l = 32" "\<forall>r \<in> set (sc_attempts db). at_locator r \<noteq> ?l"
    using g(1) by (simp_all add: guessable_def)
  have absent: "\<forall>r \<in> set (sc_attempts ?db). at_locator r \<noteq> ?l" using request(3) reached(2) by blast
  obtain db' where "claim_short_code_attempt who request now ?db =
      (Inl (if 10 \<le> claims_by ?p ?w (sc_rates ?db) then ShortCodeClaimRateLimited else ShortCodeAttemptUnavailable), db')"
    by (rule guess_effect [OF reached(1) request(1) assms(2) request(2) absent on]) (erule that)
  then show ?thesis unfolding count by (simp add: window_of_eq_iff)
qed

section \<open>Witnesses\<close>

definition pairing_sample_own :: relay_principal_id where "pairing_sample_own = RelayPrincipalId (replicate 32 1)"
definition pairing_sample_cl :: relay_principal_id where "pairing_sample_cl = RelayPrincipalId (replicate 32 2)"
definition pairing_sample_third :: relay_principal_id where "pairing_sample_third = RelayPrincipalId (replicate 32 3)"

definition pairing_sample_request :: attempt_publish_request where
  "pairing_sample_request = \<lparr>ap_version = \<lparr>major = 1, minor = 0\<rparr>, ap_locator = ShortCodePairingLocator (replicate 32 4),
     ap_attempt_id = ShortCodePairingAttemptId (replicate 16 5), ap_deadline_unix_seconds = 600\<rparr>"

definition pairing_sample_claim :: attempt_claim_request where
  "pairing_sample_claim = \<lparr>ac_version = ap_version pairing_sample_request, ac_locator = ap_locator pairing_sample_request, ac_payload = [7]\<rparr>"

definition pairing_sample_read :: attempt_read_request where
  "pairing_sample_read = \<lparr>ar_version = ap_version pairing_sample_request, ar_attempt_id = ap_attempt_id pairing_sample_request\<rparr>"

definition pairing_sample_take_with :: "u8 \<Rightarrow> capability_take_request" where
  "pairing_sample_take_with b = \<lparr>ct_version = ap_version pairing_sample_request, ct_attempt_id = ap_attempt_id pairing_sample_request,
     ct_take_id = ShortCodeCapabilityTakeId (replicate 16 b)\<rparr>"

definition pairing_sample_exchange :: "short_code_op list" where
  "pairing_sample_exchange = exchange pairing_sample_own pairing_sample_cl pairing_sample_request (\<lambda>_. [7]) (\<lambda>_. 10)"

definition pairing_sample_exchanged :: short_code_db where
  "pairing_sample_exchanged = run_ops short_code_step pairing_sample_exchange empty_short_code_db"

lemmas pairing_sample_party_defs = pairing_sample_own_def pairing_sample_cl_def pairing_sample_third_def pairing_sample_request_def pairing_sample_claim_def
  pairing_sample_read_def pairing_sample_take_with_def

lemma pairing_sample_row: "attempt_row_check (attempt_row_of pairing_sample_own pairing_sample_request)"
  by (simp add: attempt_row_check_def attempt_row_of_def pairing_sample_party_defs)

lemma pairing_sample_deadline:
  "600 \<le> saturating_add_u64 10 SHORT_CODE_ATTEMPT_LIFETIME_SECONDS"
  by (simp add: pairing_sample_party_defs saturating_add_u64_def SHORT_CODE_ATTEMPT_LIFETIME_SECONDS_def)

lemma empty_tables [simp]:
  "sc_attempts empty_short_code_db = []" "sc_stages empty_short_code_db = []" "sc_rates empty_short_code_db = []"
  by (simp_all add: empty_short_code_db_def)

lemma empty_claims [simp]: "claims_by p w [] = 0" "claims_on l w [] = 0"
  by (simp_all add: claims_by_def claims_on_def)

lemma pairing_sample_sides [simp]:
  "ap_deadline_unix_seconds pairing_sample_request = 600"
  "pairing_sample_cl \<noteq> pairing_sample_own" "pairing_sample_third \<noteq> pairing_sample_cl" "length (principal_id_bytes pairing_sample_cl) = 32" "active_rows [] = []"
  by (simp_all add: pairing_sample_party_defs active_rows_def)

lemma pairing_sample_exchanged_inv: "short_code_inv pairing_sample_exchanged"
  unfolding pairing_sample_exchanged_def by (rule relay_short_code.run_invar [OF short_code_inv_empty])

lemma pairing_sample_exchanged_load:
  "load_short_code_attempt pairing_sample_exchanged None (Some (ap_attempt_id pairing_sample_request)) =
     Inr (Some (attempt_at pairing_sample_own pairing_sample_cl pairing_sample_request (\<lambda>_. [7]) UNIV))"
  unfolding pairing_sample_exchanged_def pairing_sample_exchange_def
  by (rule exchange_reaches(2) [OF short_code_inv_empty]) (simp_all add: pairing_sample_row pairing_sample_deadline del: One_nat_def)

lemma pairing_sample_take_run:
  obtains db' where "take_short_code_capability pairing_sample_cl (pairing_sample_take_with 6) 10 pairing_sample_exchanged = (Inr [7], db')"
proof -
  let ?a = "attempt_at pairing_sample_own pairing_sample_cl pairing_sample_request (\<lambda>_. [7]) UNIV"
  have decide: "decide_short_code_capability_take pairing_sample_cl (pairing_sample_take_with 6) ?a 10 = Inr CapabilityConsume"
    by (simp add: decide_short_code_capability_take_def attempt_at_def pairing_sample_take_with_def not_le)
  have load: "load_short_code_attempt pairing_sample_exchanged None (Some (ct_attempt_id (pairing_sample_take_with 6))) = Inr (Some ?a)"
    using pairing_sample_exchanged_load by (simp add: pairing_sample_take_with_def)
  have size: "length (take_id_bytes (ct_take_id (pairing_sample_take_with 6))) = 16" by (simp add: pairing_sample_take_with_def)
  obtain db' p where "take_short_code_capability pairing_sample_cl (pairing_sample_take_with 6) 10 pairing_sample_exchanged = (Inr p, db')"
    "sa_messages ?a Capability = Some p"
    by (rule take_succeeds [OF pairing_sample_exchanged_inv load decide size])
  then show thesis using that by (simp add: attempt_at_def)
qed

lemma pairing_sample_claim_run:
  obtains snapshot db' where "claim_short_code_attempt pairing_sample_cl pairing_sample_claim 10
      (run_ops short_code_step [Publish_attempt pairing_sample_own pairing_sample_request 10] empty_short_code_db) = (Inr snapshot, db')"
proof -
  obtain d where d: "publish_short_code_attempt pairing_sample_own pairing_sample_request 10 empty_short_code_db = (Inr AttemptPublished, d)"
    "short_code_inv d" "attempt_row_of pairing_sample_own pairing_sample_request \<in> set (sc_attempts d)" "\<exists>Q. sc_rates d = filter Q (sc_rates empty_short_code_db)"
    by (rule publish_succeeds [OF short_code_inv_empty, of pairing_sample_request 10 pairing_sample_own])
      (simp_all add: pairing_sample_row pairing_sample_deadline)
  have "sc_rates d = []" using d(4) by simp
  then obtain snapshot db' where "claim_short_code_attempt pairing_sample_cl pairing_sample_claim 10 d = (Inr snapshot, db')"
    using claim_succeeds [OF d(2,3), of pairing_sample_claim pairing_sample_cl 10]
    by (simp add: publish_of_attempt_row) (simp add: pairing_sample_party_defs, blast)
  with d(1) that show thesis by simp
qed

lemma pairing_sample_cancel_run:
  obtains db' where "cancel_short_code_attempt pairing_sample_own pairing_sample_read 10 pairing_sample_exchanged = (Inr (), db')"
proof -
  let ?a = "attempt_at pairing_sample_own pairing_sample_cl pairing_sample_request (\<lambda>_. [7]) UNIV"
  have load: "load_short_code_attempt pairing_sample_exchanged None (Some (ar_attempt_id pairing_sample_read)) = Inr (Some ?a)"
    using pairing_sample_exchanged_load by (simp add: pairing_sample_read_def)
  have clock: "10 < ap_deadline_unix_seconds (sa_publish ?a)" by (simp add: attempt_at_def)
  let ?c = "cleaned 10 pairing_sample_exchanged"
  obtain row where row: "row \<in> set (sc_attempts ?c)" "at_attempt_id row = attempt_id_bytes (ar_attempt_id pairing_sample_read)"
    by (rule loaded_cleaned [OF pairing_sample_exchanged_inv load clock])
  note inv' = cleaned_inv [OF pairing_sample_exchanged_inv, of 10]
  have "attempt_ok ?c row" using inv' row(1) by (simp add: short_code_inv_def)
  then have "attempt_row_check row" by (simp add: attempt_ok_def)
  then have check: "attempt_row_check (row\<lparr>at_cancelled := 1\<rparr>)" by (auto simp: attempt_row_check_def)
  obtain c' where up: "update_attempts (\<lambda>r. at_attempt_id r = attempt_id_bytes (ar_attempt_id pairing_sample_read)) (\<lambda>r. r\<lparr>at_cancelled := 1\<rparr>) ?c = Some (1, c')"
    by (rule update_attempts_run [OF inv' row(1), of _ "\<lambda>_. True"]) (use check row(2) in auto)
  have auth: "authorize_short_code_cancel pairing_sample_own pairing_sample_read ?a = Inr ()"
    by (simp add: authorize_short_code_cancel_def attempt_at_def pairing_sample_read_def)
  have "cancel_short_code_attempt pairing_sample_own pairing_sample_read 10 pairing_sample_exchanged = (Inr (), c')"
    unfolding cancel_short_code_attempt_def transact_def with_attempt_run [OF pairing_sample_exchanged_inv load clock]
      auth and_then.simps up by simp
  then show thesis by (rule that)
qed

theorem exchange_delivers_witness:
  "fst (take_short_code_capability pairing_sample_cl (pairing_sample_take_with 6) 10
     (run_ops short_code_step (exchange pairing_sample_own pairing_sample_cl pairing_sample_request (\<lambda>_. [7]) (\<lambda>_. 10)) empty_short_code_db)) = Inr [7]"
  using exchange_delivers [of pairing_sample_request "[]" "\<lambda>_. 10" pairing_sample_own pairing_sample_cl "ShortCodeCapabilityTakeId (replicate 16 6)" "\<lambda>_. [7]"]
    pairing_sample_row pairing_sample_deadline
  by (simp add: pairing_sample_take_with_def)

theorem capability_release_witness:
  "\<exists>db' a. take_short_code_capability pairing_sample_cl (pairing_sample_take_with 6) 10 pairing_sample_exchanged = (Inr [7], db') \<and>
     load_short_code_attempt db' None (Some (ap_attempt_id pairing_sample_request)) = Inr (Some a) \<and>
     sa_claimant a = Some pairing_sample_cl \<and> (\<forall>s. sa_messages a s \<noteq> None)"
proof -
  obtain db' where run: "take_short_code_capability pairing_sample_cl (pairing_sample_take_with 6) 10 pairing_sample_exchanged = (Inr [7], db')"
    by (rule pairing_sample_take_run)
  from capability_release [OF run [unfolded pairing_sample_exchanged_def]] run show ?thesis
    by (auto simp: pairing_sample_take_with_def)
qed

theorem short_code_stage_order_witness:
  "stage_dependencies_satisfied (attempt_at pairing_sample_own pairing_sample_cl pairing_sample_request (\<lambda>_. [7]) UNIV) Capability"
  using short_code_stage_order [OF pairing_sample_exchanged_load [unfolded pairing_sample_exchanged_def]]
  by (simp add: attempt_at_def)

theorem short_code_refines_witness:
  "\<exists>db'. load_short_code_attempt db' None (Some (ap_attempt_id pairing_sample_request)) = Inr (Some
      (consume_capability (ShortCodeCapabilityTakeId (replicate 16 6)) (attempt_at pairing_sample_own pairing_sample_cl pairing_sample_request (\<lambda>_. [7]) UNIV)))"
proof -
  obtain db' where run: "take_short_code_capability pairing_sample_cl (pairing_sample_take_with 6) 10 pairing_sample_exchanged = (Inr [7], db')"
    by (rule pairing_sample_take_run)
  have "\<exists>a. load_short_code_attempt pairing_sample_exchanged None (Some (ct_attempt_id (pairing_sample_take_with 6))) = Inr (Some a) \<and>
      load_short_code_attempt db' None (Some (ct_attempt_id (pairing_sample_take_with 6))) =
        Inr (Some (consume_capability (ct_take_id (pairing_sample_take_with 6)) a))"
    using short_code_refines [where ops = pairing_sample_exchange and who = pairing_sample_cl and treq = "pairing_sample_take_with 6" and now = 10
        and payload = "[7]" and ?db4.0 = db'] run unfolding pairing_sample_exchanged_def by blast
  then show ?thesis using pairing_sample_exchanged_load by (auto simp: pairing_sample_take_with_def)
qed

definition guess_sample :: "u8 \<Rightarrow> attempt_claim_request" where
  "guess_sample k = \<lparr>ac_version = ap_version pairing_sample_request,
     ac_locator = ShortCodePairingLocator (replicate 32 k), ac_payload = [7]\<rparr>"

definition ten_guesses :: "(attempt_claim_request \<times> u64) list" where
  "ten_guesses = map (\<lambda>k. (guess_sample k, 599)) [0, 1, 2, 3, 4, 5, 6, 7, 8, 9]"

theorem claim_window_fixed_witness:
  "fst (claim_short_code_attempt pairing_sample_cl (guess_sample 10) 599
     (run_ops short_code_step (guesses pairing_sample_cl ten_guesses) empty_short_code_db)) = Inl ShortCodeClaimRateLimited \<and>
   fst (claim_short_code_attempt pairing_sample_cl (guess_sample 10) 600
     (run_ops short_code_step (guesses pairing_sample_cl ten_guesses) empty_short_code_db)) = Inl ShortCodeAttemptUnavailable"
proof -
  have guessable: "\<forall>g \<in> set (ten_guesses @ [(guess_sample 10, t)]). guessable (run_ops short_code_step [] empty_short_code_db) g"
    if "t \<in> {599, 600}" for t
    using that by (auto simp: guessable_def ten_guesses_def guess_sample_def)
  have locators: "distinct (map (locator_bytes \<circ> ac_locator \<circ> fst) (ten_guesses @ [(guess_sample 10, t)]))" for t
    by (simp add: ten_guesses_def guess_sample_def)
  have clocks: "sorted (map snd (ten_guesses @ [(guess_sample 10, t)]))" if "t \<in> {599, 600}" for t
    using that by (auto simp: ten_guesses_def)
  have none: "\<forall>w. claims_by (principal_id_bytes pairing_sample_cl) w (sc_rates (run_ops short_code_step [] empty_short_code_db)) = 0"
    by simp
  note window = claim_window_fixed [where ops = "[]" and who = pairing_sample_cl and gs = ten_guesses and request = "guess_sample 10",
      OF pairing_sample_sides(4) none guessable locators clocks]
  show ?thesis using window [of 599] window [of 600] by (simp add: ten_guesses_def)
qed

end
