(* ===== verification/Relay_Service.thy ===== *)
theory Relay_Service
  imports Relay_Principals Relay_Log_Props Relay_Rendezvous Relay_Short_Code_Exchange
begin

text \<open>
  The authorization-enforcing relay service of \<open>crates/Konclave.RelayCore/src/service.rs\<close>
  over the whole relay database: envelope log, principal registry, pairing rendezvous and
  short-code attempts share one SQLite file. The trait \<open>RelayAuthorizer\<close> is a locale
  with the law its documentation states (an action is allowed or refused, and only durable
  access state decides); \<open>RelayClock\<close> is the value the clock returns to the call. An operation authorizes and
  acts in one step; the code awaits the authorizer and the repository one after the other,
  so an operation already authorized when a revocation commits is not covered.
\<close>

section \<open>The relay database\<close>

record relay_db =
  rd_log :: log_db
  rd_registry :: registry_db
  rd_rendezvous :: rendezvous_db
  rd_short_codes :: short_code_db

definition empty_relay :: relay_db where
  "empty_relay = \<lparr>rd_log = empty_log, rd_registry = [], rd_rendezvous = [], rd_short_codes = empty_short_code_db\<rparr>"

definition relay_inv :: "prost \<Rightarrow> relay_db \<Rightarrow> bool" where
  "relay_inv px db \<longleftrightarrow>
     log_inv px (rd_log db) \<and> registry_inv (rd_registry db) \<and>
     rendezvous_inv (rd_rendezvous db) \<and> short_code_inv (rd_short_codes db)"

definition on_log :: "(log_db \<Rightarrow> 'r \<times> log_db) \<Rightarrow> relay_db \<Rightarrow> 'r \<times> relay_db" where
  "on_log = on_part rd_log (\<lambda>c db. db\<lparr>rd_log := c\<rparr>)"

definition on_registry :: "(registry_db \<Rightarrow> 'r \<times> registry_db) \<Rightarrow> relay_db \<Rightarrow> 'r \<times> relay_db" where
  "on_registry = on_part rd_registry (\<lambda>c db. db\<lparr>rd_registry := c\<rparr>)"

definition on_rendezvous :: "(rendezvous_db \<Rightarrow> 'r \<times> rendezvous_db) \<Rightarrow> relay_db \<Rightarrow> 'r \<times> relay_db" where
  "on_rendezvous = on_part rd_rendezvous (\<lambda>c db. db\<lparr>rd_rendezvous := c\<rparr>)"

definition on_short_codes :: "(short_code_db \<Rightarrow> 'r \<times> short_code_db) \<Rightarrow> relay_db \<Rightarrow> 'r \<times> relay_db" where
  "on_short_codes = on_part rd_short_codes (\<lambda>c db. db\<lparr>rd_short_codes := c\<rparr>)"

lemmas on_defs = on_log_def on_registry_def on_rendezvous_def on_short_codes_def

section \<open>Permissions and authorizers\<close>

datatype relay_permission = Send | Replay | Acknowledge

type_synonym authorizer =
  "relay_db \<Rightarrow> relay_principal_id \<Rightarrow> routing_id \<Rightarrow> relay_permission \<Rightarrow> relay_error + unit"

text \<open>\<open>DynamicRelayAuthorizer\<close>: any active registered principal may do anything.\<close>

definition DynamicRelayAuthorizer_authorize :: authorizer where
  "DynamicRelayAuthorizer_authorize db who route permission =
     and_then (is_principal_active who (rd_registry db)) (\<lambda>active.
     if active then Inr () else Inl Unauthorized)"

section \<open>The service\<close>

definition RelayService_submit ::
    "prost \<Rightarrow> authorizer \<Rightarrow> relay_error + u64 \<Rightarrow> relay_principal_id \<Rightarrow> relay_envelope \<Rightarrow> relay_db \<Rightarrow>
     (relay_error + submit_result) \<times> relay_db" where
  "RelayService_submit px authorize clock who envelope db =
     try_then (authorize db who (env_routing_id envelope) Send) (\<lambda>_.
     try_then clock (\<lambda>now. on_log (submit px envelope now))) db"

definition RelayService_submit_encoded ::
    "prost \<Rightarrow> authorizer \<Rightarrow> relay_error + u64 \<Rightarrow> relay_principal_id \<Rightarrow> bytes \<Rightarrow> relay_db \<Rightarrow>
     (relay_error + submit_result) \<times> relay_db" where
  "RelayService_submit_encoded px authorize clock who encoded_envelope db =
     try_then (map_err RelayProtocol (decode_relay_envelope px encoded_envelope)) (\<lambda>envelope.
     try_then (authorize db who (env_routing_id envelope) Send) (\<lambda>_.
     try_then clock (\<lambda>now. on_log (submit_encoded px envelope encoded_envelope now)))) db"

definition RelayService_replay ::
    "prost \<Rightarrow> authorizer \<Rightarrow> relay_principal_id \<Rightarrow> replay_request \<Rightarrow> relay_db \<Rightarrow> relay_error + replay_page" where
  "RelayService_replay px authorize who request db =
     and_then (authorize db who (rr_routing_id request) Replay) (\<lambda>_. replay px (rd_log db) request)"

definition RelayService_replay_encoded ::
    "prost \<Rightarrow> authorizer \<Rightarrow> relay_principal_id \<Rightarrow> replay_request \<Rightarrow> relay_db \<Rightarrow>
     relay_error + encoded_replay_page" where
  "RelayService_replay_encoded px authorize who request db =
     and_then (authorize db who (rr_routing_id request) Replay) (\<lambda>_. replay_encoded px (rd_log db) request)"

definition RelayService_acknowledge ::
    "authorizer \<Rightarrow> relay_principal_id \<Rightarrow> acknowledge_request \<Rightarrow> relay_db \<Rightarrow> (relay_error + u64) \<times> relay_db" where
  "RelayService_acknowledge authorize who request db =
     try_then (authorize db who (ack_routing_id request) Acknowledge) (\<lambda>_.
     on_log (acknowledge who request)) db"

section \<open>What an authorizer promises and what the service makes of it\<close>

locale relay_authorizer =
  fixes authorize :: authorizer
    and grants :: "relay_db \<Rightarrow> relay_principal_id \<Rightarrow> routing_id \<Rightarrow> relay_permission \<Rightarrow> bool"
  assumes authorize_decides: "registry_inv (rd_registry db) \<Longrightarrow>
      authorize db who route p = (if grants db who route p then Inr () else Inl Unauthorized)"
    and grants_registry: "rd_registry db = rd_registry db' \<Longrightarrow> grants db who route p = grants db' who route p"
begin

lemma submit_decides:
  assumes "registry_inv (rd_registry db)"
  shows "RelayService_submit px authorize clock who envelope db =
    (if grants db who (env_routing_id envelope) Send
     then try_then clock (\<lambda>now. on_log (submit px envelope now)) db else (Inl Unauthorized, db))"
  using assms by (simp add: RelayService_submit_def authorize_decides)

lemma submit_encoded_decides:
  assumes "registry_inv (rd_registry db)" and "decode_relay_envelope px bs = Inr envelope"
  shows "RelayService_submit_encoded px authorize clock who bs db =
    (if grants db who (env_routing_id envelope) Send
     then try_then clock (\<lambda>now. on_log (submit_encoded px envelope bs now)) db else (Inl Unauthorized, db))"
  using assms by (simp add: RelayService_submit_encoded_def authorize_decides)

lemma replay_encoded_decides:
  assumes "registry_inv (rd_registry db)"
  shows "RelayService_replay_encoded px authorize who request db =
    (if grants db who (rr_routing_id request) Replay then replay_encoded px (rd_log db) request
     else Inl Unauthorized)"
  using assms by (simp add: RelayService_replay_encoded_def authorize_decides)

lemma replay_decides:
  assumes "registry_inv (rd_registry db)"
  shows "RelayService_replay px authorize who request db =
    (if grants db who (rr_routing_id request) Replay then replay px (rd_log db) request
     else Inl Unauthorized)"
  using assms by (simp add: RelayService_replay_def authorize_decides)

lemma acknowledge_decides:
  assumes "registry_inv (rd_registry db)"
  shows "RelayService_acknowledge authorize who request db =
    (if grants db who (ack_routing_id request) Acknowledge then on_log (acknowledge who request) db
     else (Inl Unauthorized, db))"
  using assms by (simp add: RelayService_acknowledge_def authorize_decides)

lemmas service_decides =
  submit_decides submit_encoded_decides replay_decides replay_encoded_decides acknowledge_decides

end

definition dynamic_grants ::
    "relay_db \<Rightarrow> relay_principal_id \<Rightarrow> routing_id \<Rightarrow> relay_permission \<Rightarrow> bool" where
  "dynamic_grants db who route p \<longleftrightarrow> (\<exists>r\<in>set (rd_registry db). revocable who r)"

interpretation dynamic_access: relay_authorizer DynamicRelayAuthorizer_authorize dynamic_grants
  by unfold_locales
    (simp_all add: DynamicRelayAuthorizer_authorize_def is_principal_active_eq dynamic_grants_def)

lemma on_parts [simp]:
  "rd_log (snd (on_log f db)) = snd (f (rd_log db))"
  "rd_registry (snd (on_log f db)) = rd_registry db"
  "rd_rendezvous (snd (on_log f db)) = rd_rendezvous db"
  "rd_short_codes (snd (on_log f db)) = rd_short_codes db"
  "fst (on_log f db) = fst (f (rd_log db))"
  by (simp_all add: on_log_def)

lemma relay_inv_empty [simp]: "relay_inv px empty_relay"
  by (simp add: relay_inv_def empty_relay_def short_code_inv_empty rendezvous_inv_def)

lemma relay_inv_on_log:
  assumes "relay_inv px db" and "log_inv px (snd (f (rd_log db)))"
  shows "relay_inv px (snd (on_log f db))"
  using assms by (simp add: relay_inv_def)

end
