(* ===== verification/Community_Access.thy ===== *)
theory Community_Access
  imports Relay_Service
begin

text \<open>
  Who may use the community relay (\<open>apps/Konclave.CommunityRelay/src/access.rs\<close>): the
  startup access document, bearer-token authentication, and the authorizer that combines
  the document's grants with the dynamic principal registry. The functions of other
  crates are arguments: SHA-256, URL-safe base64 decoding, the text view of a header
  value, and the JSON parser of the document.
\<close>

section \<open>The access document\<close>

definition ACCESS_DOCUMENT_VERSION :: u32 where "ACCESS_DOCUMENT_VERSION = 2"
definition MAX_ACCESS_DOCUMENT_BYTES :: usize where "MAX_ACCESS_DOCUMENT_BYTES = 1024 * 1024"
definition MAX_PRINCIPALS :: usize where "MAX_PRINCIPALS = 1024"
definition MAX_GRANTS_PER_PRINCIPAL :: usize where "MAX_GRANTS_PER_PRINCIPAL = 1024"
definition MAX_TOTAL_GRANTS :: usize where "MAX_TOTAL_GRANTS = 8192"

datatype permission_document = SendDocument | ReplayDocument | AcknowledgeDocument

record grant_document =
  gd_route :: string
  gd_permissions :: "permission_document list"

record principal_document =
  pd_principal :: string
  pd_grants :: "grant_document list"

record access_document =
  ad_version :: u32
  ad_principals :: "principal_document list"
  ad_enrollment :: "string option"

record relay_libs =
  lb_sha256 :: "bytes \<Rightarrow> bytes"
  lb_decode64 :: "string \<Rightarrow> bytes option"
  lb_to_str :: "bytes \<Rightarrow> string option"
  lb_parse_document :: "bytes \<Rightarrow> access_document option"

fun RelayPermission_from :: "permission_document \<Rightarrow> relay_permission" where
  "RelayPermission_from SendDocument = Send"
| "RelayPermission_from ReplayDocument = Replay"
| "RelayPermission_from AcknowledgeDocument = Acknowledge"

datatype route_grant = AnyRoute | ExactRoute routing_id

record grant =
  gr_route :: route_grant
  gr_permission :: relay_permission

datatype relay_enrollment_authority_id = RelayEnrollmentAuthorityId (authority_id_bytes: bytes)

record static_relay_access =
  sa_grants :: "relay_principal_id \<rightharpoonup> grant set"
  sa_enrollment_authority :: "relay_enrollment_authority_id option"

section \<open>Decoding the document\<close>

text \<open>Errors are the texts that \<open>anyhow\<close> carries.\<close>

definition decode_fixed :: "relay_libs \<Rightarrow> string \<Rightarrow> usize \<Rightarrow> string \<Rightarrow> string + bytes" where
  "decode_fixed libs value expected field =
     (if length value \<noteq> (expected * 8 + 5) div 6 then Inl (field @ '' has an invalid encoded length'')
      else
        and_then (ok_or (''decoding '' @ field) (lb_decode64 libs value)) (\<lambda>bs.
        if length bs \<noteq> expected then Inl (field @ '' has an invalid length'') else Inr bs))"

definition decode_principal_id :: "relay_libs \<Rightarrow> string \<Rightarrow> string + relay_principal_id" where
  "decode_principal_id libs value =
     and_then (decode_fixed libs value 32 ''relay principal'') (\<lambda>bs.
     map_err (\<lambda>_. ''validating relay principal'') (RelayPrincipalId_from_slice bs))"

definition RelayEnrollmentAuthorityId_from_slice ::
    "bytes \<Rightarrow> relay_authentication_error + relay_enrollment_authority_id" where
  "RelayEnrollmentAuthorityId_from_slice value =
     (if length value = 32 then Inr (RelayEnrollmentAuthorityId value)
      else Inl (AuthInvalidLength ''relay_enrollment_authority_id'' 32 (length value)))"

definition decode_enrollment_authority :: "relay_libs \<Rightarrow> string \<Rightarrow> string + relay_enrollment_authority_id" where
  "decode_enrollment_authority libs value =
     and_then (decode_fixed libs value 32 ''relay enrollment authority'') (\<lambda>bs.
     map_err (\<lambda>_. ''validating relay enrollment authority'') (RelayEnrollmentAuthorityId_from_slice bs))"

definition decode_route :: "relay_libs \<Rightarrow> string \<Rightarrow> string + route_grant" where
  "decode_route libs value =
     (if value = ''*'' then Inr AnyRoute
      else
        and_then (decode_fixed libs value 32 ''relay route'') (\<lambda>bs.
        and_then (map_err (\<lambda>_. ''validating relay route'') (RoutingId_from_slice bs)) (\<lambda>route.
        Inr (ExactRoute route))))"

text \<open>The three nested loops of \<open>from_bytes\<close>; the accumulator is the grants so far and their total.\<close>

fun add_permissions ::
    "route_grant \<Rightarrow> permission_document list \<Rightarrow> grant set \<times> usize \<Rightarrow> string + grant set \<times> usize" where
  "add_permissions route [] acc = Inr acc"
| "add_permissions route (permission # permissions) (grants, total_grants) =
     (let g = \<lparr>gr_route = route, gr_permission = RelayPermission_from permission\<rparr> in
      if g \<in> grants then Inl ''relay access document contains a duplicate grant''
      else
        and_then (ok_or ''relay access grant count overflow'' (checked_add_usize total_grants 1)) (\<lambda>total_grants.
        if total_grants > MAX_TOTAL_GRANTS then Inl ''relay access document contains too many grants''
        else add_permissions route permissions (insert g grants, total_grants)))"

fun add_grants ::
    "relay_libs \<Rightarrow> grant_document list \<Rightarrow> grant set \<times> usize \<Rightarrow> string + grant set \<times> usize" where
  "add_grants libs [] acc = Inr acc"
| "add_grants libs (g # gs) acc =
     (if gd_permissions g = [] \<or> length (gd_permissions g) > 3
      then Inl ''relay access permission count is outside the supported range''
      else
        and_then (decode_route libs (gd_route g)) (\<lambda>route.
        and_then (add_permissions route (gd_permissions g) acc) (add_grants libs gs)))"

fun add_principals ::
    "relay_libs \<Rightarrow> principal_document list \<Rightarrow> (relay_principal_id \<rightharpoonup> grant set) \<Rightarrow> usize \<Rightarrow>
     string + (relay_principal_id \<rightharpoonup> grant set)" where
  "add_principals libs [] grants_by_principal total_grants = Inr grants_by_principal"
| "add_principals libs (p # ps) grants_by_principal total_grants =
     (if pd_grants p = [] \<or> length (pd_grants p) > MAX_GRANTS_PER_PRINCIPAL
      then Inl ''relay access grant count is outside the supported range''
      else
        and_then (decode_principal_id libs (pd_principal p)) (\<lambda>principal_id.
        and_then (add_grants libs (pd_grants p) ({}, total_grants)) (\<lambda>(grants, total_grants).
        if grants_by_principal principal_id \<noteq> None
        then Inl ''relay access document contains a duplicate principal''
        else add_principals libs ps (grants_by_principal(principal_id \<mapsto> grants)) total_grants)))"

definition StaticRelayAccess_from_bytes :: "relay_libs \<Rightarrow> bytes \<Rightarrow> string + static_relay_access" where
  "StaticRelayAccess_from_bytes libs bs =
     and_then (ensure (length bs \<le> MAX_ACCESS_DOCUMENT_BYTES) ''relay access document exceeds 1048576 bytes'') (\<lambda>_.
     and_then (ok_or ''parsing relay access document'' (lb_parse_document libs bs)) (\<lambda>document.
     and_then (ensure (1 \<le> ad_version document \<and> ad_version document \<le> ACCESS_DOCUMENT_VERSION)
        ''unsupported relay access document version'') (\<lambda>_.
     and_then (ensure (ad_version document = ACCESS_DOCUMENT_VERSION \<or> ad_enrollment document = None)
        ''version 1 relay access documents cannot configure enrollment'') (\<lambda>_.
     and_then (ensure (length (ad_principals document) \<le> MAX_PRINCIPALS)
        ''relay access principal count is outside the supported range'') (\<lambda>_.
     and_then (transpose_map (decode_enrollment_authority libs) (ad_enrollment document)) (\<lambda>enrollment_authority.
     and_then (ensure (ad_principals document \<noteq> [] \<or> enrollment_authority \<noteq> None)
        ''relay access document must configure a principal or enrollment authority'') (\<lambda>_.
     and_then (add_principals libs (ad_principals document) Map.empty 0) (\<lambda>grants.
     Inr \<lparr>sa_grants = grants, sa_enrollment_authority = enrollment_authority\<rparr>))))))))"

text \<open>\<open>load\<close> reads one byte more than the bound, so a longer file is refused without reading it all.\<close>

definition StaticRelayAccess_load :: "relay_libs \<Rightarrow> bytes \<Rightarrow> string + static_relay_access" where
  "StaticRelayAccess_load libs file =
     (let bs = take (MAX_ACCESS_DOCUMENT_BYTES + 1) file in
      and_then (ensure (length bs \<le> MAX_ACCESS_DOCUMENT_BYTES) ''relay access document exceeds 1048576 bytes'') (\<lambda>_.
      StaticRelayAccess_from_bytes libs bs))"

section \<open>Bearer authentication\<close>

text \<open>A header map is the list of its entries; the HTTP library keeps names in lower case.\<close>

type_synonym header_map = "(string \<times> bytes) list"

definition AUTHORIZATION :: string where "AUTHORIZATION = ''authorization''"

definition header_values :: "string \<Rightarrow> header_map \<Rightarrow> bytes list" where
  "header_values name headers = map snd (filter (\<lambda>h. fst h = name) headers)"

definition split_once :: "char \<Rightarrow> string \<Rightarrow> (string \<times> string) option" where
  "split_once c s = (case dropWhile (\<lambda>x. x \<noteq> c) s of [] \<Rightarrow> None | _ # rest \<Rightarrow> Some (takeWhile (\<lambda>x. x \<noteq> c) s, rest))"

definition to_ascii_lowercase :: "char \<Rightarrow> char" where
  "to_ascii_lowercase c = (if 65 \<le> (of_char c :: nat) \<and> (of_char c :: nat) \<le> 90 then char_of (of_char c + 32 :: nat) else c)"

definition eq_ignore_ascii_case :: "string \<Rightarrow> string \<Rightarrow> bool" where
  "eq_ignore_ascii_case a b \<longleftrightarrow> map to_ascii_lowercase a = map to_ascii_lowercase b"

definition is_ascii_whitespace :: "char \<Rightarrow> bool" where
  "is_ascii_whitespace c \<longleftrightarrow> (of_char c :: nat) \<in> {9, 10, 12, 13, 32}"

datatype authentication_failure = RelayAuthenticationError

definition bearer_token_from_headers :: "relay_libs \<Rightarrow> header_map \<Rightarrow> authentication_failure + bytes" where
  "bearer_token_from_headers libs headers =
     (case header_values AUTHORIZATION headers of
        [value] \<Rightarrow>
          and_then (ok_or RelayAuthenticationError (lb_to_str libs value)) (\<lambda>value.
          and_then (ok_or RelayAuthenticationError (split_once CHR '' '' value)) (\<lambda>(scheme, encoded_token).
          if \<not> eq_ignore_ascii_case scheme ''bearer'' \<or> length encoded_token \<noteq> 43
             \<or> list_ex is_ascii_whitespace encoded_token
          then Inl RelayAuthenticationError
          else
            and_then (ok_or RelayAuthenticationError (lb_decode64 libs encoded_token)) (\<lambda>decoded.
            if length decoded = 32 then Inr decoded else Inl RelayAuthenticationError)))
      | _ \<Rightarrow> Inl RelayAuthenticationError)"

definition RELAY_PRINCIPAL_DOMAIN :: bytes where
  "RELAY_PRINCIPAL_DOMAIN = ascii ''konclave-relay-principal-v1'' @ [0]"

definition RELAY_ENROLLMENT_AUTHORITY_DOMAIN :: bytes where
  "RELAY_ENROLLMENT_AUTHORITY_DOMAIN = ascii ''konclave-relay-enrollment-authority-v1'' @ [0]"

definition from_access_token :: "relay_libs \<Rightarrow> bytes \<Rightarrow> relay_principal_id" where
  "from_access_token libs token = RelayPrincipalId (lb_sha256 libs (RELAY_PRINCIPAL_DOMAIN @ token))"

definition from_enrollment_token :: "relay_libs \<Rightarrow> bytes \<Rightarrow> relay_enrollment_authority_id" where
  "from_enrollment_token libs token =
     RelayEnrollmentAuthorityId (lb_sha256 libs (RELAY_ENROLLMENT_AUTHORITY_DOMAIN @ token))"

definition principal_from_headers :: "relay_libs \<Rightarrow> header_map \<Rightarrow> authentication_failure + relay_principal_id" where
  "principal_from_headers libs headers =
     and_then (bearer_token_from_headers libs headers) (\<lambda>token. Inr (from_access_token libs token))"

definition contains_principal :: "static_relay_access \<Rightarrow> relay_principal_id \<Rightarrow> bool" where
  "contains_principal access who \<longleftrightarrow> sa_grants access who \<noteq> None"

definition authenticate ::
    "relay_libs \<Rightarrow> static_relay_access \<Rightarrow> header_map \<Rightarrow> authentication_failure + relay_principal_id" where
  "authenticate libs access headers =
     and_then (principal_from_headers libs headers) (\<lambda>who.
     if contains_principal access who then Inr who else Inl RelayAuthenticationError)"

definition authenticate_enrollment ::
    "relay_libs \<Rightarrow> static_relay_access \<Rightarrow> header_map \<Rightarrow> authentication_failure + unit" where
  "authenticate_enrollment libs access headers =
     and_then (ok_or RelayAuthenticationError (sa_enrollment_authority access)) (\<lambda>expected.
     and_then (bearer_token_from_headers libs headers) (\<lambda>token.
     if from_enrollment_token libs token = expected then Inr () else Inl RelayAuthenticationError))"

definition authenticate_data_plane ::
    "relay_libs \<Rightarrow> static_relay_access \<Rightarrow> header_map \<Rightarrow> relay_db \<Rightarrow> relay_error + relay_principal_id" where
  "authenticate_data_plane libs access headers db =
     and_then (map_err (\<lambda>_. Unauthorized) (principal_from_headers libs headers)) (\<lambda>who.
     and_then (if contains_principal access who then Inr True
               else is_principal_active who (rd_registry db)) (\<lambda>known.
     if known then Inr who else Inl Unauthorized))"

section \<open>Authorizers\<close>

definition is_authorized :: "static_relay_access \<Rightarrow> relay_principal_id \<Rightarrow> routing_id \<Rightarrow> relay_permission \<Rightarrow> bool" where
  "is_authorized access who routing_id permission \<longleftrightarrow>
     (case sa_grants access who of
        None \<Rightarrow> False
      | Some grants \<Rightarrow>
          \<lparr>gr_route = AnyRoute, gr_permission = permission\<rparr> \<in> grants \<or>
          \<lparr>gr_route = ExactRoute routing_id, gr_permission = permission\<rparr> \<in> grants)"

definition StaticRelayAccess_authorize :: "static_relay_access \<Rightarrow> authorizer" where
  "StaticRelayAccess_authorize access db who routing_id permission =
     (if is_authorized access who routing_id permission then Inr () else Inl Unauthorized)"

definition RelayAccess_authorize :: "static_relay_access \<Rightarrow> authorizer" where
  "RelayAccess_authorize access db who routing_id permission =
     (if is_authorized access who routing_id permission then Inr ()
      else DynamicRelayAuthorizer_authorize db who routing_id permission)"

text \<open>What the two authorizers grant: the document's grants, and any action of an active registration.\<close>

definition access_grants ::
    "static_relay_access \<Rightarrow> relay_db \<Rightarrow> relay_principal_id \<Rightarrow> routing_id \<Rightarrow> relay_permission \<Rightarrow> bool" where
  "access_grants access db who routing_id permission \<longleftrightarrow>
     is_authorized access who routing_id permission \<or> dynamic_grants db who routing_id permission"

interpretation static_access:
  relay_authorizer "StaticRelayAccess_authorize access" "\<lambda>_. is_authorized access" for access
  by unfold_locales (simp_all add: StaticRelayAccess_authorize_def)

interpretation relay_access:
  relay_authorizer "RelayAccess_authorize access" "access_grants access" for access
  by unfold_locales
    (simp_all add: RelayAccess_authorize_def access_grants_def dynamic_access.authorize_decides
      dynamic_grants_def)

section \<open>The relay grants what the document says\<close>

definition grant_matches :: "relay_libs \<Rightarrow> routing_id \<Rightarrow> relay_permission \<Rightarrow> grant_document \<Rightarrow> bool" where
  "grant_matches libs route permission g \<longleftrightarrow>
     permission \<in> RelayPermission_from ` set (gd_permissions g) \<and>
     (decode_route libs (gd_route g) = Inr AnyRoute \<or> decode_route libs (gd_route g) = Inr (ExactRoute route))"

definition document_grants ::
    "relay_libs \<Rightarrow> access_document \<Rightarrow> relay_principal_id \<Rightarrow> routing_id \<Rightarrow> relay_permission \<Rightarrow> bool" where
  "document_grants libs document who route permission \<longleftrightarrow>
     (\<exists>p\<in>set (ad_principals document). decode_principal_id libs (pd_principal p) = Inr who \<and>
        (\<exists>g\<in>set (pd_grants p). grant_matches libs route permission g))"

definition mk_grant :: "route_grant \<Rightarrow> relay_permission \<Rightarrow> grant" where
  "mk_grant route permission = \<lparr>gr_route = route, gr_permission = permission\<rparr>"

lemma mk_grant_eq [simp]: "mk_grant r p = mk_grant r' p' \<longleftrightarrow> r = r' \<and> p = p'"
  by (simp add: mk_grant_def)

lemma add_permissions_result:
  assumes "add_permissions route permissions (grants, n) = Inr (grants', n')" and "finite grants" and "n \<le> MAX_TOTAL_GRANTS"
  shows "grants' = grants \<union> mk_grant route ` RelayPermission_from ` set permissions \<and>
    finite grants' \<and> n' + card grants = n + card grants' \<and> n' \<le> MAX_TOTAL_GRANTS"
  using assms
proof (induction permissions arbitrary: grants n)
  case (Cons permission permissions)
  let ?g = "mk_grant route (RelayPermission_from permission)"
  from Cons.prems(1) have step: "?g \<notin> grants" "n + 1 \<le> MAX_TOTAL_GRANTS"
    "add_permissions route permissions (insert ?g grants, n + 1) = Inr (grants', n')"
    by (auto simp: Let_def mk_grant_def split: if_splits)
  have fin: "finite (insert ?g grants)" using Cons.prems(2) by simp
  note rest = Cons.IH [OF step(3) fin step(2)]
  have "card (insert ?g grants) = Suc (card grants)"
    using step(1) Cons.prems(2) by (rule card_insert_disjoint [rotated])
  then show ?case using rest Cons.prems(2) by simp
qed simp

lemma add_grants_result:
  assumes "add_grants libs gs (grants, n) = Inr (grants', n')" and "finite grants" and "n \<le> MAX_TOTAL_GRANTS"
  shows "finite grants' \<and> n' + card grants = n + card grants' \<and> n' \<le> MAX_TOTAL_GRANTS \<and>
    (\<forall>route p. mk_grant route p \<in> grants' \<longleftrightarrow> mk_grant route p \<in> grants \<or>
       (\<exists>g\<in>set gs. p \<in> RelayPermission_from ` set (gd_permissions g) \<and> decode_route libs (gd_route g) = Inr route))"
  using assms
proof (induction gs arbitrary: grants n)
  case (Cons g gs)
  from Cons.prems(1) obtain route grants1 n1 where step: "decode_route libs (gd_route g) = Inr route"
    "add_permissions route (gd_permissions g) (grants, n) = Inr (grants1, n1)"
    "add_grants libs gs (grants1, n1) = Inr (grants', n')"
    by (auto split: if_splits)
  note first = add_permissions_result [OF step(2) Cons.prems(2,3)]
  have "finite grants' \<and> n' + card grants1 = n1 + card grants' \<and> n' \<le> MAX_TOTAL_GRANTS \<and>
    (\<forall>route p. mk_grant route p \<in> grants' \<longleftrightarrow> mk_grant route p \<in> grants1 \<or>
       (\<exists>g\<in>set gs. p \<in> RelayPermission_from ` set (gd_permissions g) \<and> decode_route libs (gd_route g) = Inr route))"
    using first by (intro Cons.IH [OF step(3)]) auto
  then show ?case using first step(1) by (auto simp: image_iff)
qed auto

definition granted :: "(relay_principal_id \<rightharpoonup> grant set) \<Rightarrow> relay_principal_id \<Rightarrow> grant \<Rightarrow> bool" where
  "granted m who g \<longleftrightarrow> (\<exists>G. m who = Some G \<and> g \<in> G)"

definition grant_total :: "(relay_principal_id \<rightharpoonup> grant set) \<Rightarrow> nat" where
  "grant_total m = (\<Sum>who\<in>dom m. card (the (m who)))"

definition principal_grants :: "relay_libs \<Rightarrow> principal_document \<Rightarrow> route_grant \<Rightarrow> relay_permission \<Rightarrow> bool" where
  "principal_grants libs d route p \<longleftrightarrow>
     (\<exists>g\<in>set (pd_grants d). p \<in> RelayPermission_from ` set (gd_permissions g) \<and> decode_route libs (gd_route g) = Inr route)"

lemma grant_total_update:
  assumes "finite (dom m)" and "m who = None"
  shows "grant_total (m(who \<mapsto> G)) = grant_total m + card G"
proof -
  have "(\<Sum>w\<in>dom m. card (the ((m(who \<mapsto> G)) w))) = grant_total m"
    unfolding grant_total_def using assms(2) by (intro sum.cong) auto
  moreover have "who \<notin> dom m" using assms(2) by auto
  ultimately show ?thesis using assms(1) by (simp add: grant_total_def)
qed

lemma add_principals_result:
  assumes "add_principals libs ds m n = Inr m'"
    and "finite (dom m)" and "grant_total m = n" and "n \<le> MAX_TOTAL_GRANTS"
  shows "finite (dom m') \<and> card (dom m') = card (dom m) + length ds \<and> grant_total m' \<le> MAX_TOTAL_GRANTS \<and>
    (\<forall>who route p. granted m' who (mk_grant route p) \<longleftrightarrow> granted m who (mk_grant route p) \<or>
       (\<exists>d\<in>set ds. decode_principal_id libs (pd_principal d) = Inr who \<and> principal_grants libs d route p))"
  using assms
proof (induction ds arbitrary: m n)
  case (Cons d ds)
  from Cons.prems(1) obtain who G n1 where step: "decode_principal_id libs (pd_principal d) = Inr who"
    "add_grants libs (pd_grants d) ({}, n) = Inr (G, n1)" "m who = None"
    "add_principals libs ds (m(who \<mapsto> G)) n1 = Inr m'"
    by (auto split: if_splits)
  note first = add_grants_result [OF step(2) finite.emptyI Cons.prems(4)]
  have total: "grant_total (m(who \<mapsto> G)) = n1"
    using grant_total_update [OF Cons.prems(2) step(3)] Cons.prems(3) first by simp
  have new: "granted (m(who \<mapsto> G)) w (mk_grant route p) \<longleftrightarrow>
      granted m w (mk_grant route p) \<or> (w = who \<and> principal_grants libs d route p)" for w route p
    using first step(3) by (auto simp: granted_def principal_grants_def)
  have fin: "finite (dom (m(who \<mapsto> G)))" using Cons.prems(2) by simp
  have "n1 \<le> MAX_TOTAL_GRANTS" using first by simp
  note rest = Cons.IH [OF step(4) fin total this]
  have "card (dom (m(who \<mapsto> G))) = Suc (card (dom m))"
    using step(3) Cons.prems(2) by (simp add: domIff)
  then have "finite (dom m') \<and> card (dom m') = card (dom m) + length (d # ds) \<and> grant_total m' \<le> MAX_TOTAL_GRANTS"
    using conjunct1 [OF conjunct2 [OF rest]] conjunct1 [OF rest] rest by (metis add_Suc_shift length_Cons)
  moreover have "granted m' w (mk_grant route p) \<longleftrightarrow> granted m w (mk_grant route p) \<or>
      (\<exists>d\<in>set (d # ds). decode_principal_id libs (pd_principal d) = Inr w \<and> principal_grants libs d route p)"
    for w route p
    using rest new [of w route p] step(1) by (metis Inr_inject set_ConsD list.set_intros)
  ultimately show ?case by blast
qed (simp add: granted_def)

lemma is_authorized_granted:
  "is_authorized access who route p \<longleftrightarrow>
     granted (sa_grants access) who (mk_grant AnyRoute p) \<or> granted (sa_grants access) who (mk_grant (ExactRoute route) p)"
  by (auto simp: is_authorized_def granted_def mk_grant_def split: option.splits)

text \<open>
  C6: The relay's static authorization is exactly its access document. When a document
  loads, an action is authorized if and only if some entry of the document names the
  principal and grants the permission on that route or on every route; the loaded table
  has one entry per principal of the document, at most 1,024 of them, and at most 8,192
  grants in all.
\<close>
theorem access_document_exact:
  assumes "StaticRelayAccess_from_bytes libs bs = Inr access" and "lb_parse_document libs bs = Some document"
  shows "(\<forall>who route p. is_authorized access who route p \<longleftrightarrow> document_grants libs document who route p) \<and>
    card (dom (sa_grants access)) = length (ad_principals document) \<and>
    card (dom (sa_grants access)) \<le> 1024 \<and> grant_total (sa_grants access) \<le> 8192"
proof -
  from assms have run: "add_principals libs (ad_principals document) Map.empty 0 = Inr (sa_grants access)"
    and len: "length (ad_principals document) \<le> MAX_PRINCIPALS"
    by (auto simp: StaticRelayAccess_from_bytes_def)
  note res = add_principals_result [OF run]
  have "is_authorized access who route p \<longleftrightarrow> document_grants libs document who route p" for who route p
    using res
    by (auto simp: is_authorized_granted granted_def document_grants_def grant_matches_def principal_grants_def
        grant_total_def)
  then show ?thesis
    using res len by (auto simp: grant_total_def MAX_PRINCIPALS_def MAX_TOTAL_GRANTS_def)
qed

section \<open>A concrete document\<close>

definition sample_document :: access_document where
  "sample_document =
     \<lparr>ad_version = 1,
      ad_principals = [\<lparr>pd_principal = replicate 43 CHR ''a'',
        pd_grants = [\<lparr>gd_route = ''*'', gd_permissions = [SendDocument]\<rparr>,
                     \<lparr>gd_route = replicate 43 CHR ''b'', gd_permissions = [ReplayDocument]\<rparr>]\<rparr>],
      ad_enrollment = None\<rparr>"

definition sample_libs :: relay_libs where
  "sample_libs =
     \<lparr>lb_sha256 = (\<lambda>bs. take 32 (rev bs @ replicate 32 0)),
      lb_decode64 = (\<lambda>s. Some (replicate 32 (of_nat (of_char (hd s))))),
      lb_to_str = (\<lambda>bs. Some (map (\<lambda>b. char_of (unat b)) bs)),
      lb_parse_document = (\<lambda>bs. Some sample_document)\<rparr>"

lemma sample_document_loads:
  "\<exists>access. StaticRelayAccess_from_bytes sample_libs [] = Inr access"
  by (simp add: StaticRelayAccess_from_bytes_def sample_libs_def sample_document_def ensure_def
      MAX_PRINCIPALS_def MAX_GRANTS_PER_PRINCIPAL_def MAX_TOTAL_GRANTS_def ACCESS_DOCUMENT_VERSION_def
      decode_principal_id_def decode_route_def decode_fixed_def RelayPrincipalId_from_slice_def
      id_from_slice_defs checked_add_usize_def Let_def)

theorem access_document_exact_witness:
  "\<exists>access. StaticRelayAccess_from_bytes sample_libs [] = Inr access \<and>
     is_authorized access (RelayPrincipalId (replicate 32 97)) (RoutingId (replicate 32 98)) Replay \<and>
     is_authorized access (RelayPrincipalId (replicate 32 97)) (RoutingId (replicate 32 1)) Send \<and>
     \<not> is_authorized access (RelayPrincipalId (replicate 32 97)) (RoutingId (replicate 32 1)) Replay \<and>
     grant_total (sa_grants access) \<le> 8192"
proof -
  obtain access where load: "StaticRelayAccess_from_bytes sample_libs [] = Inr access"
    using sample_document_loads by blast
  have doc: "lb_parse_document sample_libs [] = Some sample_document" by (simp add: sample_libs_def)
  have [simp]: "replicate 43 CHR ''b'' \<noteq> ''*''" by (simp add: numeral_eq_Suc)
  have eval: "document_grants sample_libs sample_document (RelayPrincipalId (replicate 32 97)) route p \<longleftrightarrow>
      p = Send \<or> (p = Replay \<and> route = RoutingId (replicate 32 98))" for route p
    by (auto simp: document_grants_def sample_document_def sample_libs_def grant_matches_def decode_principal_id_def
        decode_route_def decode_fixed_def RelayPrincipalId_from_slice_def id_from_slice_defs)
  have "(RoutingId (replicate 32 1) = RoutingId (replicate 32 98)) = False"
    by (simp add: replicate_eq_replicate)
  then show ?thesis
    using access_document_exact [OF load doc] load eval by auto
qed

end
