(* ===== verification/Community_Relay.thy ===== *)
theory Community_Relay
  imports Community_Access
begin

text \<open>
  The application layer of the community relay (\<open>apps/Konclave.CommunityRelay/src/application.rs\<close>):
  every operation a client can reach, composed from the authorized relay service, the
  pairing stores and the principal registry over one database, together with the events it
  broadcasts to watchers. The composed invariant and the order in which the database grows
  are proved once for all operations.
\<close>

section \<open>Operations\<close>

record relay_event =
  ev_routing_id :: routing_id
  ev_cursor :: u64

record relay_application =
  ra_db :: relay_db
  ra_events :: "relay_event list"

definition on_db :: "(relay_db \<Rightarrow> 'r \<times> relay_db) \<Rightarrow> relay_application \<Rightarrow> 'r \<times> relay_application" where
  "on_db = on_part ra_db (\<lambda>db app. app\<lparr>ra_db := db\<rparr>)"

definition publish_if_new :: "routing_id \<Rightarrow> submit_result \<Rightarrow> relay_application \<Rightarrow> relay_application" where
  "publish_if_new routing_id outcome app =
     (if \<not> sr_duplicate outcome
      then app\<lparr>ra_events := ra_events app @ [\<lparr>ev_routing_id = routing_id, ev_cursor = sr_cursor outcome\<rparr>]\<rparr>
      else app)"

definition RelayApplication_submit ::
    "prost \<Rightarrow> static_relay_access \<Rightarrow> relay_error + u64 \<Rightarrow> relay_principal_id \<Rightarrow> relay_envelope \<Rightarrow>
     relay_application \<Rightarrow> (relay_error + submit_result) \<times> relay_application" where
  "RelayApplication_submit px access clock who envelope app =
     (case on_db (RelayService_submit px (RelayAccess_authorize access) clock who envelope) app of
        (Inl e, app) \<Rightarrow> (Inl e, app)
      | (Inr outcome, app) \<Rightarrow> (Inr outcome, publish_if_new (env_routing_id envelope) outcome app))"

definition RelayApplication_submit_encoded ::
    "prost \<Rightarrow> static_relay_access \<Rightarrow> relay_error + u64 \<Rightarrow> relay_principal_id \<Rightarrow> bytes \<Rightarrow>
     relay_application \<Rightarrow> (relay_error + submit_result) \<times> relay_application" where
  "RelayApplication_submit_encoded px access clock who encoded_envelope app =
     try_then (map_err RelayProtocol (decode_relay_envelope px encoded_envelope)) (\<lambda>envelope app.
     case on_db (RelayService_submit_encoded px (RelayAccess_authorize access) clock who encoded_envelope) app of
        (Inl e, app) \<Rightarrow> (Inl e, app)
      | (Inr outcome, app) \<Rightarrow> (Inr outcome, publish_if_new (env_routing_id envelope) outcome app)) app"

definition RelayApplication_replay ::
    "prost \<Rightarrow> static_relay_access \<Rightarrow> relay_principal_id \<Rightarrow> replay_request \<Rightarrow> relay_application \<Rightarrow>
     relay_error + replay_page" where
  "RelayApplication_replay px access who request app =
     RelayService_replay px (RelayAccess_authorize access) who request (ra_db app)"

definition RelayApplication_replay_encoded ::
    "prost \<Rightarrow> static_relay_access \<Rightarrow> relay_principal_id \<Rightarrow> replay_request \<Rightarrow> relay_application \<Rightarrow>
     relay_error + encoded_replay_page" where
  "RelayApplication_replay_encoded px access who request app =
     RelayService_replay_encoded px (RelayAccess_authorize access) who request (ra_db app)"

definition RelayApplication_acknowledge ::
    "static_relay_access \<Rightarrow> relay_principal_id \<Rightarrow> acknowledge_request \<Rightarrow> relay_application \<Rightarrow>
     (relay_error + u64) \<times> relay_application" where
  "RelayApplication_acknowledge access who request =
     on_db (RelayService_acknowledge (RelayAccess_authorize access) who request)"

definition RelayApplication_publish_pairing_rendezvous ::
    "relay_error + u64 \<Rightarrow> relay_principal_id \<Rightarrow> pairing_rendezvous_record \<Rightarrow> relay_application \<Rightarrow>
     (relay_error + rendezvous_publish_outcome) \<times> relay_application" where
  "RelayApplication_publish_pairing_rendezvous clock who record' =
     try_then clock (\<lambda>now. on_db (on_rendezvous (publish_pairing_rendezvous who record' now)))"

definition RelayApplication_take_pairing_rendezvous ::
    "relay_error + u64 \<Rightarrow> rendezvous_take_request \<Rightarrow> relay_application \<Rightarrow>
     (relay_error + pairing_rendezvous_record) \<times> relay_application" where
  "RelayApplication_take_pairing_rendezvous clock request =
     try_then clock (\<lambda>now. on_db (on_rendezvous (take_pairing_rendezvous request now)))"

definition RelayApplication_publish_short_code_attempt ::
    "relay_error + u64 \<Rightarrow> relay_principal_id \<Rightarrow> attempt_publish_request \<Rightarrow> relay_application \<Rightarrow>
     (relay_error + attempt_publish_outcome) \<times> relay_application" where
  "RelayApplication_publish_short_code_attempt clock who request =
     try_then clock (\<lambda>now. on_db (on_short_codes (publish_short_code_attempt who request now)))"

definition RelayApplication_claim_short_code_attempt ::
    "relay_error + u64 \<Rightarrow> relay_principal_id \<Rightarrow> attempt_claim_request \<Rightarrow> relay_application \<Rightarrow>
     (relay_error + attempt_snapshot) \<times> relay_application" where
  "RelayApplication_claim_short_code_attempt clock who request =
     try_then clock (\<lambda>now. on_db (on_short_codes (claim_short_code_attempt who request now)))"

definition RelayApplication_publish_short_code_message ::
    "relay_error + u64 \<Rightarrow> relay_principal_id \<Rightarrow> attempt_message_request \<Rightarrow> relay_application \<Rightarrow>
     (relay_error + attempt_message_outcome) \<times> relay_application" where
  "RelayApplication_publish_short_code_message clock who request =
     try_then clock (\<lambda>now. on_db (on_short_codes (publish_short_code_message who request now)))"

definition RelayApplication_read_short_code_attempt ::
    "relay_error + u64 \<Rightarrow> relay_principal_id \<Rightarrow> attempt_read_request \<Rightarrow> relay_application \<Rightarrow>
     (relay_error + attempt_snapshot) \<times> relay_application" where
  "RelayApplication_read_short_code_attempt clock who request =
     try_then clock (\<lambda>now. on_db (on_short_codes (read_short_code_attempt who request now)))"

definition RelayApplication_cancel_short_code_attempt ::
    "relay_error + u64 \<Rightarrow> relay_principal_id \<Rightarrow> attempt_read_request \<Rightarrow> relay_application \<Rightarrow>
     (relay_error + unit) \<times> relay_application" where
  "RelayApplication_cancel_short_code_attempt clock who request =
     try_then clock (\<lambda>now. on_db (on_short_codes (cancel_short_code_attempt who request now)))"

definition RelayApplication_take_short_code_capability ::
    "relay_error + u64 \<Rightarrow> relay_principal_id \<Rightarrow> capability_take_request \<Rightarrow> relay_application \<Rightarrow>
     (relay_error + bytes) \<times> relay_application" where
  "RelayApplication_take_short_code_capability clock who request =
     try_then clock (\<lambda>now. on_db (on_short_codes (take_short_code_capability who request now)))"

definition RelayApplication_register_principal ::
    "relay_enrollment_request \<Rightarrow> relay_application \<Rightarrow>
     (relay_error + relay_enrollment_response) \<times> relay_application" where
  "RelayApplication_register_principal request = on_db (on_registry (register_principal request))"

definition RelayApplication_revoke_principal ::
    "relay_principal_id \<Rightarrow> relay_application \<Rightarrow> (relay_error + bool) \<times> relay_application" where
  "RelayApplication_revoke_principal who = on_db (on_registry (revoke_principal who))"

section \<open>The relay as one store\<close>

datatype relay_op =
    Submit_op "relay_error + u64" relay_principal_id relay_envelope
  | Submit_encoded_op "relay_error + u64" relay_principal_id bytes
  | Acknowledge_op relay_principal_id acknowledge_request
  | Publish_rendezvous_op "relay_error + u64" relay_principal_id pairing_rendezvous_record
  | Take_rendezvous_op "relay_error + u64" rendezvous_take_request
  | Publish_attempt_op "relay_error + u64" relay_principal_id attempt_publish_request
  | Claim_attempt_op "relay_error + u64" relay_principal_id attempt_claim_request
  | Publish_stage_op "relay_error + u64" relay_principal_id attempt_message_request
  | Read_attempt_op "relay_error + u64" relay_principal_id attempt_read_request
  | Cancel_attempt_op "relay_error + u64" relay_principal_id attempt_read_request
  | Take_capability_op "relay_error + u64" relay_principal_id capability_take_request
  | Register_op relay_enrollment_request
  | Revoke_op relay_principal_id

definition outcome :: "(relay_error + 'a) \<times> relay_application \<Rightarrow> (relay_error + unit) \<times> relay_application" where
  "outcome = apfst (map_sum id (\<lambda>_. ()))"

fun relay_step ::
    "prost \<Rightarrow> static_relay_access \<Rightarrow> relay_op \<Rightarrow> relay_application \<Rightarrow> (relay_error + unit) \<times> relay_application" where
  "relay_step px access (Submit_op clock who envelope) app = outcome (RelayApplication_submit px access clock who envelope app)"
| "relay_step px access (Submit_encoded_op clock who bs) app = outcome (RelayApplication_submit_encoded px access clock who bs app)"
| "relay_step px access (Acknowledge_op who request) app = outcome (RelayApplication_acknowledge access who request app)"
| "relay_step px access (Publish_rendezvous_op clock who record') app = outcome (RelayApplication_publish_pairing_rendezvous clock who record' app)"
| "relay_step px access (Take_rendezvous_op clock request) app = outcome (RelayApplication_take_pairing_rendezvous clock request app)"
| "relay_step px access (Publish_attempt_op clock who request) app = outcome (RelayApplication_publish_short_code_attempt clock who request app)"
| "relay_step px access (Claim_attempt_op clock who request) app = outcome (RelayApplication_claim_short_code_attempt clock who request app)"
| "relay_step px access (Publish_stage_op clock who request) app = outcome (RelayApplication_publish_short_code_message clock who request app)"
| "relay_step px access (Read_attempt_op clock who request) app = outcome (RelayApplication_read_short_code_attempt clock who request app)"
| "relay_step px access (Cancel_attempt_op clock who request) app = outcome (RelayApplication_cancel_short_code_attempt clock who request app)"
| "relay_step px access (Take_capability_op clock who request) app = outcome (RelayApplication_take_short_code_capability clock who request app)"
| "relay_step px access (Register_op request) app = outcome (RelayApplication_register_principal request app)"
| "relay_step px access (Revoke_op who) app = outcome (RelayApplication_revoke_principal who app)"

lemma snd_outcome [simp]: "snd (outcome p) = snd p" "fst (outcome p) = map_sum id (\<lambda>_. ()) (fst p)"
  by (simp_all add: outcome_def)

definition app_inv :: "prost \<Rightarrow> relay_application \<Rightarrow> bool" where
  "app_inv px app \<longleftrightarrow> relay_inv px (ra_db app)"

definition db_grows :: "relay_db \<Rightarrow> relay_db \<Rightarrow> bool" where
  "db_grows db db' \<longleftrightarrow> log_le (rd_log db) (rd_log db') \<and> registry_le (rd_registry db) (rd_registry db')"

definition app_le :: "relay_application \<Rightarrow> relay_application \<Rightarrow> bool" where
  "app_le app app' \<longleftrightarrow> db_grows (ra_db app) (ra_db app') \<and> (\<exists>es. ra_events app' = ra_events app @ es)"

text \<open>A relay state is advanced when the invariant holds again and nothing was lost.\<close>

definition advanced :: "prost \<Rightarrow> relay_application \<Rightarrow> relay_application \<Rightarrow> bool" where
  "advanced px app app' \<longleftrightarrow> app_inv px app' \<and> app_le app app'"

lemma app_le_refl [simp]: "app_le app app"
  by (simp add: app_le_def db_grows_def log_le_refl)

lemma app_le_trans: "app_le a b \<Longrightarrow> app_le b c \<Longrightarrow> app_le a c"
  unfolding app_le_def db_grows_def by (auto intro: log_le_trans registry_le_trans)

lemma advanced_refl: "app_inv px app \<Longrightarrow> advanced px app app"
  by (simp add: advanced_def)

lemma advanced_on_log:
  assumes "app_inv px app" and "log_inv px (snd (f (rd_log (ra_db app))))" and "log_le (rd_log (ra_db app)) (snd (f (rd_log (ra_db app))))"
  shows "advanced px app (snd (on_db (on_log f) app))"
  using assms by (simp add: advanced_def app_inv_def app_le_def db_grows_def relay_inv_def on_db_def)

lemma advanced_on_registry:
  assumes "app_inv px app" and "registry_inv (snd (f (rd_registry (ra_db app))))"
    and "registry_le (rd_registry (ra_db app)) (snd (f (rd_registry (ra_db app))))"
  shows "advanced px app (snd (on_db (on_registry f) app))"
  using assms by (simp add: advanced_def app_inv_def app_le_def db_grows_def relay_inv_def on_db_def on_registry_def log_le_refl)

lemma advanced_on_rendezvous:
  assumes "app_inv px app" and "rendezvous_inv (snd (f (rd_rendezvous (ra_db app))))"
  shows "advanced px app (snd (on_db (on_rendezvous f) app))"
  using assms by (simp add: advanced_def app_inv_def app_le_def db_grows_def relay_inv_def on_db_def on_rendezvous_def log_le_refl)

lemma advanced_on_short_codes:
  assumes "app_inv px app" and "short_code_inv (snd (f (rd_short_codes (ra_db app))))"
  shows "advanced px app (snd (on_db (on_short_codes f) app))"
  using assms by (simp add: advanced_def app_inv_def app_le_def db_grows_def relay_inv_def on_db_def on_short_codes_def log_le_refl)

lemma advanced_try:
  assumes "app_inv px app" and "\<And>a. r = Inr a \<Longrightarrow> advanced px app (snd (k a app))"
  shows "advanced px app (snd (try_then r k app))"
  using assms by (cases r) (auto intro: advanced_refl)

lemma advanced_events:
  assumes "advanced px app app'"
  shows "advanced px app (publish_if_new route result app')"
  using assms by (auto simp: advanced_def app_inv_def app_le_def publish_if_new_def)

lemma submit_inv: "log_inv px db \<Longrightarrow> log_inv px (snd (submit px e now db))"
  by (auto simp: submit_def submit_encoded_inv split: sum.splits)

lemma submit_le: "log_le db (snd (submit px e now db))"
  by (auto simp: submit_def submit_encoded_le log_le_refl split: sum.splits)

lemma on_db_try: "on_db (try_then r k) app = try_then r (\<lambda>a. on_db (k a)) app"
  by (cases r) (simp_all add: on_db_def on_part_def)

lemma app_inv_parts:
  assumes "app_inv px app"
  shows "log_inv px (rd_log (ra_db app))" "registry_inv (rd_registry (ra_db app))"
    "rendezvous_inv (rd_rendezvous (ra_db app))" "short_code_inv (rd_short_codes (ra_db app))"
  using assms by (simp_all add: app_inv_def relay_inv_def)

lemma on_db_log_guarded:
  assumes "app_inv px app" and "\<And>db. log_inv px db \<Longrightarrow> log_inv px (snd (f db))" and "\<And>db. log_le db (snd (f db))"
    and "snd (g (ra_db app)) = ra_db app \<or> g (ra_db app) = on_log f (ra_db app)"
  shows "advanced px app (snd (on_db g app))"
proof -
  from assms(4) consider "snd (on_db g app) = app" | "on_db g app = on_db (on_log f) app"
    by (auto simp: on_db_def on_part_def split_beta)
  then show ?thesis
    using assms(1) advanced_on_log [OF assms(1), of f] assms(2,3) app_inv_parts(1) [OF assms(1)]
    by (cases) (auto intro: advanced_refl)
qed

lemma service_submit_advanced:
  assumes "app_inv px app"
  shows "advanced px app (snd (on_db (RelayService_submit px authorize clock who e) app))"
proof (cases clock)
  case (Inl err)
  then show ?thesis
    using on_db_log_guarded [OF assms submit_inv submit_le, where g = "RelayService_submit px authorize clock who e"]
    by (auto simp: RelayService_submit_def try_then_def split: sum.splits)
next
  case (Inr now)
  then show ?thesis
    using on_db_log_guarded [OF assms, where f = "submit px e now" and g = "RelayService_submit px authorize clock who e"]
    by (auto simp: RelayService_submit_def try_then_def submit_inv submit_le split: sum.splits)
qed

lemma service_submit_encoded_advanced:
  assumes "app_inv px app"
  shows "advanced px app (snd (on_db (RelayService_submit_encoded px authorize clock who bs) app))"
proof (cases "decode_relay_envelope px bs")
  case (Inl err)
  then show ?thesis
    using on_db_log_guarded [OF assms submit_inv submit_le, where g = "RelayService_submit_encoded px authorize clock who bs"]
    by (simp add: RelayService_submit_encoded_def)
next
  case (Inr e)
  note decoded = this
  show ?thesis
  proof (cases clock)
    case (Inl err)
    then show ?thesis
      using decoded on_db_log_guarded [OF assms submit_inv submit_le, where g = "RelayService_submit_encoded px authorize clock who bs"]
      by (auto simp: RelayService_submit_encoded_def try_then_def split: sum.splits)
  next
    case (Inr now)
    then show ?thesis
      using decoded on_db_log_guarded [OF assms, where f = "submit_encoded px e bs now"
          and g = "RelayService_submit_encoded px authorize clock who bs"]
      by (auto simp: RelayService_submit_encoded_def try_then_def submit_encoded_inv submit_encoded_le split: sum.splits)
  qed
qed

lemma advanced_publishing:
  assumes "advanced px app (snd p)"
  shows "advanced px app (snd (case p of (Inl e, a) \<Rightarrow> (Inl e, a) | (Inr result, a) \<Rightarrow> (Inr result, publish_if_new route result a)))"
  using assms by (auto split: prod.splits sum.splits intro: advanced_events)

lemma relay_step_advanced:
  assumes inv: "app_inv px app"
  shows "advanced px app (snd (relay_step px access op app))"
proof (cases op)
  case (Submit_op clock who e)
  then show ?thesis
    using advanced_publishing [OF service_submit_advanced [OF inv]] by (simp add: RelayApplication_submit_def)
next
  case (Submit_encoded_op clock who bs)
  have "advanced px app (snd (try_then r (\<lambda>e a.
      case on_db (RelayService_submit_encoded px (RelayAccess_authorize access) clock who bs) a of
        (Inl err, a) \<Rightarrow> (Inl err, a)
      | (Inr result, a) \<Rightarrow> (Inr result, publish_if_new (env_routing_id e) result a)) app))" for r
    by (rule advanced_try [OF inv], rule advanced_publishing [OF service_submit_encoded_advanced [OF inv]])
  then show ?thesis using Submit_encoded_op by (simp add: RelayApplication_submit_encoded_def)
next
  case (Acknowledge_op who request)
  then show ?thesis
    using on_db_log_guarded [OF inv, where f = "acknowledge who request"
        and g = "RelayService_acknowledge (RelayAccess_authorize access) who request"]
    by (auto simp: RelayApplication_acknowledge_def RelayService_acknowledge_def try_then_def
        acknowledge_inv acknowledge_le split: sum.splits)
next
  case (Publish_rendezvous_op clock who record')
  then show ?thesis
    using relay_rendezvous.step_invar [OF app_inv_parts(3) [OF inv], of "Publish_rendezvous who record' _"]
    by (auto simp: RelayApplication_publish_pairing_rendezvous_def intro!: advanced_try [OF inv] advanced_on_rendezvous [OF inv])
next
  case (Take_rendezvous_op clock request)
  then show ?thesis
    using relay_rendezvous.step_invar [OF app_inv_parts(3) [OF inv], of "Take_rendezvous request _"]
    by (auto simp: RelayApplication_take_pairing_rendezvous_def intro!: advanced_try [OF inv] advanced_on_rendezvous [OF inv])
next
  case (Publish_attempt_op clock who request)
  then show ?thesis
    using relay_short_code.step_invar [OF app_inv_parts(4) [OF inv], of "Publish_attempt who request _"]
    by (auto simp: RelayApplication_publish_short_code_attempt_def intro!: advanced_try [OF inv] advanced_on_short_codes [OF inv])
next
  case (Claim_attempt_op clock who request)
  then show ?thesis
    using relay_short_code.step_invar [OF app_inv_parts(4) [OF inv], of "Claim_attempt who request _"]
    by (auto simp: RelayApplication_claim_short_code_attempt_def intro!: advanced_try [OF inv] advanced_on_short_codes [OF inv])
next
  case (Publish_stage_op clock who request)
  then show ?thesis
    using relay_short_code.step_invar [OF app_inv_parts(4) [OF inv], of "Publish_stage who request _"]
    by (auto simp: RelayApplication_publish_short_code_message_def intro!: advanced_try [OF inv] advanced_on_short_codes [OF inv])
next
  case (Read_attempt_op clock who request)
  then show ?thesis
    using relay_short_code.step_invar [OF app_inv_parts(4) [OF inv], of "Read_attempt who request _"]
    by (auto simp: RelayApplication_read_short_code_attempt_def intro!: advanced_try [OF inv] advanced_on_short_codes [OF inv])
next
  case (Cancel_attempt_op clock who request)
  then show ?thesis
    using relay_short_code.step_invar [OF app_inv_parts(4) [OF inv], of "Cancel_attempt who request _"]
    by (auto simp: RelayApplication_cancel_short_code_attempt_def intro!: advanced_try [OF inv] advanced_on_short_codes [OF inv])
next
  case (Take_capability_op clock who request)
  then show ?thesis
    using relay_short_code.step_invar [OF app_inv_parts(4) [OF inv], of "Take_capability who request _"]
    by (auto simp: RelayApplication_take_short_code_capability_def intro!: advanced_try [OF inv] advanced_on_short_codes [OF inv])
next
  case (Register_op request)
  then show ?thesis
    using advanced_on_registry [OF inv, of "register_principal request"] app_inv_parts(2) [OF inv]
    by (simp add: RelayApplication_register_principal_def register_principal_inv register_principal_le)
next
  case (Revoke_op who)
  then show ?thesis
    using advanced_on_registry [OF inv, of "revoke_principal who"] app_inv_parts(2) [OF inv]
    by (simp add: RelayApplication_revoke_principal_def revoke_principal_inv revoke_principal_le)
qed

interpretation community_relay: monotone_store "relay_step px access" "app_inv px" app_le for px access
  using relay_step_advanced by unfold_locales (auto simp: advanced_def intro: app_le_trans)

end
