(* ===== verification/Relay_Error_Codes.thy ===== *)
theory Relay_Error_Codes
  imports Relay_Base
begin

text \<open>
  The stable machine-readable error codes: \<open>code\<close> of the domain, authentication,
  protocol and relay errors. They are what HTTP responses and WebSocket close reasons
  carry instead of error texts.
\<close>

fun domain_error_code :: "konclave_domain_error \<Rightarrow> string" where
  "domain_error_code (InvalidLength _ _ _) = ''invalid_length''"
| "domain_error_code InvalidProtocolMajor = ''invalid_protocol_major''"
| "domain_error_code (ZeroValue _) = ''out_of_range''"
| "domain_error_code (OutOfRange _ _ _ _) = ''out_of_range''"
| "domain_error_code (TextTooLong _ _ _) = ''out_of_range''"
| "domain_error_code (EmptyText _) = ''empty_value''"
| "domain_error_code (NonCanonicalText _) = ''non_canonical_value''"
| "domain_error_code (DuplicateIdentifier _) = ''duplicate_identifier''"
| "domain_error_code MismatchedInvitedDevice = ''mismatched_invited_device''"
| "domain_error_code MismatchedInvitedConversation = ''mismatched_invited_conversation''"
| "domain_error_code RequestServiceInvitationMismatch = ''request_service_invitation_mismatch''"
| "domain_error_code (RequestService _) = ''request_service_rejected''"
| "domain_error_code (RequestDelivery _) = ''request_delivery_rejected''"
| "domain_error_code (MemberJoinedAfterStateEpoch _ _) = ''member_joined_after_state_epoch''"
| "domain_error_code MissingAdministrator = ''missing_administrator''"
| "domain_error_code MembershipVersionMismatch = ''membership_version_mismatch''"
| "domain_error_code MembershipConversationMismatch = ''membership_conversation_mismatch''"
| "domain_error_code StaleMembershipEpoch = ''stale_membership_epoch''"
| "domain_error_code InvalidMembershipEpochAdvance = ''invalid_membership_epoch_advance''"
| "domain_error_code UnauthorizedMembershipChange = ''unauthorized_membership_change''"
| "domain_error_code MemberAlreadyExists = ''member_already_exists''"
| "domain_error_code MemberNotFound = ''member_not_found''"
| "domain_error_code InvitationAlreadyConsumed = ''invitation_already_consumed''"
| "domain_error_code (InvalidExpectedParentEpoch _) = ''invalid_expected_parent_epoch''"
| "domain_error_code InvalidReplayOrder = ''invalid_replay_order''"
| "domain_error_code (InvalidPairingEnvelope _) = ''invalid_pairing_envelope''"
| "domain_error_code ShortCodePairingExpired = ''short_code_pairing_expired''"
| "domain_error_code InvalidShortCodePairingTransition = ''invalid_short_code_pairing_transition''"
| "domain_error_code TrustedDeviceAliasConflict = ''trusted_device_alias_conflict''"
| "domain_error_code TrustedDeviceRootMismatch = ''trusted_device_root_mismatch''"
| "domain_error_code TrustedDeviceRemoved = ''trusted_device_removed''"
| "domain_error_code TrustedDeviceRepeatPairingUnsupported = ''trusted_device_repeat_pairing_unsupported''"

fun authentication_error_code :: "relay_authentication_error \<Rightarrow> string" where
  "authentication_error_code (AuthInvalidLength _ _ _) = ''invalid_length''"

fun protocol_error_code :: "konclave_protocol_error \<Rightarrow> string" where
  "protocol_error_code (EncodedMessageTooLarge _ _ _) = ''encoded_message_too_large''"
| "protocol_error_code (Decode _ _) = ''malformed''"
| "protocol_error_code (MissingField _) = ''missing_field''"
| "protocol_error_code (UnsupportedEnum _ _) = ''unsupported_enum''"
| "protocol_error_code (MissingVariant _) = ''missing_variant''"
| "protocol_error_code (NonCanonicalEncoding _) = ''non_canonical_encoding''"
| "protocol_error_code (UnsupportedMajor _ _) = ''unsupported_major''"
| "protocol_error_code (Domain e) = domain_error_code e"
| "protocol_error_code (RelayAuthentication e) = authentication_error_code e"

fun relay_error_code :: "relay_error \<Rightarrow> string" where
  "relay_error_code Unauthorized = ''relay_unauthorized''"
| "relay_error_code ExpiredEnvelope = ''relay_envelope_expired''"
| "relay_error_code IdempotencyConflict = ''relay_idempotency_conflict''"
| "relay_error_code EnvelopeEncodingMismatch = ''relay_envelope_encoding_mismatch''"
| "relay_error_code StaleEpoch = ''relay_stale_epoch''"
| "relay_error_code SequenceExhausted = ''relay_sequence_exhausted''"
| "relay_error_code InvalidAcknowledgment = ''relay_invalid_acknowledgment''"
| "relay_error_code EnrollmentConflict = ''relay_enrollment_conflict''"
| "relay_error_code PrincipalCapacityExceeded = ''relay_principal_capacity''"
| "relay_error_code ExpiredPairingRendezvous = ''relay_pairing_rendezvous_expired''"
| "relay_error_code PairingRendezvousConflict = ''relay_pairing_rendezvous_conflict''"
| "relay_error_code PairingRendezvousUnavailable = ''relay_pairing_rendezvous_unavailable''"
| "relay_error_code PairingRendezvousGlobalCapacityExceeded = ''relay_pairing_rendezvous_global_capacity''"
| "relay_error_code PairingRendezvousPrincipalCapacityExceeded = ''relay_pairing_rendezvous_principal_capacity''"
| "relay_error_code InvalidShortCodeDeadline = ''relay_short_code_pairing_deadline_invalid''"
| "relay_error_code ExpiredShortCodeAttempt = ''relay_short_code_pairing_expired''"
| "relay_error_code ShortCodeAttemptConflict = ''relay_short_code_pairing_conflict''"
| "relay_error_code ShortCodeAttemptUnavailable = ''relay_short_code_pairing_unavailable''"
| "relay_error_code ShortCodeClaimRateLimited = ''relay_short_code_pairing_rate_limited''"
| "relay_error_code ShortCodeGlobalCapacityExceeded = ''relay_short_code_pairing_global_capacity''"
| "relay_error_code ShortCodeCreatorCapacityExceeded = ''relay_short_code_pairing_creator_capacity''"
| "relay_error_code InvalidShortCodeStage = ''relay_short_code_pairing_stage_invalid''"
| "relay_error_code PrincipalRevoked = ''relay_principal_revoked''"
| "relay_error_code UnsupportedEnrollmentVersion = ''relay_enrollment_version_unsupported''"
| "relay_error_code ClockUnavailable = ''relay_clock_unavailable''"
| "relay_error_code (StorageFailure _) = ''relay_storage_failure''"
| "relay_error_code (UnsupportedSchemaVersion _) = ''relay_schema_unsupported''"
| "relay_error_code InvalidStoredData = ''relay_invalid_stored_data''"
| "relay_error_code (RelayProtocol e) = protocol_error_code e"
| "relay_error_code (RelayDomain e) = domain_error_code e"

end
