(* ===== verification/Community_Watch.thy ===== *)
theory Community_Watch
  imports Community_Relay Relay_Error_Codes
begin

text \<open>
  The WebSocket watch session of the community relay
  (\<open>apps/Konclave.CommunityRelay/src/websocket.rs\<close>). A session is a state machine driven
  by what its \<open>select!\<close> loops wait for: frames of the client, notifications of new
  cursors, timers, and shutdown. Which of the ready branches runs is not determined, so
  the session and the relay it reads from run as one transition system in which relay
  operations and session steps interleave freely; notifications may be lost, late or wrong.
  The outcome of a bounded write is part of the input of a step. A replay authorizes, loads
  the page and writes it in one step; the code awaits each of them in turn, so relay
  operations that commit between them are not interleaved here.
\<close>

section \<open>Session state\<close>

datatype ws_message =
    WsBinary bytes
  | WsText string
  | WsPing bytes
  | WsPong bytes
  | WsClose "(nat \<times> string) option"

definition CLOSE_GOING_AWAY :: nat where "CLOSE_GOING_AWAY = 1001"
definition CLOSE_PROTOCOL_ERROR :: nat where "CLOSE_PROTOCOL_ERROR = 1002"
definition CLOSE_POLICY_VIOLATION :: nat where "CLOSE_POLICY_VIOLATION = 1008"
definition CLOSE_INTERNAL_ERROR :: nat where "CLOSE_INTERNAL_ERROR = 1011"

datatype watch_phase = AwaitingRequest | Watching | Ended

record watch_session =
  wt_phase :: watch_phase
  wt_request :: "replay_request option"
  wt_cursor :: u64
  wt_pending :: bool
  wt_awaiting_pong :: bool
  wt_sent :: "ws_message list"

definition new_session :: watch_session where
  "new_session = \<lparr>wt_phase = AwaitingRequest, wt_request = None, wt_cursor = 0, wt_pending = False,
     wt_awaiting_pong = False, wt_sent = []\<rparr>"

text \<open>What a select loop can be woken by.\<close>

datatype watch_input =
    Received ws_message
  | ReceiveFailed
  | ReceiveEnd
  | Notified relay_event
  | NotifyLagged
  | NotifyClosed
  | HeartbeatTick
  | SafetyTick
  | PendingReplay
  | ShutdownChanged bool
  | HandshakeTimeout

section \<open>Writing\<close>

definition end_session :: "watch_session \<Rightarrow> watch_session" where
  "end_session s = s\<lparr>wt_phase := Ended\<rparr>"

text \<open>\<open>send_message(..)?\<close>: a failed or timed-out write ends the session.\<close>

definition send_message :: "bool \<Rightarrow> ws_message \<Rightarrow> watch_session \<Rightarrow> watch_session" where
  "send_message writable message s =
     (if writable then s\<lparr>wt_sent := wt_sent s @ [message]\<rparr> else end_session s)"

text \<open>\<open>close_with\<close> ignores a failed write; every caller then leaves the session.\<close>

definition close_with :: "bool \<Rightarrow> nat \<Rightarrow> string \<Rightarrow> watch_session \<Rightarrow> watch_session" where
  "close_with writable code reason s =
     (if writable then s\<lparr>wt_sent := wt_sent s @ [WsClose (Some (code, reason))]\<rparr> else s)"

fun close_code_for_relay_error :: "relay_error \<Rightarrow> nat" where
  "close_code_for_relay_error Unauthorized = CLOSE_POLICY_VIOLATION"
| "close_code_for_relay_error _ = CLOSE_INTERNAL_ERROR"

section \<open>Replaying into the session\<close>

definition drain_replay ::
    "prost \<Rightarrow> static_relay_access \<Rightarrow> relay_principal_id \<Rightarrow> relay_application \<Rightarrow> bool \<Rightarrow>
     routing_id \<Rightarrow> u32 \<Rightarrow> bool \<Rightarrow> watch_session \<Rightarrow> watch_session" where
  "drain_replay px access who app writable route limit send_empty s =
     (case ReplayRequest_new route (wt_cursor s) limit of
        Inl _ \<Rightarrow> end_session s
      | Inr request \<Rightarrow>
          (case RelayApplication_replay_encoded px access who request app of
             Inl error' \<Rightarrow>
               end_session (close_with writable (close_code_for_relay_error error') (relay_error_code error') s)
           | Inr page \<Rightarrow>
               let sends = erp_envelope_count page > 0 \<or> send_empty;
                   s' = (if sends then send_message writable (WsBinary (erp_bytes page)) s else s) in
               if sends \<and> \<not> writable then s'
               else if (erp_envelope_count page = 0 \<and> erp_next_cursor page \<noteq> wt_cursor s) \<or>
                       (erp_envelope_count page > 0 \<and> erp_next_cursor page \<le> wt_cursor s)
               then end_session s'
               else s'\<lparr>wt_cursor := erp_next_cursor page, wt_pending := erp_has_more page\<rparr>))"

section \<open>Heartbeat\<close>

definition begin_ping :: "watch_session \<Rightarrow> watch_session option" where
  "begin_ping s = (if wt_awaiting_pong s then None else Some (s\<lparr>wt_awaiting_pong := True\<rparr>))"

definition observe_pong :: "watch_session \<Rightarrow> watch_session" where
  "observe_pong s = s\<lparr>wt_awaiting_pong := False\<rparr>"

section \<open>The two select loops\<close>

fun receive_replay_request ::
    "prost \<Rightarrow> static_relay_access \<Rightarrow> relay_principal_id \<Rightarrow> relay_application \<Rightarrow> bool \<Rightarrow>
     watch_input \<Rightarrow> watch_session \<Rightarrow> watch_session" where
  "receive_replay_request px access who app writable (Received (WsBinary bs)) s =
     (case decode_replay_request px bs of
        Inr request \<Rightarrow>
          drain_replay px access who app writable (rr_routing_id request) (rr_limit request) True
            (s\<lparr>wt_phase := Watching, wt_request := Some request, wt_cursor := rr_after_cursor request\<rparr>)
      | Inl error' \<Rightarrow> end_session (close_with writable CLOSE_PROTOCOL_ERROR (protocol_error_code error') s))"
| "receive_replay_request px access who app writable (Received (WsPing payload)) s =
     send_message writable (WsPong payload) s"
| "receive_replay_request px access who app writable (Received (WsPong _)) s = s"
| "receive_replay_request px access who app writable (Received (WsClose _)) s = end_session s"
| "receive_replay_request px access who app writable (Received (WsText _)) s =
     end_session (close_with writable CLOSE_PROTOCOL_ERROR ''relay_watch_binary_required'' s)"
| "receive_replay_request px access who app writable ReceiveEnd s = end_session s"
| "receive_replay_request px access who app writable ReceiveFailed s = end_session s"
| "receive_replay_request px access who app writable (ShutdownChanged stop) s = (if stop then end_session s else s)"
| "receive_replay_request px access who app writable HandshakeTimeout s =
     end_session (close_with writable CLOSE_POLICY_VIOLATION ''relay_watch_handshake_timeout'' s)"
| "receive_replay_request px access who app writable _ s = s"

definition drain_request ::
    "prost \<Rightarrow> static_relay_access \<Rightarrow> relay_principal_id \<Rightarrow> relay_application \<Rightarrow> bool \<Rightarrow>
     watch_session \<Rightarrow> watch_session" where
  "drain_request px access who app writable s =
     (case wt_request s of
        None \<Rightarrow> s
      | Some request \<Rightarrow> drain_replay px access who app writable (rr_routing_id request) (rr_limit request) False s)"

fun watch_loop ::
    "prost \<Rightarrow> static_relay_access \<Rightarrow> relay_principal_id \<Rightarrow> relay_application \<Rightarrow> bool \<Rightarrow>
     watch_input \<Rightarrow> watch_session \<Rightarrow> watch_session" where
  "watch_loop px access who app writable PendingReplay s = drain_request px access who app writable s"
| "watch_loop px access who app writable (Received (WsPing payload)) s = send_message writable (WsPong payload) s"
| "watch_loop px access who app writable (Received (WsPong _)) s = observe_pong s"
| "watch_loop px access who app writable (Received (WsClose _)) s = end_session s"
| "watch_loop px access who app writable (Received (WsBinary _)) s =
     end_session (close_with writable CLOSE_PROTOCOL_ERROR ''relay_watch_unexpected_message'' s)"
| "watch_loop px access who app writable (Received (WsText _)) s =
     end_session (close_with writable CLOSE_PROTOCOL_ERROR ''relay_watch_unexpected_message'' s)"
| "watch_loop px access who app writable ReceiveEnd s = end_session s"
| "watch_loop px access who app writable ReceiveFailed s = end_session s"
| "watch_loop px access who app writable (Notified event) s =
     (if (case wt_request s of None \<Rightarrow> False | Some request \<Rightarrow> ev_routing_id event = rr_routing_id request)
         \<and> ev_cursor event > wt_cursor s
      then drain_request px access who app writable s else s)"
| "watch_loop px access who app writable NotifyLagged s = drain_request px access who app writable s"
| "watch_loop px access who app writable NotifyClosed s = end_session s"
| "watch_loop px access who app writable HeartbeatTick s =
     (case begin_ping s of
        None \<Rightarrow> end_session (close_with writable CLOSE_POLICY_VIOLATION ''relay_watch_heartbeat_timeout'' s)
      | Some s \<Rightarrow> send_message writable (WsPing []) s)"
| "watch_loop px access who app writable SafetyTick s = drain_request px access who app writable s"
| "watch_loop px access who app writable (ShutdownChanged stop) s =
     (if stop then end_session (close_with writable CLOSE_GOING_AWAY ''relay_shutdown'' s) else s)"
| "watch_loop px access who app writable HandshakeTimeout s = s"

text \<open>One wake-up of \<open>run_watch_session\<close>, and which inputs its current loop waits for.\<close>

definition watch_step ::
    "prost \<Rightarrow> static_relay_access \<Rightarrow> relay_principal_id \<Rightarrow> relay_application \<Rightarrow> bool \<Rightarrow>
     watch_input \<Rightarrow> watch_session \<Rightarrow> watch_session" where
  "watch_step px access who app writable input s =
     (case wt_phase s of
        AwaitingRequest \<Rightarrow> receive_replay_request px access who app writable input s
      | Watching \<Rightarrow> watch_loop px access who app writable input s
      | Ended \<Rightarrow> s)"

fun watch_enabled :: "watch_input \<Rightarrow> watch_session \<Rightarrow> bool" where
  "watch_enabled (Received _) s = (wt_phase s \<noteq> Ended)"
| "watch_enabled ReceiveFailed s = (wt_phase s \<noteq> Ended)"
| "watch_enabled ReceiveEnd s = (wt_phase s \<noteq> Ended)"
| "watch_enabled (ShutdownChanged _) s = (wt_phase s \<noteq> Ended)"
| "watch_enabled HandshakeTimeout s = (wt_phase s = AwaitingRequest)"
| "watch_enabled PendingReplay s = (wt_phase s = Watching \<and> wt_pending s)"
| "watch_enabled _ s = (wt_phase s = Watching)"

text \<open>The relay and one session of a principal, from a freshly accepted connection.\<close>

inductive watch_reaches ::
    "prost \<Rightarrow> static_relay_access \<Rightarrow> relay_principal_id \<Rightarrow> relay_application \<Rightarrow> watch_session \<Rightarrow> bool"
  for px access who where
  watch_start: "app_inv px app \<Longrightarrow> watch_reaches px access who app new_session"
| watch_relay: "watch_reaches px access who app s \<Longrightarrow>
    watch_reaches px access who (snd (relay_step px access op app)) s"
| watch_session: "watch_reaches px access who app s \<Longrightarrow> watch_enabled input s \<Longrightarrow>
    watch_reaches px access who app (watch_step px access who app writable input s)"

end
