(* ===== verification/Community_Watch_Props.thy ===== *)
theory Community_Watch_Props
  imports Community_Watch
begin

text \<open>
  What a watch session delivers. The pages written to the socket, in order, contain the
  route's log after the requested cursor without gap, duplicate or reordering, whatever
  relay operations, notifications and timers interleave; and a principal that loses its
  grant receives nothing more.
\<close>

section \<open>Segments of a route's log\<close>

definition upto :: "u64 \<Rightarrow> (bytes \<times> u64) list \<Rightarrow> (bytes \<times> u64) list" where
  "upto c L = filter (\<lambda>e. snd e \<le> c) L"

definition beyond :: "u64 \<Rightarrow> (bytes \<times> u64) list \<Rightarrow> (bytes \<times> u64) list" where
  "beyond c L = filter (\<lambda>e. c < snd e) L"

abbreviation "watch_log app request \<equiv>
  log_after (rd_log (ra_db app)) (routing_id_bytes (rr_routing_id request)) (int (unat (rr_after_cursor request)))"

lemma sorted_upto_beyond:
  assumes "sorted_wrt (<) (map snd L)"
  shows "upto c L @ beyond c L = L"
  using assms
proof (induction L)
  case (Cons e L)
  show ?case
  proof (cases "snd e \<le> c")
    case True
    then show ?thesis using Cons by (auto simp: upto_def beyond_def)
  next
    case False
    then have "upto c L = []" "beyond c L = L"
      using Cons.prems by (auto simp: upto_def beyond_def filter_empty_conv filter_id_conv)
    then show ?thesis using False by (auto simp: upto_def beyond_def)
  qed
qed (simp add: upto_def beyond_def)

lemma cursor_compare:
  assumes "1 \<le> i" "i < i64_MAX"
  shows "int (unat c) < i \<longleftrightarrow> c < (of_int i :: u64)"
proof -
  have "unat (of_int i :: u64) = nat i" using assms by (intro unat_of_sql) (auto simp: i64_MAX_def)
  then show ?thesis unfolding word_less_nat_alt using assms(1) by linarith
qed

lemma log_after_beyond:
  assumes "log_inv px db" and "a \<le> c"
  shows "log_after db rid (int (unat c)) = beyond c (log_after db rid (int (unat a)))"
proof -
  let ?R = "route_rows db rid"
  have "filter (\<lambda>r. int (unat c) < er_cursor r) ?R =
      filter (\<lambda>r. c < (of_int (er_cursor r) :: u64) \<and> int (unat a) < er_cursor r) ?R"
  proof (rule filter_cong [OF refl])
    fix r assume "r \<in> set ?R"
    then have "1 \<le> er_cursor r" "er_cursor r < i64_MAX" using route_rows_sorted(2) [OF assms(1)] by auto
    then show "int (unat c) < er_cursor r \<longleftrightarrow> c < (of_int (er_cursor r) :: u64) \<and> int (unat a) < er_cursor r"
      using assms(2) cursor_compare [of "er_cursor r" c] cursor_compare [of "er_cursor r" a]
      by (metis order.strict_trans1)
  qed
  then show ?thesis
    unfolding log_after_def beyond_def by (simp add: filter_map comp_def conj_commute)
qed

lemma log_after_gt:
  assumes "log_inv px db" and "e \<in> set (log_after db rid (int (unat a)))"
  shows "a < snd e"
proof -
  have "e \<in> set (beyond a (log_after db rid (int (unat a))))"
    using assms(2) log_after_beyond [OF assms(1) order_refl, of rid a] by simp
  then show ?thesis by (simp add: beyond_def)
qed

lemma upto_start:
  assumes "log_inv px db"
  shows "upto a (log_after db rid (int (unat a))) = []"
  using log_after_gt [OF assms] by (fastforce simp: upto_def filter_empty_conv)

lemma upto_next:
  assumes "sorted_wrt (<) (map snd L)" and "k < length (beyond c L)"
  shows "upto (snd (beyond c L ! k)) L = upto c L @ take (Suc k) (beyond c L)"
proof -
  let ?n = "snd (beyond c L ! k)"
  have "sorted_wrt (<) (map snd (beyond c L))"
    using assms(1) by (simp add: beyond_def sorted_wrt_map sorted_wrt_filter)
  then have tail: "upto ?n (beyond c L) = take (Suc k) (beyond c L)"
    unfolding upto_def using assms(2) by (rule filter_le_nth)
  have "c < ?n" using nth_mem [OF assms(2)] by (simp add: beyond_def)
  then have "upto ?n (upto c L) = upto c L"
    unfolding upto_def filter_filter by (intro filter_cong) auto
  then have "upto ?n (upto c L @ beyond c L) = upto c L @ take (Suc k) (beyond c L)"
    using tail by (simp add: upto_def)
  then show ?thesis by (simp only: sorted_upto_beyond [OF assms(1)])
qed

lemma log_after_grows:
  assumes "log_le db db'"
  shows "\<exists>new. log_after db' rid a = log_after db rid a @ new"
  using assms by (auto simp: log_le_def log_after_def route_rows_def)

lemma upto_grows:
  assumes "sorted_wrt (<) (map snd (L @ new))" and "c \<in> snd ` set L \<or> (\<forall>e\<in>set new. c < snd e)"
  shows "upto c (L @ new) = upto c L"
proof -
  have "\<forall>e\<in>set new. c < snd e"
    using assms by (auto simp: sorted_wrt_append)
  then have "upto c new = []" by (fastforce simp: upto_def filter_empty_conv)
  then show ?thesis by (simp add: upto_def)
qed

section \<open>One page\<close>

lemma replay_encoded_page:
  assumes "log_inv px db" and "1 \<le> unat (rr_limit request)" "unat (rr_limit request) \<le> 100"
    and "replay_encoded px db request = Inr page"
  defines "L \<equiv> log_after db (routing_id_bytes (rr_routing_id request)) (int (unat (rr_after_cursor request)))"
  shows "\<exists>k \<le> length L. (L \<noteq> [] \<longrightarrow> 0 < k) \<and> erp_envelope_count page = k \<and>
    encode_replay_page_preserving px (take k L) (erp_next_cursor page) (erp_has_more page) = Inr (erp_bytes page) \<and>
    erp_next_cursor page = (if k = 0 then rr_after_cursor request else snd (L ! (k - 1))) \<and>
    (erp_has_more page \<longleftrightarrow> k < length L)"
proof -
  from assms(4) obtain entries where load: "load_replay_entries px db request = Inr entries"
    by (auto simp: replay_encoded_def)
  then have after: "unat (rr_after_cursor request) < 2 ^ 63"
    by (auto simp: load_replay_entries_def Let_def)
  obtain k where k: "k \<le> length L" "L \<noteq> [] \<longrightarrow> 0 < k"
    "entries = \<lparr>ents_entries = map entry_of (take k L),
           ents_next_cursor = (if k = 0 then rr_after_cursor request else snd (L ! (k - 1))),
           ents_has_more = (k < length L)\<rparr>"
    using load_replay_entries_spec [OF assms(1-3) after] load by (auto simp: L_def)
  have "map (\<lambda>x. (ent_encoded_envelope x, ent_cursor x)) (map entry_of xs) = xs" for xs
    by (induction xs) (auto simp: entry_of_def)
  with assms(4) load k show ?thesis
    by (intro exI [of _ k])
      (auto simp: replay_encoded_def EncodedReplayPage_new_def Let_def split: if_splits)
qed

section \<open>The session invariant\<close>

definition binaries :: "ws_message list \<Rightarrow> bytes list" where
  "binaries ms = concat (map (\<lambda>m. case m of WsBinary bs \<Rightarrow> [bs] | _ \<Rightarrow> []) ms)"

lemma binaries_simps [simp]:
  "binaries [] = []" "binaries (xs @ ys) = binaries xs @ binaries ys"
  "binaries [WsBinary bs] = [bs]" "binaries [WsText t] = []" "binaries [WsPing p] = []"
  "binaries [WsPong p] = []" "binaries [WsClose c] = []"
  by (simp_all add: binaries_def)

text \<open>A page on the wire carries exactly these envelopes, next cursor and continuation flag.\<close>

definition carries :: "prost \<Rightarrow> bytes \<Rightarrow> (bytes \<times> u64) list \<times> u64 \<times> bool \<Rightarrow> bool" where
  "carries px bs p \<longleftrightarrow> (case p of (es, n, h) \<Rightarrow> encode_replay_page_preserving px es n h = Inr bs)"

definition delivered :: "prost \<Rightarrow> watch_session \<Rightarrow> (bytes \<times> u64) list \<Rightarrow> bool" where
  "delivered px s entries \<longleftrightarrow>
     (\<exists>pages. list_all2 (carries px) (binaries (wt_sent s)) pages \<and> concat (map fst pages) = entries)"

definition session_ok :: "prost \<Rightarrow> relay_application \<Rightarrow> watch_session \<Rightarrow> bool" where
  "session_ok px app s \<longleftrightarrow>
     (case wt_request s of
        None \<Rightarrow> binaries (wt_sent s) = [] \<and> wt_phase s \<noteq> Watching
      | Some request \<Rightarrow>
          wt_phase s \<noteq> AwaitingRequest \<and>
          1 \<le> unat (rr_limit request) \<and> unat (rr_limit request) \<le> 100 \<and>
          delivered px s (upto (wt_cursor s) (watch_log app request)) \<and>
          (wt_cursor s = rr_after_cursor request \<or> wt_cursor s \<in> snd ` set (watch_log app request)))"

lemma drain_replay_cases:
  obtains (failed) "wt_phase (drain_replay px access who app w route limit e s) = Ended"
      "wt_request (drain_replay px access who app w route limit e s) = wt_request s"
      "wt_cursor (drain_replay px access who app w route limit e s) = wt_cursor s"
      "binaries (wt_sent (drain_replay px access who app w route limit e s)) = binaries (wt_sent s)"
    | (page) page where "1 \<le> unat limit" "unat limit \<le> 100"
      "RelayApplication_replay_encoded px access who
         \<lparr>rr_routing_id = route, rr_after_cursor = wt_cursor s, rr_limit = limit\<rparr> app = Inr page"
      "erp_envelope_count page > 0 \<or> e \<Longrightarrow> w"
      "drain_replay px access who app w route limit e s =
         s\<lparr>wt_sent := wt_sent s @ (if erp_envelope_count page > 0 \<or> e then [WsBinary (erp_bytes page)] else []),
           wt_cursor := erp_next_cursor page, wt_pending := erp_has_more page\<rparr>"
proof (cases "ReplayRequest_new route (wt_cursor s) limit")
  case (Inl err)
  then show ?thesis using failed by (simp add: drain_replay_def end_session_def)
next
  case (Inr request)
  then have request: "1 \<le> unat limit" "unat limit \<le> 100"
    "request = \<lparr>rr_routing_id = route, rr_after_cursor = wt_cursor s, rr_limit = limit\<rparr>"
    by (auto simp: ReplayRequest_new_eq_Inr)
  show ?thesis
  proof (cases "RelayApplication_replay_encoded px access who request app")
    case (Inl err)
    then show ?thesis
      using failed Inr by (simp add: drain_replay_def end_session_def close_with_def)
  next
    case (Inr pg)
    let ?sends = "erp_envelope_count pg > 0 \<or> e"
    let ?bad = "(erp_envelope_count pg = 0 \<and> erp_next_cursor pg \<noteq> wt_cursor s) \<or>
      (erp_envelope_count pg > 0 \<and> erp_next_cursor pg \<le> wt_cursor s)"
    have valid: "\<not> ?bad"
    proof -
      from Inr obtain db where "replay_encoded px db request = Inr pg"
        by (auto simp: RelayApplication_replay_encoded_def RelayService_replay_encoded_def)
      then show ?thesis
        using request(3)
        by (auto simp: replay_encoded_def EncodedReplayPage_new_def Let_def split: if_splits)
    qed
    have unfold: "drain_replay px access who app w route limit e s =
        (if ?sends \<and> \<not> w then end_session s
         else s\<lparr>wt_sent := wt_sent s @ (if ?sends then [WsBinary (erp_bytes pg)] else []),
                wt_cursor := erp_next_cursor pg, wt_pending := erp_has_more pg\<rparr>)"
      unfolding drain_replay_def \<open>ReplayRequest_new route (wt_cursor s) limit = Inr request\<close> sum.case Inr
        Let_def if_not_P [OF valid]
      by (auto simp: send_message_def)
    show ?thesis
    proof (cases "?sends \<and> \<not> w")
      case True
      with unfold failed show ?thesis by (simp add: end_session_def)
    next
      case False
      then have "?sends \<Longrightarrow> w" by blast
      moreover have "drain_replay px access who app w route limit e s =
          s\<lparr>wt_sent := wt_sent s @ (if ?sends then [WsBinary (erp_bytes pg)] else []),
            wt_cursor := erp_next_cursor pg, wt_pending := erp_has_more pg\<rparr>"
        using unfold False by (simp only: if_False)
      ultimately show ?thesis
        using page request Inr by blast
    qed
  qed
qed

lemma delivered_page:
  assumes "delivered px s xs" and "encode_replay_page_preserving px ys n h = Inr bs"
    and "binaries (wt_sent t) = binaries (wt_sent s) @ [bs]"
  shows "delivered px t (xs @ ys)"
proof -
  from assms(1) obtain pages where pages: "list_all2 (carries px) (binaries (wt_sent s)) pages" "concat (map fst pages) = xs"
    by (auto simp: delivered_def)
  have "list_all2 (carries px) (binaries (wt_sent t)) (pages @ [(ys, n, h)])"
    using pages(1) assms(2,3) by (auto simp: carries_def intro: list_all2_appendI)
  then show ?thesis
    unfolding delivered_def using pages(2) by (intro exI [of _ "pages @ [(ys, n, h)]"]) simp
qed

lemma delivered_same: "binaries (wt_sent t) = binaries (wt_sent s) \<Longrightarrow> delivered px t xs = delivered px s xs"
  by (simp add: delivered_def)

lemma session_ok_same:
  assumes "session_ok px app s" and "binaries (wt_sent t) = binaries (wt_sent s)"
    and "wt_request t = wt_request s" "wt_cursor t = wt_cursor s" "wt_phase t = wt_phase s \<or> wt_phase t = Ended"
  shows "session_ok px app t"
  using assms by (auto simp: session_ok_def delivered_same [OF assms(2)] split: option.splits)

lemma replayed_log:
  assumes "app_inv px app" and "RelayApplication_replay_encoded px access who request app = Inr page"
  shows "access_grants access (ra_db app) who (rr_routing_id request) Replay \<and>
    replay_encoded px (rd_log (ra_db app)) request = Inr page"
  using assms relay_access.replay_encoded_decides [OF app_inv_parts(2) [OF assms(1)], of px access who request]
  by (simp add: RelayApplication_replay_encoded_def split: if_splits)

lemma drain_replay_ok:
  assumes inv: "app_inv px app" and ok: "session_ok px app s" and request: "wt_request s = Some request"
  shows "session_ok px app (drain_replay px access who app w (rr_routing_id request) (rr_limit request) e s)"
    (is "session_ok px app ?s")
proof (cases rule: drain_replay_cases [of px access who app w "rr_routing_id request" "rr_limit request" e s])
  case failed
  then show ?thesis using session_ok_same [OF ok, of ?s] by simp
next
  case (page page)
  let ?L = "watch_log app request" and ?c = "wt_cursor s"
  let ?B = "beyond ?c ?L"
  note log = app_inv_parts(1) [OF inv]
  from ok request have okD: "wt_phase s \<noteq> AwaitingRequest" "delivered px s (upto ?c ?L)"
    "?c = rr_after_cursor request \<or> ?c \<in> snd ` set ?L"
    by (auto simp: session_ok_def)
  have sorted: "sorted_wrt (<) (map snd ?L)" by (rule log_after_wire(2) [OF log])
  have "rr_after_cursor request \<le> ?c"
    using okD(3) log_after_gt [OF log] by (force intro: less_imp_le)
  then have B: "log_after (rd_log (ra_db app)) (routing_id_bytes (rr_routing_id request)) (int (unat ?c)) = ?B"
    by (rule log_after_beyond [OF log])
  obtain k where k: "k \<le> length ?B" "erp_envelope_count page = k"
    "encode_replay_page_preserving px (take k ?B) (erp_next_cursor page) (erp_has_more page) = Inr (erp_bytes page)"
    "erp_next_cursor page = (if k = 0 then ?c else snd (?B ! (k - 1)))"
    using replay_encoded_page [OF log _ _ conjunct2 [OF replayed_log [OF inv page(3)]]] page(1,2) B by auto
  show ?thesis
  proof (cases "k = 0")
    case True
    have "delivered px ?s (upto ?c ?L)"
    proof (cases e)
      case True
      then show ?thesis
        using delivered_page [OF okD(2) k(3), of ?s] page(5) \<open>k = 0\<close> by simp
    next
      case False
      then show ?thesis using okD(2) page(5) k(2) \<open>k = 0\<close> by (simp add: delivered_def)
    qed
    then show ?thesis
      using page k(2,4) True okD request by (auto simp: session_ok_def)
  next
    case False
    then have len: "k - 1 < length ?B" using k(1) by simp
    have next_cursor: "erp_next_cursor page = snd (?B ! (k - 1))" using k(4) False by simp
    have "upto (erp_next_cursor page) ?L = upto ?c ?L @ take k ?B"
      using upto_next [OF sorted len] False next_cursor by simp
    moreover have "delivered px ?s (upto ?c ?L @ take k ?B)"
      using delivered_page [OF okD(2) k(3), of ?s] page(5) False k(2) by simp
    moreover have "erp_next_cursor page \<in> snd ` set ?L"
      using nth_mem [OF len] unfolding next_cursor by (auto simp: beyond_def)
    ultimately show ?thesis
      using page False k(2) okD(1) request by (auto simp: session_ok_def)
  qed
qed

lemma drain_request_ok:
  assumes "app_inv px app" and "session_ok px app s"
  shows "session_ok px app (drain_request px access who app w s)"
  using assms drain_replay_ok by (auto simp: drain_request_def split: option.splits)

lemma session_ok_begin:
  assumes inv: "app_inv px app" and ok: "session_ok px app s" and phase: "wt_phase s = AwaitingRequest"
    and dec: "decode_replay_request px bs = Inr request"
  shows "session_ok px app (s\<lparr>wt_phase := Watching, wt_request := Some request, wt_cursor := rr_after_cursor request\<rparr>)"
proof -
  have limit: "1 \<le> unat (rr_limit request)" "unat (rr_limit request) \<le> 100"
    using dec by (auto simp: decode_replay_request_def ReplayRequest_new_eq_Inr)
  have "binaries (wt_sent s) = []" using ok phase by (auto simp: session_ok_def split: option.splits)
  then show ?thesis
    using limit upto_start [OF app_inv_parts(1) [OF inv]] by (simp add: session_ok_def delivered_def)
qed

lemma receive_replay_request_ok:
  assumes "app_inv px app" and "session_ok px app s" and "wt_phase s = AwaitingRequest"
  shows "session_ok px app (receive_replay_request px access who app w input s)"
proof (cases "\<exists>bs request. input = Received (WsBinary bs) \<and> decode_replay_request px bs = Inr request")
  case True
  then obtain bs request where "input = Received (WsBinary bs)" and dec: "decode_replay_request px bs = Inr request" by blast
  then show ?thesis
    using drain_replay_ok [OF assms(1) session_ok_begin [OF assms dec], of request] by simp
next
  case False
  let ?t = "receive_replay_request px access who app w input s"
  have "binaries (wt_sent ?t) = binaries (wt_sent s) \<and> wt_request ?t = wt_request s \<and>
      wt_cursor ?t = wt_cursor s \<and> (wt_phase ?t = wt_phase s \<or> wt_phase ?t = Ended)"
    using False
    by (cases "(px, access, who, app, w, input, s)" rule: receive_replay_request.cases)
      (auto simp: end_session_def close_with_def send_message_def split: sum.splits)
  then show ?thesis using session_ok_same [OF assms(2)] by blast
qed

lemma watch_loop_ok:
  assumes "app_inv px app" and "session_ok px app s"
  shows "session_ok px app (watch_loop px access who app w input s)"
proof -
  let ?t = "watch_loop px access who app w input s"
  have "?t = drain_request px access who app w s \<or>
      (binaries (wt_sent ?t) = binaries (wt_sent s) \<and> wt_request ?t = wt_request s \<and>
       wt_cursor ?t = wt_cursor s \<and> (wt_phase ?t = wt_phase s \<or> wt_phase ?t = Ended))"
    by (cases "(px, access, who, app, w, input, s)" rule: watch_loop.cases)
      (auto simp: end_session_def close_with_def send_message_def begin_ping_def observe_pong_def)
  then show ?thesis
    using session_ok_same [OF assms(2)] drain_request_ok [OF assms, of access who w] by metis
qed

lemma watch_step_ok:
  assumes "app_inv px app" and "session_ok px app s"
  shows "session_ok px app (watch_step px access who app w input s)"
  using assms receive_replay_request_ok watch_loop_ok
  by (auto simp: watch_step_def split: watch_phase.splits)

lemma session_ok_relay:
  assumes ok: "session_ok px app s" and adv: "advanced px app app'" and inv: "app_inv px app"
  shows "session_ok px app' s"
proof (cases "wt_request s")
  case None
  then show ?thesis using ok by (simp add: session_ok_def)
next
  case (Some request)
  have log': "log_inv px (rd_log (ra_db app'))" and le: "log_le (rd_log (ra_db app)) (rd_log (ra_db app'))"
    using adv app_inv_parts(1) by (auto simp: advanced_def app_le_def db_grows_def)
  obtain new where new: "watch_log app' request = watch_log app request @ new"
    using log_after_grows [OF le] by blast
  have sorted: "sorted_wrt (<) (map snd (watch_log app request @ new))"
    using log_after_wire(2) [OF log'] new by metis
  have gt: "\<forall>e\<in>set new. rr_after_cursor request < snd e"
    using log_after_gt [OF log'] new by (metis Un_iff set_append)
  have "upto (wt_cursor s) (watch_log app' request) = upto (wt_cursor s) (watch_log app request)"
    unfolding new using sorted gt ok Some by (intro upto_grows) (auto simp: session_ok_def)
  then show ?thesis
    using ok Some new by (auto simp: session_ok_def)
qed

lemma watch_reaches_ok:
  "watch_reaches px access who app s \<Longrightarrow> app_inv px app \<and> session_ok px app s"
proof (induction rule: watch_reaches.induct)
  case (watch_start app)
  then show ?case by (simp add: session_ok_def new_session_def)
next
  case (watch_relay app s op)
  then show ?case
    using relay_step_advanced [of px app access op] session_ok_relay by (auto simp: advanced_def)
next
  case (watch_session app s input w)
  then show ?case using watch_step_ok by blast
qed

text \<open>
  C3: However relay operations, lost or spurious notifications, timers and client frames
  interleave, the binary pages a watch session has written carry exactly the route's log
  between the requested cursor and the session's cursor: every accepted envelope of that
  range once, in cursor order, as the bytes that were submitted, and nothing else.
\<close>
theorem watch_delivers_exactly:
  assumes "watch_reaches px access who app s" and "wt_request s = Some request"
  shows "\<exists>pages. list_all2 (carries px) (binaries (wt_sent s)) pages \<and>
    concat (map fst pages) = upto (wt_cursor s) (watch_log app request)"
  using watch_reaches_ok [OF assms(1)] assms(2) by (auto simp: session_ok_def delivered_def)

section \<open>Losing the grant\<close>

lemma drain_replay_grant:
  assumes "app_inv px app"
    and "binaries (wt_sent (drain_replay px access who app w route limit e s)) \<noteq> binaries (wt_sent s)"
  shows "access_grants access (ra_db app) who route Replay"
proof (cases rule: drain_replay_cases [of px access who app w route limit e s])
  case failed
  then show ?thesis using assms(2) by simp
next
  case (page page)
  then show ?thesis using replayed_log [OF assms(1) page(3)] by simp
qed

lemma drain_replay_request: "wt_request (drain_replay px access who app w route limit e s) = wt_request s"
  by (cases rule: drain_replay_cases [of px access who app w route limit e s]) simp_all

lemma watch_step_grant:
  assumes "app_inv px app"
    and "binaries (wt_sent (watch_step px access who app w input s)) \<noteq> binaries (wt_sent s)"
  shows "\<exists>request. wt_request (watch_step px access who app w input s) = Some request \<and>
    access_grants access (ra_db app) who (rr_routing_id request) Replay"
proof (cases "wt_phase s")
  case AwaitingRequest
  let ?t = "receive_replay_request px access who app w input s"
  have t: "watch_step px access who app w input s = ?t" using AwaitingRequest by (simp add: watch_step_def)
  show ?thesis
  proof (cases "\<exists>bs request. input = Received (WsBinary bs) \<and> decode_replay_request px bs = Inr request")
    case True
    then obtain request where req: "?t = drain_replay px access who app w (rr_routing_id request) (rr_limit request) True
        (s\<lparr>wt_phase := Watching, wt_request := Some request, wt_cursor := rr_after_cursor request\<rparr>)"
      by auto
    have "access_grants access (ra_db app) who (rr_routing_id request) Replay"
      using assms(2) drain_replay_grant [OF assms(1), of access who w "rr_routing_id request" "rr_limit request" True
          "s\<lparr>wt_phase := Watching, wt_request := Some request, wt_cursor := rr_after_cursor request\<rparr>"]
      unfolding t req by simp
    then show ?thesis unfolding t req by (simp add: drain_replay_request)
  next
    case False
    then have "binaries (wt_sent ?t) = binaries (wt_sent s)"
      by (cases "(px, access, who, app, w, input, s)" rule: receive_replay_request.cases)
        (auto simp: end_session_def close_with_def send_message_def split: sum.splits)
    then show ?thesis using assms(2) t by simp
  qed
next
  case Watching
  let ?t = "watch_loop px access who app w input s"
  have t: "watch_step px access who app w input s = ?t" using Watching by (simp add: watch_step_def)
  have "?t = drain_request px access who app w s \<or> binaries (wt_sent ?t) = binaries (wt_sent s)"
    by (cases "(px, access, who, app, w, input, s)" rule: watch_loop.cases)
      (auto simp: end_session_def close_with_def send_message_def begin_ping_def observe_pong_def)
  then have drain: "?t = drain_request px access who app w s" using assms(2) t by simp
  show ?thesis
  proof (cases "wt_request s")
    case None
    then show ?thesis using assms(2) drain t by (simp add: drain_request_def)
  next
    case (Some request)
    then have req: "?t = drain_replay px access who app w (rr_routing_id request) (rr_limit request) False s"
      using drain by (simp add: drain_request_def)
    have "access_grants access (ra_db app) who (rr_routing_id request) Replay"
      using assms(2) drain_replay_grant [OF assms(1), of access who w "rr_routing_id request" "rr_limit request" False s]
      unfolding t req by simp
    then show ?thesis unfolding t req using Some by (simp add: drain_replay_request)
  qed
next
  case Ended
  then show ?thesis using assms(2) by (simp add: watch_step_def)
qed

lemma revoked_no_grants:
  assumes "registry_inv (rd_registry db)" and "revoked who (rd_registry db)" and "\<not> contains_principal access who"
  shows "\<not> access_grants access db who route p"
proof -
  have "\<not> dynamic_grants db who route p"
    using revoked_inactive [OF assms(1,2)] is_principal_active_eq [OF assms(1), of who]
    by (simp add: dynamic_grants_def)
  then show ?thesis
    using assms(3) by (simp add: access_grants_def is_authorized_def contains_principal_def split: option.splits)
qed

lemma revoke_takes_effect:
  fixes access ops
  assumes inv: "app_inv px app" and revoke: "RelayApplication_revoke_principal who app = (Inr True, app')"
  defines "later \<equiv> run_ops (relay_step px access) ops app'"
  shows "app_inv px later \<and> revoked who (rd_registry (ra_db later))"
proof -
  have reg: "revoke_principal who (rd_registry (ra_db app)) = (Inr True, rd_registry (ra_db app'))"
    using revoke by (auto simp: RelayApplication_revoke_principal_def on_db_def on_registry_def on_part_def split: prod.splits)
  have inv': "app_inv px app'"
    using relay_step_advanced [OF inv, of access "Revoke_op who"] revoke by (simp add: advanced_def)
  have later: "app_inv px later" "app_le app' later"
    unfolding later_def using inv' by (rule community_relay.run_invar community_relay.run_le)+
  then show ?thesis
    using revoked_mono [OF revoke_revokes [OF reg]] app_inv_parts(2) [OF later(1)]
    by (auto simp: app_le_def db_grows_def)
qed

text \<open>
  C5: Revoking a dynamically enrolled principal cuts it off at once and for good, through
  every layer of the relay. After a reported revocation and any further operations, a
  principal that the access document does not name can no longer authenticate; its
  submissions and acknowledgments are refused and change nothing; its replays are
  refused; and no watch session of it, even one opened before, is sent another page.
  Authorization and operation are one step here: a request already authorized when the
  revocation commits is not covered.
\<close>
theorem revoked_principal_cut_off:
  assumes "app_inv px app" and "RelayApplication_revoke_principal who app = (Inr True, app')"
    and "later = run_ops (relay_step px access) ops app'" and "\<not> contains_principal access who"
  shows "authenticate_data_plane libs access headers (ra_db later) \<noteq> Inr who \<and>
    (\<exists>e. RelayApplication_submit_encoded px access clock who bs later = (Inl e, later)) \<and>
    RelayApplication_acknowledge access who ack later = (Inl Unauthorized, later) \<and>
    RelayApplication_replay_encoded px access who request later = Inl Unauthorized \<and>
    binaries (wt_sent (watch_step px access who later writable input s)) = binaries (wt_sent s)"
proof -
  have inv: "app_inv px later" and rev: "revoked who (rd_registry (ra_db later))"
    using revoke_takes_effect [OF assms(1,2)] assms(3) by blast+
  note reg = app_inv_parts(2) [OF inv]
  note none = revoked_no_grants [OF reg rev assms(4)]
  have auth: "authenticate_data_plane libs access headers (ra_db later) \<noteq> Inr who"
    using revoked_inactive [OF reg rev] assms(4) by (auto simp: authenticate_data_plane_def)
  have ack: "RelayApplication_acknowledge access who ack later = (Inl Unauthorized, later)"
    using relay_access.acknowledge_decides [OF reg, of access who ack] none
    by (simp add: RelayApplication_acknowledge_def on_db_def on_part_def)
  have submit: "\<exists>e. RelayApplication_submit_encoded px access clock who bs later = (Inl e, later)"
  proof (cases "decode_relay_envelope px bs")
    case (Inl e)
    then show ?thesis by (simp add: RelayApplication_submit_encoded_def)
  next
    case (Inr e)
    then show ?thesis
      using relay_access.submit_encoded_decides [OF reg Inr, of access clock who] none
      by (simp add: RelayApplication_submit_encoded_def on_db_def on_part_def)
  qed
  have "RelayApplication_replay_encoded px access who request later = Inl Unauthorized"
    using relay_access.replay_encoded_decides [OF reg, of px access who request] none
    by (simp add: RelayApplication_replay_encoded_def)
  moreover have "binaries (wt_sent (watch_step px access who later writable input s)) = binaries (wt_sent s)"
    using watch_step_grant [OF inv, of access who writable input s] none by blast
  ultimately show ?thesis using auth ack submit by blast
qed

end
