(* ===== verification/Community_Watch_Live.thy ===== *)
theory Community_Watch_Live
  imports Community_Watch_Props
begin

text \<open>
  A watch session catches up: the loop that keeps replaying while a page says that more is
  stored ends, and then everything stored for the route has been written to the socket.
  The Protocol Buffers library is the parameter \<open>px\<close>; its laws \<open>protobuf_rules\<close> say
  that it reads and skips fields of the wire format and decodes the pages the forwarding
  encoder writes, as long as the nesting of the forwarded envelopes stays within its
  recursion limit.
\<close>

section \<open>Progress of one replay\<close>

text \<open>
  What the forwarding path relies on of the Protocol Buffers library, each a rule of the
  wire format: keys and values written in canonical form are read back and skipped, a page
  of such fields decodes field by field with the nested envelopes decoded as they would be
  alone, and the length of a nested message is that of its fields. The library refuses input
  nested deeper than its documented recursion limit of 100 levels, and an envelope in a page
  lies two levels deeper than an envelope alone (the page's repeated field and the stored
  envelope's field). The parameter \<open>nesting\<close> is the number of levels the library counts in
  an encoded envelope; the page law covers envelopes that leave room for those two.
\<close>

definition PROST_RECURSION_LIMIT :: nat where "PROST_RECURSION_LIMIT = 100"

definition fits_in_page :: "(bytes \<Rightarrow> nat) \<Rightarrow> bytes \<Rightarrow> bool" where
  "fits_in_page nesting e \<longleftrightarrow> nesting e + 2 \<le> PROST_RECURSION_LIMIT"

definition page_bytes :: "(bytes \<times> u64) list \<Rightarrow> u64 \<Rightarrow> bool \<Rightarrow> bytes" where
  "page_bytes es n h =
     concat (map (\<lambda>s. append_length_delimited 1 s []) (map stored_bytes es)) @
     (if n \<noteq> 0 then append_varint_field 2 n [] else []) @ (if h then append_varint_field 3 1 [] else [])"

definition protobuf_rules :: "(bytes \<Rightarrow> nat) \<Rightarrow> prost \<Rightarrow> bool" where
  "protobuf_rules nesting px \<longleftrightarrow>
     (\<forall>f rest. 1 \<le> f \<and> f \<le> 3 \<longrightarrow>
        px_decode_key px (append_key f 2 [] @ rest) = Some ((f, LengthDelimited), rest) \<and>
        px_decode_key px (append_key f 0 [] @ rest) = Some ((f, Varint), rest)) \<and>
     (\<forall>f v rest. px_skip_field px Varint f (append_varint v [] @ rest) = Some rest) \<and>
     (\<forall>f bs rest. length bs < 2 ^ 64 \<longrightarrow>
        px_skip_field px LengthDelimited f (append_varint (of_nat (length bs)) [] @ bs @ rest) = Some rest) \<and>
     (\<forall>es ws n h. list_all2 (\<lambda>e w. length (fst e) \<le> MAX_RELAY_ENVELOPE_BYTES \<and> fits_in_page nesting (fst e) \<and>
          mc_decode (px_relay_envelope px) (fst e) = Inr w) es ws \<longrightarrow>
        mc_decode (px_replay_page px) (page_bytes es n h) =
          Inr \<lparr>wp_envelopes = map2 (\<lambda>e w. \<lparr>ws_envelope = Some w, ws_cursor = snd e\<rparr>) es ws,
               wp_next_cursor = n, wp_has_more = h\<rparr>) \<and>
     (\<forall>w c. let n = mc_encoded_len (px_relay_envelope px) w in
        mc_encoded_len (px_stored_relay_envelope px) \<lparr>ws_envelope = Some w, ws_cursor = c\<rparr> =
          1 + varint_length (of_nat n) + n + (if c = 0 then 0 else varint_field_length c))"

lemma fields_of_key_value:
  assumes "protobuf_rules nesting px" and "1 \<le> f" "f \<le> 3" and "fields_of px rest fs"
  shows "fields_of px (append_varint_field f v [] @ rest) ((f, Varint) # fs)"
    and "length bs < 2 ^ 64 \<Longrightarrow> fields_of px (append_length_delimited f bs [] @ rest) ((f, LengthDelimited) # fs)"
proof -
  have ne: "append_key f t [] \<noteq> []" for t
    using varint_length_pos [of "push_bit 3 (ucast f) OR ucast t"] varint_length_append [of "push_bit 3 (ucast f) OR ucast t" "[]"]
    by (auto simp: append_key_def)
  show "fields_of px (append_varint_field f v [] @ rest) ((f, Varint) # fs)"
    using assms ne by (intro fields_next) (auto simp: append_varint_field_acc protobuf_rules_def)
  show "fields_of px (append_length_delimited f bs [] @ rest) ((f, LengthDelimited) # fs)" if "length bs < 2 ^ 64"
    using assms ne that by (intro fields_next) (auto simp: append_length_delimited_acc protobuf_rules_def)
qed

lemma fields_of_page:
  assumes px: "protobuf_rules nesting px" and "\<forall>(e, c) \<in> set es. length e \<le> MAX_RELAY_ENVELOPE_BYTES"
  shows "fields_of px (page_bytes es n h)
    (replicate (length es) (1, LengthDelimited) @ (if n \<noteq> 0 then [(2, Varint)] else []) @ (if h then [(3, Varint)] else []))"
  using assms(2)
proof (induction es)
  case Nil
  show ?case
    using fields_of_key_value(1) [OF px, of 3 "[]" "[]" 1]
      fields_of_key_value(1) [OF px, of 2 "append_varint_field 3 1 []" "[(3, Varint)]" n]
      fields_of_key_value(1) [OF px, of 2 "[]" "[]" n]
    by (simp add: page_bytes_def)
next
  case (Cons x es)
  obtain e c where x: "x = (e, c)" by force
  have "length (stored_bytes x) < 2 ^ 64"
    using Cons.prems length_stored_bytes [of e c] x by (simp add: MAX_RELAY_ENVELOPE_BYTES_def)
  then show ?case
    using Cons fields_of_key_value(2) [OF px, of 1] by (simp add: page_bytes_def)
qed

lemma encoded_page_order:
  assumes "encode_replay_page_preserving px es n h = Inr bs"
  shows "length es \<le> 100 \<and> sorted_wrt (<) (map snd es) \<and> 0 \<notin> snd ` set es \<and> (es \<noteq> [] \<longrightarrow> snd (last es) \<le> n)"
proof -
  from assms obtain lc len ls where r: "preserving_lengths px None 0 es = Inr (lc, len, ls)"
    and "length es \<le> MAX_REPLAY_PAGE_SIZE" "\<not> (case lc of None \<Rightarrow> False | Some cursor \<Rightarrow> n < cursor)"
    by (auto simp: encode_replay_page_preserving_def split: if_splits)
  then show ?thesis
    using preserving_lengths_eq_Inr [OF r] by (auto simp: domain_bounds split: if_splits)
qed

lemma stored_from_wire_decoded:
  assumes px: "protobuf_rules nesting px" and e: "decode_relay_envelope px e = Inr v" and c: "c \<noteq> 0"
  shows "stored_from_wire px \<lparr>ws_envelope = Some (relay_to_wire v), ws_cursor = c\<rparr> =
    Inr \<lparr>stored_envelope = v, stored_cursor = c\<rparr>"
proof -
  let ?n = "mc_encoded_len (px_relay_envelope px) (relay_to_wire v)"
  have v: "?n \<le> 1048576" "relay_from_wire px (relay_to_wire v) = Inr v"
    using e by (auto simp: decode_relay_envelope_eq_Inr relay_from_wire_eq_Inr MAX_RELAY_ENVELOPE_BYTES_def)
  have "mc_encoded_len (px_stored_relay_envelope px) \<lparr>ws_envelope = Some (relay_to_wire v), ws_cursor = c\<rparr> =
      1 + varint_length (of_nat ?n) + ?n + varint_field_length c"
    using px c by (simp add: protobuf_rules_def Let_def)
  then have "mc_encoded_len (px_stored_relay_envelope px) \<lparr>ws_envelope = Some (relay_to_wire v), ws_cursor = c\<rparr>
      \<le> STORED_RELAY_ENVELOPE_MAX_BYTES"
    using v(1) varint_length_le_10 [of "of_nat ?n"] varint_length_le_10 [of c]
    by (simp add: varint_field_length_def STORED_RELAY_ENVELOPE_MAX_BYTES_def MAX_RELAY_ENVELOPE_BYTES_def)
  then show ?thesis
    using v(2) c by (simp add: stored_from_wire_def require_encoded_size_def required_def StoredRelayEnvelope_new_def)
qed

lemma decode_encoded_page:
  assumes px: "protobuf_rules nesting px" and enc: "encode_replay_page_preserving px es n h = Inr bs"
    and fits: "\<forall>e \<in> set es. fits_in_page nesting (fst e)"
  shows "\<exists>page. decode_replay_page px bs = Inr page \<and> page_next_cursor page = n \<and>
    page_has_more page = h \<and> length (page_envelopes page) = length es"
proof -
  note facts = encode_replay_page_preserving_eq_Inr [OF enc] and order = encoded_page_order [OF enc]
  define v where "v e = projr (decode_relay_envelope px e)" for e
  have dec: "decode_relay_envelope px e = Inr (v e)" if "(e, c) \<in> set es" for e c
    using facts that by (force simp: v_def)
  let ?ws = "map (\<lambda>x. relay_to_wire (v (fst x))) es"
  let ?wires = "map (\<lambda>x. \<lparr>ws_envelope = Some (relay_to_wire (v (fst x))), ws_cursor = snd x\<rparr>) es"
  let ?stored = "map (\<lambda>x. \<lparr>stored_envelope = v (fst x), stored_cursor = snd x\<rparr>) es"
  have bs: "bs = page_bytes es n h" "length bs \<le> MAX_REPLAY_PAGE_BYTES"
    using facts by (auto simp: page_bytes_def)
  have short: "\<forall>(e, c) \<in> set es. length e \<le> MAX_RELAY_ENVELOPE_BYTES"
    using dec by (fastforce simp: decode_relay_envelope_eq_Inr)
  let ?fs = "replicate (length es) (1, LengthDelimited) @ (if n \<noteq> 0 then [(2, Varint)] else []) @
      (if h then [(3, Varint)] else [])"
  have fields: "fields_of px bs ?fs" "length ?fs \<le> MAX_PROTOBUF_TOP_LEVEL_FIELDS"
    using fields_of_page [OF px short] order by (simp_all add: bs MAX_PROTOBUF_TOP_LEVEL_FIELDS_def)
  have "within_limits [(1, MAX_REPLAY_PAGE_SIZE, f)] [0] ?fs" for f
    using order by (simp add: within_limits_def occurrences_def domain_bounds)
  then have scanned: "require_repeated_field_limits px bs MAX_REPLAY_PAGE_BYTES ''ReplayPage''
      [(1, MAX_REPLAY_PAGE_SIZE, ''replay_envelopes'')] = Inr ()"
    using scan_fields_accepts [OF fields(1), of 0 "[(1, MAX_REPLAY_PAGE_SIZE, ''replay_envelopes'')]" "[0]"] fields(2) bs(2)
    by (simp add: require_repeated_field_limits_def require_input_size_def within_limits_def occurrences_def)
  have "list_all2 (\<lambda>e w. length (fst e) \<le> MAX_RELAY_ENVELOPE_BYTES \<and> fits_in_page nesting (fst e) \<and>
      mc_decode (px_relay_envelope px) (fst e) = Inr w) es ?ws"
    using dec short fits by (fastforce simp: list_all2_map2 list_all2_same decode_relay_envelope_eq_Inr)
  then have "mc_decode (px_replay_page px) bs = Inr \<lparr>wp_envelopes = ?wires, wp_next_cursor = n, wp_has_more = h\<rparr>"
    using px unfolding protobuf_rules_def bs(1) by (simp add: map2_map_map [where f = id, simplified])
  then have decoded: "decode_bounded px (px_replay_page px) bs MAX_REPLAY_PAGE_BYTES ''ReplayPage'' =
      Inr \<lparr>wp_envelopes = ?wires, wp_next_cursor = n, wp_has_more = h\<rparr>"
    using fields bs(2) by (auto simp: decode_bounded_eq_Inr)
  have "collect (stored_from_wire px) ?wires = Inr ?stored"
    using stored_from_wire_decoded [OF px dec] order
    by (force simp: collect_eq_Inr list_all2_map1 list_all2_map2 list_all2_same)
  moreover have "ReplayPage_new ?stored n h = Inr \<lparr>page_envelopes = ?stored, page_next_cursor = n, page_has_more = h\<rparr>"
    using order by (auto simp: ReplayPage_new_eq_Inr last_map comp_def)
  ultimately show ?thesis
    using scanned decoded order by (simp add: decode_replay_page_def domain_bounds)
qed

lemma EncodedReplayPage_new_accepts:
  assumes "length bs \<le> MAX_REPLAY_PAGE_BYTES" "k \<le> MAX_REPLAY_PAGE_SIZE" and "decode_replay_page px bs = Inr page"
    and "page_next_cursor page = n" "page_has_more page = h" "length (page_envelopes page) = k"
    and "h \<Longrightarrow> k \<noteq> 0" "k = 0 \<Longrightarrow> n = a" "k \<noteq> 0 \<Longrightarrow> a < n"
  shows "EncodedReplayPage_new px bs a n h k =
    Inr \<lparr>erp_bytes = bs, erp_next_cursor = n, erp_has_more = h, erp_envelope_count = k\<rparr>"
  using assms(7-9) unfolding EncodedReplayPage_new_def
  by (simp add: assms(1-6) not_less) (auto simp: not_le)

lemma replay_encoded_succeeds:
  assumes inv: "log_inv px db" and limit: "1 \<le> unat (rr_limit request)" "unat (rr_limit request) \<le> 100"
    and after: "unat (rr_after_cursor request) < 2 ^ 63" and law: "protobuf_rules nesting px"
    and fits: "\<forall>e \<in> set (log_after db (routing_id_bytes (rr_routing_id request))
      (int (unat (rr_after_cursor request)))). fits_in_page nesting (fst e)"
  shows "\<exists>page. replay_encoded px db request = Inr page"
proof -
  let ?L = "log_after db (routing_id_bytes (rr_routing_id request)) (int (unat (rr_after_cursor request)))"
  obtain k where k: "k \<le> length ?L" "k \<le> unat (rr_limit request)" "?L \<noteq> [] \<longrightarrow> 0 < k"
    and load: "load_replay_entries px db request =
      Inr \<lparr>ents_entries = map entry_of (take k ?L),
           ents_next_cursor = (if k = 0 then rr_after_cursor request else snd (?L ! (k - 1))),
           ents_has_more = (k < length ?L)\<rparr>"
    using load_replay_entries_spec [OF inv limit after] by blast
  let ?n = "if k = 0 then rr_after_cursor request else snd (?L ! (k - 1))" and ?h = "k < length ?L"
  have entries: "map (\<lambda>x. (ent_encoded_envelope x, ent_cursor x)) (map entry_of xs) = xs" for xs
    by (induction xs) (auto simp: entry_of_def)
  obtain bs where bs: "encode_replay_page_preserving px (take k ?L) ?n ?h = Inr bs" "length bs \<le> MAX_REPLAY_PAGE_BYTES"
    using replay_page_encodes [OF inv limit after load] unfolding replay_entries.simps entries by blast
  then obtain page where page: "decode_replay_page px bs = Inr page" "page_next_cursor page = ?n"
    "page_has_more page = ?h" "length (page_envelopes page) = k"
    using decode_encoded_page [OF law bs(1)] k(1) fits by (fastforce dest: in_set_takeD)
  have "rr_after_cursor request < ?n" if "k \<noteq> 0"
    using log_after_gt [OF inv nth_mem, of "k - 1" "routing_id_bytes (rr_routing_id request)" "rr_after_cursor request"]
      that k(1) by simp
  then have "EncodedReplayPage_new px bs (rr_after_cursor request) ?n ?h k =
      Inr \<lparr>erp_bytes = bs, erp_next_cursor = ?n, erp_has_more = ?h, erp_envelope_count = k\<rparr>"
    using k limit(2)
    by (intro EncodedReplayPage_new_accepts [OF bs(2) _ page]) (auto simp: domain_bounds)
  moreover have "length (map entry_of (take k ?L)) = k" using k(1) by simp
  ultimately show ?thesis
    unfolding replay_encoded_def load and_then.simps replay_entries.simps Let_def entries bs(1) map_err.simps by simp
qed

lemma drain_replay_writes:
  assumes "ReplayRequest_new route (wt_cursor s) limit = Inr q"
    and "RelayApplication_replay_encoded px access who q app = Inr page"
    and "erp_envelope_count page = 0 \<Longrightarrow> erp_next_cursor page = wt_cursor s"
    and "erp_envelope_count page \<noteq> 0 \<Longrightarrow> wt_cursor s < erp_next_cursor page"
  shows "\<exists>sent. drain_replay px access who app True route limit e s =
    s\<lparr>wt_sent := sent, wt_cursor := erp_next_cursor page, wt_pending := erp_has_more page\<rparr>"
proof -
  have "\<not> ((erp_envelope_count page = 0 \<and> erp_next_cursor page \<noteq> wt_cursor s) \<or>
      (erp_envelope_count page > 0 \<and> erp_next_cursor page \<le> wt_cursor s))"
    using assms(3,4) by (auto simp: not_le)
  moreover have "s\<lparr>wt_cursor := c, wt_pending := h\<rparr> = s\<lparr>wt_sent := wt_sent s, wt_cursor := c, wt_pending := h\<rparr>" for c h
    by simp
  ultimately show ?thesis
    unfolding drain_replay_def assms(1,2) sum.case Let_def
    by (simp only: if_False simp_thms send_message_def if_True split: if_split) blast
qed

lemma drain_progress:
  assumes inv: "app_inv px app" and ok: "session_ok px app s" and phase: "wt_phase s = Watching"
    and request: "wt_request s = Some request" and after: "unat (rr_after_cursor request) < 2 ^ 63"
    and grant: "access_grants access (ra_db app) who (rr_routing_id request) Replay" and law: "protobuf_rules nesting px"
    and fits: "\<forall>e \<in> set (watch_log app request). fits_in_page nesting (fst e)"
  defines "t \<equiv> drain_request px access who app True s"
  shows "wt_phase t = Watching \<and> wt_request t = Some request \<and>
    (wt_pending t \<longleftrightarrow> beyond (wt_cursor t) (watch_log app request) \<noteq> []) \<and>
    length (beyond (wt_cursor t) (watch_log app request)) \<le> length (beyond (wt_cursor s) (watch_log app request)) - 1"
proof -
  let ?L = "watch_log app request" and ?c = "wt_cursor s"
  let ?B = "beyond ?c ?L" and ?rid = "routing_id_bytes (rr_routing_id request)"
  let ?q = "\<lparr>rr_routing_id = rr_routing_id request, rr_after_cursor = ?c, rr_limit = rr_limit request\<rparr>"
  note log = app_inv_parts(1) [OF inv]
  from ok request have okD: "1 \<le> unat (rr_limit request)" "unat (rr_limit request) \<le> 100"
    "?c = rr_after_cursor request \<or> ?c \<in> snd ` set ?L"
    by (auto simp: session_ok_def)
  have c: "unat ?c < 2 ^ 63"
  proof (cases "?c = rr_after_cursor request")
    case False
    then obtain i where "i < length ?L" "?c = snd (?L ! i)" using okD(3) by (auto simp: in_set_conv_nth)
    then show ?thesis using log_after_cursor_bound [OF log] by (simp only:)
  qed (use after in simp)
  have le: "rr_after_cursor request \<le> ?c"
    using okD(3) log_after_gt [OF log] by (force intro: less_imp_le)
  have B: "log_after (rd_log (ra_db app)) ?rid (int (unat ?c)) = ?B"
    by (rule log_after_beyond [OF log le])
  obtain page where pg: "replay_encoded px (rd_log (ra_db app)) ?q = Inr page"
    using replay_encoded_succeeds [OF log _ _ _ law, of ?q] okD(1,2) c fits B by (auto simp: beyond_def)
  then have run: "RelayApplication_replay_encoded px access who ?q app = Inr page"
    using relay_access.replay_encoded_decides [OF app_inv_parts(2) [OF inv], of px access who ?q] grant
    by (simp add: RelayApplication_replay_encoded_def)
  obtain k where k: "k \<le> length ?B" "?B \<noteq> [] \<longrightarrow> 0 < k"
    "erp_next_cursor page = (if k = 0 then ?c else snd (?B ! (k - 1)))" "erp_has_more page \<longleftrightarrow> k < length ?B"
    "erp_envelope_count page = k"
    using replay_encoded_page [OF log _ _ pg] okD(1,2) B by auto
  have gt: "?c < erp_next_cursor page" if "k \<noteq> 0"
    using nth_mem [of "k - 1" ?B] k(1,3) that by (simp add: beyond_def)
  have "ReplayRequest_new (rr_routing_id request) ?c (rr_limit request) = Inr ?q"
    using okD(1,2) by (simp add: ReplayRequest_new_eq_Inr)
  then have "\<exists>sent. t = s\<lparr>wt_sent := sent, wt_cursor := erp_next_cursor page, wt_pending := erp_has_more page\<rparr>"
    unfolding t_def drain_request_def request option.case
    using k(3) gt unfolding k(5) [symmetric] by (intro drain_replay_writes [OF _ run]) simp_all
  then have drained: "wt_phase t = Watching" "wt_request t = Some request"
      "wt_cursor t = erp_next_cursor page" "wt_pending t = erp_has_more page"
    using phase request by auto
  have "beyond (erp_next_cursor page) ?L = drop k ?B"
  proof (cases "k = 0")
    case False
    have sorted: "sorted_wrt (<) (map snd ?B)"
      using log_after_wire(2) [OF log] by (simp add: beyond_def sorted_wrt_map sorted_wrt_filter)
    have len: "k - 1 < length ?B" using False k(1) by simp
    have "beyond (snd (?B ! (k - 1))) ?B = drop (Suc (k - 1)) ?B"
      unfolding beyond_def [of _ ?B] using sorted len by (rule filter_gt_nth)
    moreover have "?c < snd (?B ! (k - 1))" using nth_mem [OF len] by (simp add: beyond_def)
    then have "beyond (snd (?B ! (k - 1))) ?B = beyond (snd (?B ! (k - 1))) ?L"
      unfolding beyond_def filter_filter by (intro filter_cong) auto
    ultimately show ?thesis using False k(3) by simp
  qed (use k(3) in simp)
  then show ?thesis using drained k by (cases "?B = []") auto
qed

section \<open>Catching up\<close>

text \<open>The session replays while the last page said that more is stored.\<close>

fun catch_up ::
    "nat \<Rightarrow> prost \<Rightarrow> static_relay_access \<Rightarrow> relay_principal_id \<Rightarrow> relay_application \<Rightarrow> watch_session \<Rightarrow> watch_session" where
  "catch_up 0 px access who app s = s"
| "catch_up (Suc n) px access who app s =
     (if wt_pending s then catch_up n px access who app (watch_step px access who app True PendingReplay s) else s)"

lemma beyond_empty_upto: "sorted_wrt (<) (map snd L) \<Longrightarrow> beyond c L = [] \<Longrightarrow> upto c L = L"
  using sorted_upto_beyond [of L c] by simp

lemma catch_up_complete:
  assumes inv: "app_inv px app" and after: "unat (rr_after_cursor request) < 2 ^ 63"
    and grant: "access_grants access (ra_db app) who (rr_routing_id request) Replay" and law: "protobuf_rules nesting px"
    and fits: "\<forall>e \<in> set (watch_log app request). fits_in_page nesting (fst e)"
    and "session_ok px app s" "wt_phase s = Watching" "wt_request s = Some request"
    and "wt_pending s \<longleftrightarrow> beyond (wt_cursor s) (watch_log app request) \<noteq> []"
    and "length (beyond (wt_cursor s) (watch_log app request)) \<le> n"
  shows "wt_phase (catch_up n px access who app s) = Watching \<and> \<not> wt_pending (catch_up n px access who app s) \<and>
    delivered px (catch_up n px access who app s) (watch_log app request)"
  using assms(6-10)
proof (induction n arbitrary: s)
  case 0
  then show ?case
    using beyond_empty_upto [OF log_after_wire(2) [OF app_inv_parts(1) [OF inv]]]
    by (auto simp: session_ok_def)
next
  case (Suc n)
  show ?case
  proof (cases "wt_pending s")
    case True
    let ?t = "drain_request px access who app True s"
    have step: "watch_step px access who app True PendingReplay s = ?t"
      using Suc.prems(2) by (simp add: watch_step_def)
    note progress = drain_progress [OF inv Suc.prems(1-3) after grant law fits]
    have "length (beyond (wt_cursor ?t) (watch_log app request)) \<le> n"
      using progress Suc.prems(5) by linarith
    then show ?thesis
      using Suc.IH [of ?t] progress drain_request_ok [OF inv Suc.prems(1)] True step by simp
  next
    case False
    then show ?thesis
      using Suc.prems beyond_empty_upto [OF log_after_wire(2) [OF app_inv_parts(1) [OF inv]]]
      by (auto simp: session_ok_def)
  qed
qed

text \<open>The inputs on which an open session replays: two timers or flags, and two notifications.\<close>

fun starts_replay :: "watch_input \<Rightarrow> replay_request \<Rightarrow> watch_session \<Rightarrow> bool" where
  "starts_replay SafetyTick request s = True"
| "starts_replay NotifyLagged request s = True"
| "starts_replay PendingReplay request s = wt_pending s"
| "starts_replay (Notified event) request s =
     (ev_routing_id event = rr_routing_id request \<and> ev_cursor event > wt_cursor s)"
| "starts_replay _ request s = False"

lemma starts_replay_step:
  assumes "wt_phase s = Watching" "wt_request s = Some request" "starts_replay input request s"
  shows "watch_step px access who app writable input s = drain_request px access who app writable s"
  using assms by (cases input) (simp_all add: watch_step_def)

text \<open>
  C4: As long as the socket accepts every write, no stored envelope is missed for good. In
  every reachable state, take an open session of a principal that may replay the route it
  asked for, with a requested cursor below 2^63, and suppose no envelope stored after that
  cursor is nested so deeply that a page around it passes the recursion limit of the
  Protocol Buffers library. Whichever input makes the session replay (its safety timer, a
  lagged notification, a notification of a newer cursor of the route, or a pending
  continuation), following the continuation flag while the relay stands still ends after at
  most one further page per envelope stored after the requested cursor; the session is then
  still open with nothing pending, and all those envelopes have been written to the socket.
  (A write that fails ends the session.) The library is assumed to read and measure
  fields as the wire format prescribes.
\<close>
theorem watch_catches_up:
  assumes "watch_reaches px access who app s" and "wt_phase s = Watching" and "wt_request s = Some request"
    and "unat (rr_after_cursor request) < 2 ^ 63" and "protobuf_rules nesting px"
    and "\<forall>e \<in> set (watch_log app request). fits_in_page nesting (fst e)"
    and "access_grants access (ra_db app) who (rr_routing_id request) Replay"
    and "starts_replay input request s"
    and "s' = catch_up (length (watch_log app request)) px access who app
      (watch_step px access who app True input s)"
  shows "wt_phase s' = Watching \<and> \<not> wt_pending s' \<and> delivered px s' (watch_log app request)"
proof -
  note ok = watch_reaches_ok [OF assms(1)]
  let ?t = "drain_request px access who app True s"
  note step = starts_replay_step [OF assms(2,3,8), of px access who app True]
  note progress = drain_progress [OF conjunct1 [OF ok] conjunct2 [OF ok] assms(2-4) assms(7,5,6)]
  have "length (beyond c (watch_log app request)) \<le> length (watch_log app request)" for c
    by (simp add: beyond_def)
  then show ?thesis
    unfolding assms(9) step
    using catch_up_complete [OF conjunct1 [OF ok] assms(4,7,5,6), of ?t] progress
      drain_request_ok [OF conjunct1 [OF ok] conjunct2 [OF ok]] by blast
qed

section \<open>A concrete library and relay\<close>

text \<open>
  The page codec reads the fields of the wire format; the request codec stands for one
  client asking for the sample route from the start.
\<close>

definition read_stored :: "bytes \<Rightarrow> wire_stored_relay_envelope" where
  "read_stored s = (case read_fields s of
       Some [(_, Bytes_field e), (_, Varint_field c)] \<Rightarrow>
         \<lparr>ws_envelope = (case mc_decode sample_codec e of Inl _ \<Rightarrow> None | Inr w \<Rightarrow> Some w), ws_cursor = of_nat c\<rparr>
     | _ \<Rightarrow> \<lparr>ws_envelope = None, ws_cursor = 0\<rparr>)"

definition read_page :: "(nat \<times> wire_field) list \<Rightarrow> wire_replay_page" where
  "read_page fs =
     \<lparr>wp_envelopes = concat (map (\<lambda>f. case f of (_, Bytes_field s) \<Rightarrow> [read_stored s] | _ \<Rightarrow> []) fs),
      wp_next_cursor = sum_list (map (\<lambda>f. case f of (k, Varint_field v) \<Rightarrow> if k = 2 then of_nat v else 0 | _ \<Rightarrow> 0) fs),
      wp_has_more = list_ex (\<lambda>f. fst f = 3) fs\<rparr>"

definition watch_prost :: prost where
  "watch_prost = sample_prost
     \<lparr>px_stored_relay_envelope :=
        \<lparr>mc_decode = (\<lambda>bs. Inr (read_stored bs)),
         mc_encoded_len = (\<lambda>m. case ws_envelope m of None \<Rightarrow> 0 | Some w \<Rightarrow>
           (let n = mc_encoded_len sample_codec w in
              1 + varint_length (of_nat n) + n + (if ws_cursor m = 0 then 0 else varint_field_length (ws_cursor m)))),
         mc_encode_to_vec = (\<lambda>_. [])\<rparr>,
      px_replay_request := silent_codec \<lparr>wr_routing_id = Some (replicate 32 1), wr_after_cursor = 0, wr_limit = 100\<rparr>,
      px_replay_page :=
        \<lparr>mc_decode = (\<lambda>bs. case read_fields bs of None \<Rightarrow> Inl ''malformed'' | Some fs \<Rightarrow> Inr (read_page fs)),
         mc_encoded_len = (\<lambda>_. 0), mc_encode_to_vec = (\<lambda>_. [])\<rparr>\<rparr>"

lemma watch_prost_simps [simp]:
  "px_decode_key watch_prost = px_decode_key sample_prost" "px_skip_field watch_prost = px_skip_field sample_prost"
  "px_relay_envelope watch_prost = sample_codec" "px_relay_envelope sample_prost = sample_codec"
  by (simp_all add: watch_prost_def sample_prost_def)

lemma fields_of_watch_prost: "fields_of sample_prost bs fs \<Longrightarrow> fields_of watch_prost bs fs"
  by (induction rule: fields_of.induct) (auto intro: fields_of.intros)

lemma decode_watch_sample:
  "1 \<le> length p \<Longrightarrow> length p \<le> 1000 \<Longrightarrow>
   decode_relay_envelope watch_prost (sample_encoding p) = Inr (sample_envelope p)"
  using decode_sample [of p] fields_of_watch_prost by (auto simp: decode_relay_envelope_eq_Inr)

lemma read_stored_bytes_sample:
  assumes "length (fst e) \<le> MAX_RELAY_ENVELOPE_BYTES" "mc_decode sample_codec (fst e) = Inr w"
  shows "read_stored (stored_bytes e) = \<lparr>ws_envelope = Some w, ws_cursor = snd e\<rparr>"
  using assms read_stored_bytes [of "fst e" "snd e"] by (simp add: read_stored_def MAX_RELAY_ENVELOPE_BYTES_def)

lemma read_page_bytes:
  assumes "list_all2 (\<lambda>e w. length (fst e) \<le> MAX_RELAY_ENVELOPE_BYTES \<and> mc_decode sample_codec (fst e) = Inr w) es ws"
  shows "map_option read_page (read_fields (page_bytes es n h)) =
    Some \<lparr>wp_envelopes = map2 (\<lambda>e w. \<lparr>ws_envelope = Some w, ws_cursor = snd e\<rparr>) es ws, wp_next_cursor = n, wp_has_more = h\<rparr>"
proof -
  have "length s < 2 ^ 64" if "s \<in> set (map stored_bytes es)" for s
  proof -
    from that obtain e where e: "e \<in> set es" "s = stored_bytes e" by auto
    then have "length (fst e) \<le> MAX_RELAY_ENVELOPE_BYTES" using assms by (auto simp: list_all2_conv_all_nth in_set_conv_nth)
    then show ?thesis using length_stored_bytes [of "fst e" "snd e"] e(2) by (simp add: MAX_RELAY_ENVELOPE_BYTES_def)
  qed
  then have "read_fields (page_bytes es n h) = Some (map (\<lambda>s. (1, Bytes_field s)) (map stored_bytes es) @
      (if n \<noteq> 0 then [(2, Varint_field (unat n))] else []) @ (if h then [(3, Varint_field 1)] else []))"
    unfolding page_bytes_def
    using read_fields_varint_field [of 2 n "[]"] read_fields_varint_field [of 3 1 "[]"]
      read_fields_varint_field [of 2 n "append_varint_field 3 1 []"]
    by (subst read_fields_stored) auto
  moreover have "map (\<lambda>x. read_stored (stored_bytes x)) es = map2 (\<lambda>e w. \<lparr>ws_envelope = Some w, ws_cursor = snd e\<rparr>) es ws"
    using assms by (induction rule: list_all2_induct) (auto simp: read_stored_bytes_sample)
  moreover have "concat (map (\<lambda>x. [f x]) es) = map f es" for f :: "bytes \<times> u64 \<Rightarrow> wire_stored_relay_envelope"
    by (induction es) auto
  moreover have "sum_list (map (\<lambda>x. 0 :: u64) es) = 0" by (induction es) auto
  ultimately show ?thesis
    by (simp add: read_page_def comp_def list_ex_iff)
qed

lemma watch_prost_rules: "protobuf_rules (\<lambda>_. 1) watch_prost"
proof -
  have key: "px_decode_key sample_prost (append_key f 2 [] @ rest) = Some ((f, LengthDelimited), rest)"
    "px_decode_key sample_prost (append_key f 0 [] @ rest) = Some ((f, Varint), rest)" for f rest
    by (simp_all add: sample_prost_def read_append_key key_mod key_div)
  have skip: "px_skip_field sample_prost Varint f (append_varint v [] @ rest) = Some rest" for f v rest
    by (simp add: sample_prost_def read_append_varint)
  have skip': "px_skip_field sample_prost LengthDelimited f (append_varint (of_nat (length bs)) [] @ bs @ rest) = Some rest"
    if "length bs < 2 ^ 64" for f bs rest
    using that by (simp add: sample_prost_def read_append_varint unsigned_of_nat take_bit_nat_eq_self)
  have page: "mc_decode (px_replay_page watch_prost) (page_bytes es n h) =
      Inr \<lparr>wp_envelopes = map2 (\<lambda>e w. \<lparr>ws_envelope = Some w, ws_cursor = snd e\<rparr>) es ws, wp_next_cursor = n, wp_has_more = h\<rparr>"
    if "list_all2 (\<lambda>e w. length (fst e) \<le> MAX_RELAY_ENVELOPE_BYTES \<and> fits_in_page (\<lambda>_. 1) (fst e) \<and>
      mc_decode sample_codec (fst e) = Inr w) es ws" for es ws n h
  proof -
    from that have "list_all2 (\<lambda>e w. length (fst e) \<le> MAX_RELAY_ENVELOPE_BYTES \<and> mc_decode sample_codec (fst e) = Inr w) es ws"
      by (rule list_all2_mono) simp
    from read_page_bytes [OF this, of n h] show ?thesis by (auto simp: watch_prost_def split: option.splits)
  qed
  show ?thesis
    unfolding protobuf_rules_def using key skip skip' page
    by (auto simp: Let_def watch_prost_def [THEN arg_cong, of px_stored_relay_envelope])
qed

lemma watch_fits: "fits_in_page (\<lambda>_. 1) e"
  by (simp add: fits_in_page_def PROST_RECURSION_LIMIT_def)

definition watch_app :: relay_application where
  "watch_app =
     \<lparr>ra_db = \<lparr>rd_log = sample_log [7, 5], rd_registry = sample_registry, rd_rendezvous = [],
                rd_short_codes = empty_short_code_db\<rparr>,
      ra_events = []\<rparr>"

definition closed_access :: static_relay_access where
  "closed_access = \<lparr>sa_grants = (\<lambda>_. None), sa_enrollment_authority = None\<rparr>"

abbreviation "watch_who \<equiv> en_principal_id sample_enrollment"

definition watch_opened :: watch_session where
  "watch_opened = watch_step watch_prost closed_access watch_who watch_app True (Received (WsBinary [])) new_session"

lemma watch_app_inv: "app_inv watch_prost watch_app"
proof -
  have "log_inv sample_prost (sample_log [7, 5])" by (rule sample_log_inv) simp
  then have "log_inv watch_prost (sample_log [7, 5])"
    using decode_watch_sample [of "[7, 5]"] decode_sample [of "[7, 5]"]
    unfolding log_inv_def by (simp add: sample_log_def row_ok_def envelope_row_of_def)
  then show ?thesis
    using sample_registry_inv short_code_inv_empty
    by (simp add: app_inv_def relay_inv_def watch_app_def rendezvous_inv_def)
qed

lemma watch_grant: "access_grants closed_access (ra_db watch_app) watch_who route p"
  by (simp add: access_grants_def dynamic_grants_def watch_app_def sample_registry_def row_of_request_def revocable_def)

lemma decode_watch_request: "decode_replay_request watch_prost [] = Inr sample_request"
  by (simp add: decode_replay_request_def decode_bounded_def require_repeated_field_limits_def require_input_size_def
      scan_fields.simps watch_prost_def silent_codec_def sample_request_def routing_id_from_wire_def required_def
      RoutingId_from_slice_def ReplayRequest_new_def domain_bounds)

lemma watch_opened_reached:
  "watch_reaches watch_prost closed_access watch_who watch_app watch_opened"
  "wt_phase watch_opened = Watching" "wt_request watch_opened = Some sample_request"
proof -
  show "watch_reaches watch_prost closed_access watch_who watch_app watch_opened"
    unfolding watch_opened_def
    by (intro watch_session watch_start watch_app_inv) (simp add: new_session_def)
  let ?s = "new_session\<lparr>wt_phase := Watching, wt_request := Some sample_request, wt_cursor := rr_after_cursor sample_request\<rparr>"
  obtain page where page: "replay_encoded watch_prost (rd_log (ra_db watch_app)) sample_request = Inr page"
    using replay_encoded_succeeds [OF app_inv_parts(1) [OF watch_app_inv] sample_request_ok(1-3) watch_prost_rules] watch_fits by blast
  then have run: "RelayApplication_replay_encoded watch_prost closed_access watch_who sample_request watch_app = Inr page"
    using relay_access.replay_encoded_decides [OF app_inv_parts(2) [OF watch_app_inv], of watch_prost closed_access watch_who sample_request]
      watch_grant by (simp add: RelayApplication_replay_encoded_def)
  have valid: "erp_envelope_count page = 0 \<Longrightarrow> erp_next_cursor page = rr_after_cursor sample_request"
    "erp_envelope_count page \<noteq> 0 \<Longrightarrow> rr_after_cursor sample_request < erp_next_cursor page"
    using page by (auto simp: replay_encoded_def EncodedReplayPage_new_def Let_def split: if_splits)
  have "ReplayRequest_new (rr_routing_id sample_request) (wt_cursor ?s) (rr_limit sample_request) = Inr sample_request"
    by (simp add: ReplayRequest_new_eq_Inr sample_request_def)
  then obtain sent where opened: "watch_opened = ?s\<lparr>wt_sent := sent, wt_cursor := erp_next_cursor page, wt_pending := erp_has_more page\<rparr>"
    using drain_replay_writes [OF _ run, of "rr_routing_id sample_request" ?s "rr_limit sample_request" True] valid
    by (auto simp: watch_opened_def watch_step_def new_session_def decode_watch_request)
  show "wt_phase watch_opened = Watching" "wt_request watch_opened = Some sample_request" unfolding opened by simp_all
qed

theorem watch_delivers_exactly_witness:
  "\<exists>pages. list_all2 (carries watch_prost) (binaries (wt_sent watch_opened)) pages \<and>
    concat (map fst pages) = upto (wt_cursor watch_opened) [(sample_encoding [7, 5], 1)]"
  using watch_delivers_exactly [OF watch_opened_reached(1,3)] sample_log_after [of "[7, 5]"]
  by (simp add: watch_app_def sample_request_def)

theorem watch_catches_up_witness:
  "watch_log watch_app sample_request = [(sample_encoding [7, 5], 1)] \<and>
   delivered watch_prost
     (catch_up 1 watch_prost closed_access watch_who watch_app
        (watch_step watch_prost closed_access watch_who watch_app True SafetyTick watch_opened))
     [(sample_encoding [7, 5], 1)] \<and>
   delivered watch_prost
     (catch_up 1 watch_prost closed_access watch_who watch_app
        (watch_step watch_prost closed_access watch_who watch_app True NotifyLagged watch_opened))
     [(sample_encoding [7, 5], 1)]"
proof -
  have log: "watch_log watch_app sample_request = [(sample_encoding [7, 5], 1)]"
    using sample_log_after [of "[7, 5]"] by (simp add: watch_app_def sample_request_def)
  have len: "length (watch_log watch_app sample_request) = 1" unfolding log by simp
  have "\<forall>e \<in> set (watch_log watch_app sample_request). fits_in_page (\<lambda>_. 1) (fst e)" using watch_fits by blast
  note caught = watch_catches_up [OF watch_opened_reached sample_request_ok(3) watch_prost_rules this watch_grant _ refl,
      unfolded len, unfolded log]
  show ?thesis using log caught [of SafetyTick] caught [of NotifyLagged] by (simp only: starts_replay.simps simp_thms)
qed

theorem revoked_principal_cut_off_witness:
  "let later = run_ops (relay_step watch_prost closed_access) [Register_op sample_enrollment]
       (snd (RelayApplication_revoke_principal watch_who watch_app)) in
     RelayApplication_replay_encoded watch_prost closed_access watch_who sample_request later = Inl Unauthorized \<and>
     binaries (wt_sent (watch_step watch_prost closed_access watch_who later True SafetyTick watch_opened)) =
       binaries (wt_sent watch_opened)"
proof -
  have "fst (RelayApplication_revoke_principal watch_who watch_app) = Inr True"
    by (simp add: RelayApplication_revoke_principal_def on_db_def on_registry_def on_part_def watch_app_def
        revoke_principal_def sample_registry_def row_of_request_def revocable_def)
  then have "RelayApplication_revoke_principal watch_who watch_app =
      (Inr True, snd (RelayApplication_revoke_principal watch_who watch_app))"
    by (metis prod.collapse)
  moreover have "\<not> contains_principal closed_access watch_who"
    by (simp add: contains_principal_def closed_access_def)
  ultimately show ?thesis
    unfolding Let_def using revoked_principal_cut_off [OF watch_app_inv _ refl] by blast
qed

end
