(* ===== verification/Spec2Isabelle.thy ===== *)
theory Spec2Isabelle
  imports Message_History_Props Trusted_Device_Props Local_Framing Community_Watch_Live
begin

text \<open>
  Konclave: end-to-end encrypted conversations between agents, over a relay that stores
  opaque envelopes. This development models the relay from its tables to its WebSocket
  sessions, the wire contracts between relay and clients, the domain core both sides share,
  and from the local daemon the sealed records, the address book of trusted devices and the
  paging of message history. Paths below are relative to \<open>src/\<close>.

  \<^bold>\<open>How the parts interact.\<close>
  A client encodes an envelope with the wire contracts and submits it. The community relay
  authenticates the bearer token, authorizes the action by the access document or by the
  registry of enrolled principals, and appends the bytes to the log of the envelope's
  route. Other members replay the route in pages or watch it over a WebSocket, and
  acknowledge what they have processed. Two devices that share no conversation yet meet at
  the relay through a pairing rendezvous or a short-code exchange. On the device the domain
  core decides which membership changes, request-service messages and policy-governed
  actions are accepted; the daemon keeps its state in sealed records.

  \<^bold>\<open>Conventions.\<close>
  \<open>Result\<close> is a sum type with the error on the left; \<open>?\<close>, \<open>ok_or\<close>, \<open>map_err\<close>,
  \<open>transpose\<close> and \<open>collect\<close> are functions of \<open>Konclave_Prelude\<close>. \<open>u8\<close>, \<open>u32\<close> and
  \<open>u64\<close> are words, so arithmetic on them wraps unless the code checks it; \<open>usize\<close> is
  \<open>nat\<close>; a signed SQL INTEGER column is \<open>int\<close> with the conversions of the code. A
  table is the list of its rows in a record of tables. An operation takes the tables and
  returns its result with the new tables; a transaction that returns early restores the old
  ones. Field names carry a short prefix of their type, and error constructors a prefix
  where two Rust enums share a name. A durable component offers a step function over the
  data type of its operations, and the locales \<open>durable_store\<close> and \<open>monotone_store\<close>
  lift what one step keeps to every history of operations.

  \<^bold>\<open>Shared theories.\<close>
  \<^item> \<open>Konclave_Prelude\<close>: the vocabulary above.
  \<^item> \<open>Byte_Order\<close>: big-endian integers and length-prefixed byte strings of the standard
    library; encoding is injective.
  \<^item> \<open>Ordered_Slices\<close>: \<open>Ord::cmp\<close>, \<open>sort_by\<close> and the loop of binary search; the
    search finds an element of a sorted slice exactly when it is there.

  \<^bold>\<open>Domain core\<close> (\<open>crates/Konclave.DomainCore/src\<close>).
  \<^item> \<open>Domain_Core\<close> (\<open>error.rs\<close>, \<open>identifiers.rs\<close>, \<open>model.rs\<close>): errors, identifiers,
    versions and the relay contracts, each constructor with the predicate it establishes.
  \<^item> \<open>Domain_Membership\<close> (\<open>model.rs\<close>, \<open>request_service.rs\<close>): conversation states and
    membership authorizations. An accepted authorization comes from a current
    administrator, moves the epoch by one, touches only the device it names and yields a
    valid state; along the step relation an invitation is consumed at most once.
  \<^item> \<open>Collaboration_Policy\<close> (\<open>collaboration_policy.rs\<close>): canonical bundles and the
    evaluator. Its decision is characterised as an intersection of the bundle with local
    authority, restrictions and limits, and is monotone in the local controls.
  \<^item> \<open>Domain_Application\<close> (\<open>model.rs\<close>, \<open>request_delivery.rs\<close>, \<open>request_service.rs\<close>,
    \<open>response_continuation.rs\<close>): application messages, the folding of delivery receipts,
    what a request-service channel admits in each direction, and how the requester's
    correlation check decides each admitted answer.
  \<^item> \<open>Trusted_Devices\<close> (\<open>trusted_devices.rs\<close>): aliases, bindings and their resolution
    against the current evidence.

  \<^bold>\<open>Wire contracts\<close> (\<open>crates/Konclave.ProtocolContracts/src\<close>, \<open>crates/Konclave.LocalFraming/src\<close>).
  \<^item> \<open>Protobuf_Wire\<close>, \<open>Protocol_Relay\<close> (\<open>v1/common.rs\<close>, \<open>v1/relay.rs\<close>, \<open>error.rs\<close>): the
    hand-written writer against a reference reader of the wire format, and every relay
    encoder and decoder. Envelopes of the supported major version round-trip and others are
    refused, the envelope decoder accepts exactly the bounded inputs whose message passes
    every check (unknown fields are skipped, so several inputs may stand for one envelope),
    and the forwarding encoder preserves the stored bytes.
  \<^item> \<open>Local_Framing\<close> (\<open>lib.rs\<close>): length-prefixed frames; payloads within the maximum that are
    written one after the other are read back in order by as many reads, which leave the
    bytes that follow untouched.
  \<^item> \<open>Relay_Error_Codes\<close>: the stable error codes of four crates.
\<close>

text \<open>
  \<^bold>\<open>Relay core\<close> (\<open>crates/Konclave.RelayCore/src\<close>, \<open>crates/Konclave.RelayAuthentication/src\<close>).
  \<^item> \<open>Relay_Base\<close> (\<open>error.rs\<close>, the conversions of \<open>sqlite.rs\<close>).
  \<^item> \<open>Relay_Log\<close>, \<open>Relay_Log_Inv\<close>, \<open>Relay_Log_Props\<close> (\<open>sqlite.rs\<close>, \<open>repository.rs\<close>):
    submission, replay and acknowledgment; the invariant and its interpretation as a
    monotone store; then the promises: submission refines appending to the log of a route,
    cursors are gapless, commits are serialised by epoch, resubmission is idempotent,
    selected pages always fit the wire bounds, paging returns the whole log, and the
    acknowledgment is safe although check and update are separate statements.
  \<^item> \<open>Relay_Principals\<close> (\<open>sqlite.rs\<close>, \<open>lib.rs\<close> of the authentication crate): enrollment
    and revocation; revocation is final, with the exact refusal of each later enrollment.
  \<^item> \<open>Relay_Rendezvous\<close> (\<open>pairing_rendezvous.rs\<close>, \<open>sqlite.rs\<close>): a bounded table of
    records that can be taken once.
  \<^item> \<open>Relay_Short_Code\<close>, \<open>Relay_Short_Code_Store\<close>, \<open>Relay_Short_Code_Inv\<close>,
    \<open>Relay_Short_Code_Props\<close>, \<open>Relay_Short_Code_Exchange\<close> (\<open>short_code_pairing.rs\<close>,
    \<open>sqlite.rs\<close>, \<open>DomainCore/src/short_code_relay.rs\<close>): the pure decisions, the six
    transactions, the invariant, the refinement of the pure state by the tables, the order
    of the stages, the capacity and rate limits, the release of the capability, how guesses
    of a locator are counted per fixed window, and that an exchange that follows the protocol
    reaches its end.
  \<^item> \<open>Relay_Service\<close> (\<open>service.rs\<close>): the authorizing service over one database. The trait
    \<open>RelayAuthorizer\<close> is the locale \<open>relay_authorizer\<close>, interpreted by the dynamic
    authorizer here and by both authorizers of \<open>Community_Access\<close>.

  \<^bold>\<open>Community relay\<close> (\<open>apps/Konclave.CommunityRelay/src\<close>).
  \<^item> \<open>Community_Access\<close> (\<open>access.rs\<close>): the access document grants exactly what it lists.
  \<^item> \<open>Community_Relay\<close> (\<open>application.rs\<close>): the operations the transports call, with one
    invariant for the whole database.
  \<^item> \<open>Community_Watch\<close>, \<open>Community_Watch_Props\<close>, \<open>Community_Watch_Live\<close>
    (\<open>websocket.rs\<close>): a watch session as a state machine over the inputs of its
    \<open>select!\<close> loops, interleaved with arbitrary relay operations. It delivers the log of
    the route without gap, repetition or reordering, catches up after lost notifications
    while the socket accepts its writes, and ends when the grant of its principal ends.

  \<^bold>\<open>Local daemon\<close> (\<open>crates/Konclave.SecretStorage/src\<close>, \<open>apps/Konclave.LocalDaemon/src\<close>).
  \<^item> \<open>Secret_Storage\<close> (\<open>authenticated_cipher.rs\<close>, \<open>sealed_blob.rs\<close>): a sealed record opens
    under a context of another kind or other components only if the cipher accepts one nonce and
    ciphertext for two given pairs of associated data and plaintext, or the digest maps two
    given inputs to one value.
  \<^item> \<open>Trusted_Device_Store\<close>, \<open>Trusted_Device_Props\<close> (\<open>trusted_device_persistence.rs\<close>):
    the address book refines a set of bindings, verifies after every history of commands,
    never takes an alias from a device still trusted, and detects changed rows; a full book
    refuses a new device as corrupt data.
  \<^item> \<open>Message_History\<close>, \<open>Message_History_Props\<close> (\<open>DomainCore/src/message_history.rs\<close>,
    \<open>persistence/message_history.rs\<close>): bounded pages in both directions; following the
    continuation returns every matching message once and in order.

  \<^bold>\<open>Parameters.\<close> Code outside the repository is an argument of the definitions that call it.
  \<^item> \<open>prost\<close>: the Protocol Buffers library and its generated types. The laws are stated
    where they are used: a message that was encoded is decoded to itself with the announced
    length, and, in \<open>protobuf_rules\<close>, keys and fields written in the wire format are read
    and skipped as such, and pages of decodable envelopes decode as long as the envelopes
    leave room for two more levels below the library's recursion limit; the depth the
    library counts in an envelope is the parameter \<open>nesting\<close>.
  \<^item> \<open>crypto_provider\<close>: AES-256-GCM and SHA-256. \<open>aead_rules\<close> says that the cipher
    appends a 16-byte tag, opens what it sealed and opens nothing else; \<open>digest_rule\<close>
    gives the length of the digest. Collision freedom is never assumed: the statements name
    the two inputs that would have to collide.
  \<^item> JSON, base64 and the text view of headers in \<open>Community_Access\<close>; clocks, nonces and
    the outcome of socket writes are inputs of the step that uses them.
  \<^item> \<open>history_reader\<close>: the two functions of the profile store that open a history record
    and compare its cursor with relay evidence. They are part of the repository but not of
    the model; the paging theorem asks that the rows within the bounds open.
  Each law is shown to be satisfiable by a concrete instance.
\<close>

text \<open>
  \<^bold>\<open>Bounds, fuel and termination.\<close>
  The limits of the code (page sizes, table capacities, message sizes) are definitions with
  the source's names and values. Loops of the code are structural recursions or have a
  termination proof: field scanning and frame reading consume input, a varint is shifted
  right, and binary search shrinks its interval. Three loops belong to the reader of pages
  and not to one call, and take a page budget: \<open>replay_all\<close> over a route, \<open>catch_up\<close> of a
  watch session and \<open>read_history\<close>. Each page moves past at least one row, so a page per
  stored row is enough for \<open>replay_all\<close> (and one page where nothing is stored) and for
  \<open>catch_up\<close> after the page that starts it, and one page more for \<open>read_history\<close>; the
  theorems show that the result is then reached.

  \<^bold>\<open>Atomic steps.\<close>
  A transaction of a store is one step, as its lock and its SQL transaction make it in the
  code. Two steps of the model are coarser than the code. An operation of \<open>Relay_Service\<close>
  authorizes and acts in one step, while \<open>service.rs\<close> awaits the authorizer and then the
  repository; and \<open>drain_replay\<close> authorizes, loads a page and writes it in one step, while
  \<open>websocket.rs\<close> awaits each of them. An operation that has passed its authorization when
  a revocation commits may therefore still complete in the code, and a page loaded before
  another operation commits may be written after it. The theorems about revocation are
  about operations whose authorization starts after the revocation has committed. The
  acknowledgment, whose check and update are separate statements, is modelled as two steps
  that others may come between.

  \<^bold>\<open>Deviations the model exposes.\<close>
  The capacity error of the address book cannot be returned, because loading the rows back
  already fails. The window of short-code claims is aligned to fixed blocks of ten minutes.
  An expired delivery receipt is accepted only as the first observation, so the fold of
  receipts depends on their order in this one case. An envelope whose version field holds
  unknown groups nested close to the recursion limit of the Protocol Buffers library is
  within the limit when it is submitted and beyond it inside a page, so that the pages that
  contain it are refused; this is why catching up asks for room below that limit.

  \<^bold>\<open>Not modelled.\<close>
  \<^item> Failures of SQLite itself, poisoned locks and schema migrations: a statement succeeds
    unless it violates a constraint of the schema.
  \<^item> The HTTP routes, configuration, TLS, metrics and service shell of the community relay:
    library and operating-system code around the modelled application.
  \<^item> The remaining codecs of \<open>ProtocolContracts\<close>: they convert generated types like the
    modelled relay messages do.
  \<^item> Delivery diagnostics and the device side of short-code confirmation in the domain core:
    values that no modelled component uses.
  \<^item> Key custody, the storage traits of the MLS library and \<open>CryptographicCore\<close>: calls into
    credential stores, MLS, signature and curve libraries whose state is opaque here.
  \<^item> The rest of the local daemon and \<open>ClientLibrary\<close>: asynchronous code over MLS groups,
    network streams and the profile database.
  \<^item> Local service transport and client, the local authorization store, policy documents,
    adapters, user presence and platform security: operating-system calls, document parsers,
    and a store that the modelled components do not reach.
  \<^item> The agent-to-agent gateway with its contracts, task store and artifacts: a separate
    protocol beside the relay.
  \<^item> The command line and the admin console: user interfaces.
  \<^item> Destructors that zeroize secrets and \<open>Debug\<close> formatting: no effect on values.
\<close>

end
